(* ===== verification/Asock_Prelude.thy ===== *)
theory Asock_Prelude
  imports Main "HOL-Library.Word"
begin

text \<open>
  Shared ground of the development: machine integers, return codes, the faults a C execution
  can end in, the result type of operations that may fault, the state monad built on it with
  its weakest preconditions, and the two loop shapes the sources use (a forward search over a
  \<open>size_t\<close> index and the downward \<open>for (i = sz - 1; i < sz; --i)\<close>).
\<close>

section \<open>Machine types\<close>

type_synonym size_t = "64 word"
type_synonym ptr = "64 word"
type_synonym byte = "8 word"
type_synonym AsockReturnCode = int

text \<open>The return codes of \<open>include/asock.h\<close>.\<close>

definition ASOCK_SUCCESS :: AsockReturnCode where "ASOCK_SUCCESS = 0"
definition ASOCK_ERR_NOMEM :: AsockReturnCode where "ASOCK_ERR_NOMEM = 1"
definition ASOCK_ERR_INVAL :: AsockReturnCode where "ASOCK_ERR_INVAL = 2"
definition ASOCK_ERR_BADSTATE :: AsockReturnCode where "ASOCK_ERR_BADSTATE = 2"
definition ASOCK_FAILURE :: AsockReturnCode where "ASOCK_FAILURE = 666"
definition ASOCK_UNDEFINED_CODE :: AsockReturnCode where "ASOCK_UNDEFINED_CODE = 1666"

lemmas return_code_defs =
  ASOCK_SUCCESS_def ASOCK_ERR_NOMEM_def ASOCK_ERR_INVAL_def ASOCK_ERR_BADSTATE_def
  ASOCK_FAILURE_def ASOCK_UNDEFINED_CODE_def

section \<open>Faults and results\<close>

text \<open>
  What can end an execution other than a return: a failed \<open>assert\<close> or \<open>abort\<close>, an access
  through a null pointer, outside a block or to a freed object, a thread that locks a mutex it
  already holds, a loop that never ends. \<open>Out_Of_Fuel\<close> belongs to the model alone: a loop
  driven by the kernel's answers ran longer than the fuel given to it.
\<close>

datatype fault =
    Assert_Failed | Aborted_Process | Null_Deref | Out_Of_Bounds | Use_After_Free
  | Self_Deadlock | Diverges | Out_Of_Fuel

type_synonym 'a res = "fault + 'a"

definition bindR :: "'a res \<Rightarrow> ('a \<Rightarrow> 'b res) \<Rightarrow> 'b res" where
  "bindR m f = (case m of Inl e \<Rightarrow> Inl e | Inr x \<Rightarrow> f x)"

lemma bindR_simps [simp]: "bindR (Inl e) f = Inl e" "bindR (Inr x) f = f x"
  by (simp_all add: bindR_def)

lemma bindR_eq_Inr [simp]: "bindR m f = Inr y \<longleftrightarrow> (\<exists>x. m = Inr x \<and> f x = Inr y)"
  by (cases m) auto

definition assertR :: "bool \<Rightarrow> unit res" where
  "assertR b = (if b then Inr () else Inl Assert_Failed)"

lemma assertR_simps [simp]: "assertR True = Inr ()" "assertR False = Inl Assert_Failed"
  by (simp_all add: assertR_def)

section \<open>Stateful operations\<close>

type_synonym ('s, 'a) op = "'s \<Rightarrow> ('a \<times> 's) res"

definition returnM :: "'a \<Rightarrow> ('s, 'a) op" where
  "returnM x s = Inr (x, s)"

definition failM :: "fault \<Rightarrow> ('s, 'a) op" where
  "failM e s = Inl e"

definition bindM :: "('s, 'a) op \<Rightarrow> ('a \<Rightarrow> ('s, 'b) op) \<Rightarrow> ('s, 'b) op" where
  "bindM m f s = bindR (m s) (\<lambda>(x, s'). f x s')"

definition thenM :: "('s, 'a) op \<Rightarrow> ('s, 'b) op \<Rightarrow> ('s, 'b) op" where
  "thenM m n = bindM m (\<lambda>_. n)"

definition getsM :: "('s \<Rightarrow> 'a) \<Rightarrow> ('s, 'a) op" where
  "getsM f s = Inr (f s, s)"

definition modifyM :: "('s \<Rightarrow> 's) \<Rightarrow> ('s, unit) op" where
  "modifyM f s = Inr ((), f s)"

definition liftR :: "('s \<Rightarrow> 'a res) \<Rightarrow> ('s, 'a) op" where
  "liftR f s = bindR (f s) (\<lambda>x. Inr (x, s))"

definition assertM :: "bool \<Rightarrow> ('s, unit) op" where
  "assertM b = (if b then returnM () else failM Assert_Failed)"

definition whenM :: "bool \<Rightarrow> ('s, unit) op \<Rightarrow> ('s, unit) op" where
  "whenM b m = (if b then m else returnM ())"

lemmas op_defs =
  returnM_def failM_def bindM_def thenM_def getsM_def modifyM_def liftR_def assertM_def whenM_def

primrec repeatM :: "nat \<Rightarrow> ('s, unit) op \<Rightarrow> ('s, unit) op" where
  "repeatM 0 m = returnM ()"
| "repeatM (Suc n) m = thenM m (repeatM n m)"

section \<open>Weakest preconditions\<close>

text \<open>
  \<open>wp F m Q s\<close>: running \<open>m\<close> from \<open>s\<close> either returns a result and a state that satisfy
  \<open>Q\<close>, or ends in a fault that \<open>F\<close> tolerates. With \<open>F = (\<lambda>_. False)\<close> this is total
  correctness without faults.
\<close>

definition wp :: "(fault \<Rightarrow> bool) \<Rightarrow> ('s, 'a) op \<Rightarrow> ('a \<Rightarrow> 's \<Rightarrow> bool) \<Rightarrow> 's \<Rightarrow> bool" where
  "wp F m Q s = (case m s of Inl e \<Rightarrow> F e | Inr (x, s') \<Rightarrow> Q x s')"

abbreviation no_fault :: "fault \<Rightarrow> bool" where
  "no_fault \<equiv> (\<lambda>_. False)"

named_theorems wp_simps \<open>weakest preconditions of the monad's operations\<close>

lemma wp_return [wp_simps]: "wp F (returnM x) Q s = Q x s"
  by (simp add: wp_def returnM_def)

lemma wp_return_fun [wp_simps]: "wp F (returnM x) Q = Q x"
  by (rule ext) (rule wp_return)

lemma wp_fail [wp_simps]: "wp F (failM e) Q s = F e"
  by (simp add: wp_def failM_def)

lemma wp_bind [wp_simps]: "wp F (bindM m f) Q s = wp F m (\<lambda>x. wp F (f x) Q) s"
  by (simp add: wp_def bindM_def bindR_def split: sum.splits prod.splits)

lemma wp_then [wp_simps]: "wp F (thenM m n) Q s = wp F m (\<lambda>_. wp F n Q) s"
  by (simp add: thenM_def wp_bind)

lemma wp_bind_eq: "wp F (bindM m f) Q = wp F m (\<lambda>x. wp F (f x) Q)"
  by (rule ext) (simp add: wp_bind)

lemma wp_then_eq: "wp F (thenM m n) Q = wp F m (\<lambda>_. wp F n Q)"
  by (rule ext) (simp add: wp_then)

lemma wp_gets [wp_simps]: "wp F (getsM f) Q s = Q (f s) s"
  by (simp add: wp_def getsM_def)

lemma wp_modify [wp_simps]: "wp F (modifyM f) Q s = Q () (f s)"
  by (simp add: wp_def modifyM_def)

lemma wp_liftR [wp_simps]: "wp F (liftR f) Q s = (case f s of Inl e \<Rightarrow> F e | Inr x \<Rightarrow> Q x s)"
  by (simp add: wp_def liftR_def bindR_def split: sum.splits)

lemma wp_assert [wp_simps]:
  "wp F (assertM b) Q s = (if b then Q () s else F Assert_Failed)"
  by (simp add: assertM_def wp_return wp_fail)

lemma wp_when [wp_simps]: "wp F (whenM b m) Q s = (if b then wp F m Q s else Q () s)"
  by (simp add: whenM_def wp_return)

lemma wp_if [wp_simps]: "wp F (if b then m else n) Q s = (if b then wp F m Q s else wp F n Q s)"
  by simp

lemma wp_mono:
  "wp F m Q s \<Longrightarrow> (\<And>x s'. Q x s' \<Longrightarrow> R x s') \<Longrightarrow> wp F m R s"
  by (auto simp: wp_def split: sum.splits)

lemma wp_mono_fault:
  "wp F m Q s \<Longrightarrow> (\<And>e. F e \<Longrightarrow> G e) \<Longrightarrow> (\<And>x s'. Q x s' \<Longrightarrow> R x s') \<Longrightarrow> wp G m R s"
  by (auto simp: wp_def split: sum.splits)

lemma wp_conj: "wp F m Q s \<Longrightarrow> wp F m R s \<Longrightarrow> wp F m (\<lambda>x s'. Q x s' \<and> R x s') s"
  by (auto simp: wp_def split: sum.splits)

lemma wp_Inr: "m s = Inr (x, s') \<Longrightarrow> wp F m Q s = Q x s'"
  by (simp add: wp_def)

lemma wp_no_faultD: "wp no_fault m Q s \<Longrightarrow> \<exists>x s'. m s = Inr (x, s') \<and> Q x s'"
  by (auto simp: wp_def split: sum.splits)

lemma wp_returns: "wp F m Q s \<Longrightarrow> m s = Inr (x, s') \<Longrightarrow> Q x s'"
  by (simp add: wp_def)

section \<open>Loops over a \<open>size_t\<close> index\<close>

lemma unat_Suc_less: "(i :: size_t) < n \<Longrightarrow> unat (i + 1) = Suc (unat i)"
proof -
  assume "i < n"
  then have "unat i + 1 < 2 ^ 64" using unsigned_less [of n, where 'a = nat]
    by (simp add: word_less_nat_alt)
  then show ?thesis by (simp add: unat_word_ariths(1))
qed

lemma unat_of_nat_size: "k < 2 ^ 64 \<Longrightarrow> unat (of_nat k :: size_t) = k"
  by (simp add: unsigned_of_nat take_bit_nat_eq_self)

lemma of_nat_unat_size: "of_nat (unat (x :: size_t)) = x"
  by (simp add: ucast_id)

lemma unat_power_of_two: "unat ((2 :: size_t) ^ m) \<le> 2 ^ 63"
proof (cases "m \<le> 63")
  case True
  then have le: "(2::nat) ^ m \<le> 2 ^ 63" by (intro power_increasing) simp_all
  have "unat (of_nat (2 ^ m) :: size_t) = 2 ^ m"
    using le by (intro unat_of_nat_size) simp
  with le show ?thesis by simp
next
  case False
  then have z: "(2 :: size_t) ^ m = 0" by (simp add: exp_eq_zero_iff)
  show ?thesis unfolding z by simp
qed

lemma unat_pred: "(i :: size_t) \<noteq> 0 \<Longrightarrow> unat (i - 1) = unat i - 1"
  by (rule unat_minus_one)

text \<open>
  \<open>for (i = start; i < n; ++i) if (test(i)) return i;\<close> over a state that the loop only
  reads; no hit is \<open>None\<close>.
\<close>

function find_from :: "size_t \<Rightarrow> size_t \<Rightarrow> (size_t \<Rightarrow> bool res) \<Rightarrow> size_t option res" where
  "find_from i n test =
     (if i < n
      then bindR (test i) (\<lambda>hit. if hit then Inr (Some i) else find_from (i + 1) n test)
      else Inr None)"
  by pat_completeness auto
termination
proof (relation "measure (\<lambda>(i, n, test). unat n - unat i)", goal_cases)
  case 1
  then show ?case by simp
next
  case (2 i n test hit)
  then have "unat i < unat n" and "unat (i + 1) = Suc (unat i)"
    by (simp_all add: word_less_nat_alt unat_Suc_less)
  then show ?case by simp
qed

declare find_from.simps [simp del]

text \<open>
  \<open>for (i = n - 1; i < n; --i) body(i);\<close>: the index wraps to the largest \<open>size_t\<close> after
  0, which ends the loop.
\<close>

function for_down :: "size_t \<Rightarrow> size_t \<Rightarrow> (size_t \<Rightarrow> ('s, unit) op) \<Rightarrow> ('s, unit) op" where
  "for_down i n body =
     (if i < n then thenM (body i) (for_down (i - 1) n body) else returnM ())"
  by pat_completeness auto
termination
proof (relation "measure (\<lambda>(i, n, body). if i < n then Suc (unat i) else 0)", goal_cases)
  case 1
  then show ?case by simp
next
  case (2 i n body)
  show ?case
  proof (cases "i = 0")
    case True
    with 2 show ?thesis by simp
  next
    case False
    with 2 show ?thesis by (simp add: unat_pred) (metis Suc_pred lessI unat_gt_0)
  qed
qed

declare for_down.simps [simp del]

text \<open>The same loop as a structural recursion: indices \<open>k - 1, \<dots>, 0\<close>.\<close>

primrec down_nat :: "nat \<Rightarrow> (nat \<Rightarrow> ('s, unit) op) \<Rightarrow> ('s, unit) op" where
  "down_nat 0 body = returnM ()"
| "down_nat (Suc k) body = thenM (body k) (down_nat k body)"

lemma for_down_below:
  "i < n \<Longrightarrow> for_down i n body = down_nat (Suc (unat i)) (\<lambda>k. body (of_nat k))"
proof (induction "unat i" arbitrary: i)
  case 0
  then have "i = 0" by (simp add: unat_eq_zero)
  moreover have "for_down (- 1) n body = returnM ()"
    by (simp add: for_down.simps [of "- 1" n])
  ultimately show ?case using 0 by (simp add: for_down.simps [of 0 n])
next
  case (Suc k)
  then have nz: "i \<noteq> 0" by auto
  then have k: "k = unat (i - 1)" using Suc(2) by (simp add: unat_pred)
  moreover have "i - 1 < n"
    using Suc.prems k Suc(2) unfolding word_less_nat_alt by linarith
  ultimately have "for_down (i - 1) n body = down_nat (Suc k) (\<lambda>k. body (of_nat k))"
    using Suc(1) by simp
  moreover have "word_of_nat (Suc k) = i" unfolding Suc(2) by (simp add: ucast_id)
  moreover have "for_down i n body = thenM (body i) (for_down (i - 1) n body)"
    using Suc.prems by (subst for_down.simps) simp
  ultimately show ?case unfolding Suc(2) [symmetric] by simp
qed

lemma for_down_eq: "for_down (n - 1) n body = down_nat (unat n) (\<lambda>k. body (of_nat k))"
proof (cases "n = 0")
  case True
  then show ?thesis by (simp add: for_down.simps [of _ 0])
next
  case False
  then have "n - 1 < n"
    by (metis diff_less unat_pred word_less_nat_alt unat_gt_0 zero_less_one)
  moreover from False have "Suc (unat (n - 1)) = unat n"
    by (simp add: unat_pred) (metis Suc_pred unat_gt_0)
  ultimately show ?thesis by (metis for_down_below)
qed

text \<open>A downward loop keeps an indexed invariant.\<close>

lemma wp_down_nat:
  assumes step: "\<And>k s. k < n \<Longrightarrow> I (Suc k) s \<Longrightarrow> wp F (body k) (\<lambda>_. I k) s"
    and init: "I n s"
  shows "wp F (down_nat n body) (\<lambda>_. I 0) s"
  using assms
proof (induction n arbitrary: s)
  case 0
  then show ?case by (simp add: wp_simps)
next
  case (Suc n)
  have "wp F (body n) (\<lambda>_. I n) s" using Suc.prems by simp
  then have "wp F (body n) (\<lambda>_. wp F (down_nat n body) (\<lambda>_. I 0)) s"
    by (rule wp_mono) (rule Suc.IH, use Suc.prems in auto)
  then show ?case by (simp add: wp_simps)
qed

text \<open>A search from 0 finds the first index that passes the test.\<close>

lemma find_from_nat:
  assumes "\<And>k. k < unat n \<Longrightarrow> test (of_nat k) = Inr (P k)" and "unat i \<le> unat n"
  shows "find_from i n test =
    Inr (if \<exists>k. unat i \<le> k \<and> k < unat n \<and> P k
         then Some (of_nat (LEAST k. unat i \<le> k \<and> k < unat n \<and> P k)) else None)"
  using assms(2)
proof (induction "unat n - unat i" arbitrary: i)
  case 0
  then show ?case by (auto simp: find_from.simps [of i n] word_less_nat_alt)
next
  case (Suc d)
  then have less: "i < n" by (simp add: word_less_nat_alt)
  then have inc: "unat (i + 1) = Suc (unat i)" by (rule unat_Suc_less)
  have t: "test i = Inr (P (unat i))" using assms(1) [of "unat i"] less by (simp add: word_less_nat_alt)
  show ?case
  proof (cases "P (unat i)")
    case True
    then have "(LEAST k. unat i \<le> k \<and> k < unat n \<and> P k) = unat i"
      using less by (intro Least_equality) (auto simp: word_less_nat_alt)
    with True t less show ?thesis by (auto simp: find_from.simps [of i n] word_less_nat_alt)
  next
    case False
    then have eq: "(unat i \<le> k \<and> k < unat n \<and> P k) = (unat (i + 1) \<le> k \<and> k < unat n \<and> P k)" for k
      using inc by (metis Suc_leD Suc_leI le_neq_implies_less)
    from False t less have "find_from i n test = find_from (i + 1) n test"
      by (simp add: find_from.simps [of i n])
    also have "\<dots> = Inr (if \<exists>k. unat (i + 1) \<le> k \<and> k < unat n \<and> P k
         then Some (of_nat (LEAST k. unat (i + 1) \<le> k \<and> k < unat n \<and> P k)) else None)"
      using Suc(2) inc less by (intro Suc(1)) (auto simp: word_less_nat_alt)
    finally show ?thesis by (simp only: eq)
  qed
qed

text \<open>The first position of a list whose element satisfies \<open>P\<close>.\<close>

primrec first_index :: "('a \<Rightarrow> bool) \<Rightarrow> 'a list \<Rightarrow> nat option" where
  "first_index P [] = None"
| "first_index P (x # xs) = (if P x then Some 0 else map_option Suc (first_index P xs))"

lemma first_index_None: "first_index P xs = None \<longleftrightarrow> (\<forall>x \<in> set xs. \<not> P x)"
  by (induction xs) auto

lemma first_index_Some:
  "first_index P xs = Some k \<Longrightarrow> k < length xs \<and> P (xs ! k) \<and> (\<forall>j < k. \<not> P (xs ! j))"
proof (induction xs arbitrary: k)
  case (Cons x xs)
  show ?case
  proof (cases "P x")
    case False
    with Cons.prems obtain j where "first_index P xs = Some j" "k = Suc j" by auto
    with Cons.IH [of j] False show ?thesis by (auto simp: less_Suc_eq_0_disj)
  qed (use Cons.prems in auto)
qed simp

lemma first_index_Least:
  "first_index P xs = (if \<exists>k < length xs. P (xs ! k) then Some (LEAST k. k < length xs \<and> P (xs ! k)) else None)"
proof (cases "first_index P xs")
  case None
  then show ?thesis by (auto simp: first_index_None)
next
  case (Some k)
  from first_index_Some [OF this] have "(LEAST k. k < length xs \<and> P (xs ! k)) = k"
    by (intro Least_equality) (auto simp: not_less [symmetric])
  with Some first_index_Some [OF Some] show ?thesis by auto
qed

lemma find_from_list:
  assumes "\<And>k. k < length xs \<Longrightarrow> test (of_nat k) = Inr (P (xs ! k))" and "length xs = unat n"
  shows "find_from 0 n test = Inr (map_option of_nat (first_index P xs))"
  using find_from_nat [of n test "\<lambda>k. P (xs ! k)" 0] assms
  by (auto simp: first_index_Least)

section \<open>Lists\<close>

definition delete_at :: "nat \<Rightarrow> 'a list \<Rightarrow> 'a list" where
  "delete_at i xs = take i xs @ drop (Suc i) xs"

lemma length_delete_at [simp]: "i < length xs \<Longrightarrow> length (delete_at i xs) = length xs - 1"
  by (simp add: delete_at_def)

lemma nth_delete_at:
  "i < length xs \<Longrightarrow> j < length xs - 1 \<Longrightarrow> delete_at i xs ! j = xs ! (if j < i then j else Suc j)"
  by (auto simp: delete_at_def nth_append min_def)

lemma set_delete_at: "set (delete_at i xs) \<subseteq> set xs"
  by (auto simp: delete_at_def dest: in_set_takeD in_set_dropD)

lemma delete_at_distinct:
  assumes "distinct xs" "i < length xs"
  shows "set (delete_at i xs) = set xs - {xs ! i}" "distinct (delete_at i xs)"
proof -
  have eq: "xs = take i xs @ xs ! i # drop (Suc i) xs" using assms(2) by (rule id_take_nth_drop)
  with assms(1) have d: "distinct (take i xs @ xs ! i # drop (Suc i) xs)" by simp
  then show "distinct (delete_at i xs)" by (simp add: delete_at_def)
  have "set xs = set (take i xs) \<union> {xs ! i} \<union> set (drop (Suc i) xs)"
    by (subst eq) (simp del: append_take_drop_id)
  with d show "set (delete_at i xs) = set xs - {xs ! i}"
    by (auto simp: delete_at_def)
qed

lemma delete_at_filter:
  assumes "distinct xs" "i < length xs"
  shows "delete_at i xs = filter (\<lambda>x. x \<noteq> xs ! i) xs"
proof -
  have eq: "xs = take i xs @ xs ! i # drop (Suc i) xs" using assms(2) by (rule id_take_nth_drop)
  with assms(1) have d: "distinct (take i xs @ xs ! i # drop (Suc i) xs)" by simp
  have "filter (\<lambda>x. x \<noteq> xs ! i) (take i xs @ xs ! i # drop (Suc i) xs) = take i xs @ drop (Suc i) xs"
  proof -
    have "filter (\<lambda>x. x \<noteq> xs ! i) (take i xs) = take i xs"
      "filter (\<lambda>x. x \<noteq> xs ! i) (drop (Suc i) xs) = drop (Suc i) xs"
      using d by (auto simp: filter_id_conv)
    then show ?thesis by simp
  qed
  with eq show ?thesis by (simp add: delete_at_def)
qed

text \<open>In a list without repetition the first match is the only one when the test tells the elements
  apart.\<close>

lemma first_index_unique:
  assumes "distinct xs" "x \<in> set xs" "P x" "\<And>y. y \<in> set xs \<Longrightarrow> P y \<Longrightarrow> y = x"
  obtains k where "first_index P xs = Some k" "k < length xs" "xs ! k = x"
    "delete_at k xs = filter (\<lambda>y. y \<noteq> x) xs"
proof -
  have "first_index P xs \<noteq> None" using assms(2,3) by (auto simp: first_index_None)
  then obtain k where k: "first_index P xs = Some k" by auto
  from first_index_Some [OF k] have "k < length xs" "P (xs ! k)" by auto
  with assms(4) have "xs ! k = x" by auto
  with k \<open>k < length xs\<close> delete_at_filter [OF assms(1)] show ?thesis by (intro that) auto
qed

end
