(* ===== verification/Asock_Memory.thy ===== *)
theory Asock_Memory
  imports Asock_Prelude
begin

text \<open>
  Memory blocks as the containers use them: the bytes behind one \<open>malloc\<close>ed pointer,
  \<open>memcpy\<close> and \<open>memmove\<close> with their bounds, the allocator as a parameter, and the
  arithmetic of fixed-size items inside a block.
\<close>

section \<open>Blocks and copies\<close>

text \<open>\<open>None\<close> is the null pointer.\<close>

type_synonym block = "byte list option"

definition mem_read :: "block \<Rightarrow> size_t \<Rightarrow> size_t \<Rightarrow> byte list res" where
  "mem_read b off n =
     (case b of
        None \<Rightarrow> Inl Null_Deref
      | Some d \<Rightarrow>
          if unat off + unat n \<le> length d then Inr (take (unat n) (drop (unat off) d))
          else Inl Out_Of_Bounds)"

definition splice :: "byte list \<Rightarrow> nat \<Rightarrow> byte list \<Rightarrow> byte list" where
  "splice d off bs = take off d @ bs @ drop (off + length bs) d"

definition mem_write :: "block \<Rightarrow> size_t \<Rightarrow> byte list \<Rightarrow> block res" where
  "mem_write b off bs =
     (case b of
        None \<Rightarrow> Inl Null_Deref
      | Some d \<Rightarrow>
          if unat off + length bs \<le> length d then Inr (Some (splice d (unat off) bs))
          else Inl Out_Of_Bounds)"

text \<open>
  \<open>memcpy(dst + doff, src + soff, n)\<close> between two blocks; with \<open>src = dst\<close> it is
  \<open>memmove\<close>, whose result is as if the source were read first.
\<close>

definition mem_copy :: "block \<Rightarrow> size_t \<Rightarrow> block \<Rightarrow> size_t \<Rightarrow> size_t \<Rightarrow> block res" where
  "mem_copy dst doff src soff n = bindR (mem_read src soff n) (\<lambda>bs. mem_write dst doff bs)"

lemma length_splice [simp]: "off + length bs \<le> length d \<Longrightarrow> length (splice d off bs) = length d"
  by (simp add: splice_def)

section \<open>Allocation\<close>

text \<open>
  \<open>mem i n\<close> is the answer to the \<open>i\<close>-th allocation request of an operation, for \<open>n\<close>
  bytes: \<open>None\<close> when it fails, otherwise the block with whatever bytes it holds.
\<close>

type_synonym allocator = "nat \<Rightarrow> size_t \<Rightarrow> block"

definition PTRDIFF_MAX :: nat where "PTRDIFF_MAX = 2 ^ 63 - 1"

text \<open>The documented behaviour of \<open>malloc\<close>: the block has the size asked for, and no
  object is larger than \<open>PTRDIFF_MAX\<close>.\<close>

definition alloc_ok :: "allocator \<Rightarrow> bool" where
  "alloc_ok mem \<longleftrightarrow> (\<forall>i n d. mem i n = Some d \<longrightarrow> length d = unat n \<and> unat n \<le> PTRDIFF_MAX)"

lemma alloc_okD: "alloc_ok mem \<Longrightarrow> mem i n = Some d \<Longrightarrow> length d = unat n \<and> unat n \<le> PTRDIFF_MAX"
  by (simp add: alloc_ok_def)

text \<open>\<open>realloc\<close> keeps the old content; on failure the old block stays allocated.\<close>

definition realloc_block :: "allocator \<Rightarrow> nat \<Rightarrow> block \<Rightarrow> size_t \<Rightarrow> block" where
  "realloc_block mem i old n =
     (case mem i n of
        None \<Rightarrow> None
      | Some fresh \<Rightarrow>
          let keep = take (unat n) (case old of None \<Rightarrow> [] | Some d \<Rightarrow> d)
          in Some (keep @ drop (length keep) fresh))"

lemma realloc_block_Some:
  assumes "alloc_ok mem" "realloc_block mem i (Some d) n = Some d'" "length d \<le> unat n"
  shows "length d' = unat n" "take (length d) d' = d" "unat n \<le> PTRDIFF_MAX"
  using assms alloc_okD [of mem i n]
  by (auto simp: realloc_block_def Let_def split: option.splits)

text \<open>An allocator that never fails below the limit, for concrete runs.\<close>

definition zero_alloc :: allocator where
  "zero_alloc i n = (if unat n \<le> PTRDIFF_MAX then Some (replicate (unat n) 0) else None)"

lemma alloc_ok_zero_alloc [simp]: "alloc_ok zero_alloc"
  by (simp add: alloc_ok_def zero_alloc_def)

definition null_alloc :: allocator where
  "null_alloc i n = None"

lemma alloc_ok_null_alloc [simp]: "alloc_ok null_alloc"
  by (simp add: alloc_ok_def null_alloc_def)

section \<open>Items of one size inside a block\<close>

definition chunk :: "nat \<Rightarrow> byte list \<Rightarrow> nat \<Rightarrow> byte list" where
  "chunk w d j = take w (drop (j * w) d)"

lemma block_end: "j < n \<Longrightarrow> n * w \<le> l \<Longrightarrow> j * w + w \<le> (l :: nat)"
proof -
  assume "j < n" "n * w \<le> l"
  then have "Suc j * w \<le> n * w" by (intro mult_le_mono1) simp
  with \<open>n * w \<le> l\<close> show ?thesis by simp
qed

lemma length_chunk [simp]: "j < n \<Longrightarrow> n * w \<le> length d \<Longrightarrow> length (chunk w d j) = w"
  using block_end [of j n w "length d"] by (simp add: chunk_def)

lemma chunk_take: "j < n \<Longrightarrow> chunk w (take (n * w) d) j = chunk w d j"
  using block_end [of j n w "n * w"] by (simp add: chunk_def drop_take min_def)

lemma chunk_drop: "chunk w (drop (k * w) d) j = chunk w d (k + j)"
  by (simp add: chunk_def algebra_simps)

lemma chunk_prefix: "take (n * w) d = take (n * w) d' \<Longrightarrow> j < n \<Longrightarrow> chunk w d j = chunk w d' j"
  by (metis chunk_take)

text \<open>A copy of \<open>m\<close> whole items to item \<open>k\<close> replaces exactly the items \<open>k .. k + m - 1\<close>.\<close>

lemma chunk_splice:
  assumes len: "length bs = m * w" and fit: "(k + m) * w \<le> length d"
  shows "chunk w (splice d (k * w) bs) j =
    (if k \<le> j \<and> j < k + m then chunk w bs (j - k) else chunk w d j)"
proof -
  have k: "k * w \<le> length d" using fit by (simp add: algebra_simps)
  consider "j < k" | "k \<le> j" "j < k + m" | "k + m \<le> j" by linarith
  then show ?thesis
  proof cases
    case 1
    then have "j * w + w \<le> k * w" by (rule block_end) simp
    with 1 k show ?thesis by (auto simp: chunk_def splice_def drop_take)
  next
    case 2
    then obtain i where i: "j = k + i" "i < m" by (metis le_Suc_ex nat_add_left_cancel_less)
    then have "i * w + w \<le> m * w" by (blast intro: block_end)
    with i k len show ?thesis by (simp add: chunk_def splice_def algebra_simps)
  next
    case 3
    then obtain i where i: "j = k + m + i" by (metis le_Suc_ex)
    with k len show ?thesis by (simp add: chunk_def splice_def algebra_simps)
  qed
qed

text \<open>A list of items of size \<open>w\<close>, laid out one after the other.\<close>

definition sized :: "nat \<Rightarrow> byte list list \<Rightarrow> bool" where
  "sized w xs \<longleftrightarrow> (\<forall>x \<in> set xs. length x = w)"

lemma sized_simps [simp]:
  "sized w []" "sized w (x # xs) \<longleftrightarrow> length x = w \<and> sized w xs"
  "sized w (xs @ ys) \<longleftrightarrow> sized w xs \<and> sized w ys"
  by (auto simp: sized_def)

lemma sized_take [simp]: "sized w xs \<Longrightarrow> sized w (take n xs)"
  by (auto simp: sized_def dest: in_set_takeD)

lemma sized_drop [simp]: "sized w xs \<Longrightarrow> sized w (drop n xs)"
  by (auto simp: sized_def dest: in_set_dropD)

lemma length_concat_sized [simp]: "sized w xs \<Longrightarrow> length (concat xs) = length xs * w"
  by (induction xs) auto

lemma chunk_concat: "sized w xs \<Longrightarrow> j < length xs \<Longrightarrow> chunk w (concat xs) j = xs ! j"
proof (induction xs arbitrary: j)
  case (Cons x xs)
  show ?case
  proof (cases j)
    case 0
    with Cons.prems show ?thesis by (simp add: chunk_def)
  next
    case (Suc i)
    with Cons.prems have "chunk w (concat (x # xs)) j = chunk w (concat xs) i"
      by (simp add: chunk_def)
    with Suc Cons show ?thesis by simp
  qed
qed simp

lemma take_concat_sized: "sized w xs \<Longrightarrow> take (n * w) (concat xs) = concat (take n xs)"
proof (induction xs arbitrary: n)
  case (Cons x xs)
  then show ?case by (cases n) auto
qed simp

lemma drop_concat_sized: "sized w xs \<Longrightarrow> drop (n * w) (concat xs) = concat (drop n xs)"
proof (induction xs arbitrary: n)
  case (Cons x xs)
  then show ?case by (cases n) auto
qed simp

definition chunks :: "nat \<Rightarrow> byte list \<Rightarrow> nat \<Rightarrow> nat \<Rightarrow> byte list list" where
  "chunks w d k n = map (chunk w d) [k..<k + n]"

lemma length_chunks [simp]: "length (chunks w d k n) = n"
  by (simp add: chunks_def)

lemma nth_chunks [simp]: "j < n \<Longrightarrow> chunks w d k n ! j = chunk w d (k + j)"
  by (simp add: chunks_def)

lemma concat_chunks:
  "(k + n) * w \<le> length d \<Longrightarrow> concat (chunks w d k n) = take (n * w) (drop (k * w) d)"
proof (induction n)
  case (Suc n)
  then have "concat (chunks w d k (Suc n)) = take (n * w) (drop (k * w) d) @ chunk w d (k + n)"
    by (simp add: chunks_def)
  also have "\<dots> = take (n * w + w) (drop (k * w) d)"
    by (simp add: chunk_def take_add distrib_right add.commute [of "n * w" "k * w"])
  finally show ?case by (simp add: add.commute)
qed (simp add: chunks_def)

lemma unat_mult_exact:
  "unat (a :: size_t) * unat b < 2 ^ 64 \<Longrightarrow> unat (a * b) = unat a * unat b"
  by (simp add: unat_word_ariths(2))

lemma unat_add_exact: "unat (a :: size_t) + unat b < 2 ^ 64 \<Longrightarrow> unat (a + b) = unat a + unat b"
  by (simp add: unat_word_ariths(1))

lemma unat_sub_exact: "(b :: size_t) \<le> a \<Longrightarrow> unat (a - b) = unat a - unat b"
  by (rule unat_sub)

text \<open>Reads and copies of whole items, in the form the ring buffer uses them.\<close>

lemma mem_read_chunks:
  assumes "(h + n) * unat w \<le> length d" "length d < 2 ^ 64" "unat hw = h" "unat nw = n"
  shows "mem_read (Some d) (w * hw) (w * nw) = Inr (concat (chunks (unat w) d h n))"
proof -
  have "h * unat w + n * unat w \<le> length d" using assms(1) by (simp add: add_mult_distrib)
  then have "unat (w * hw) = h * unat w" "unat (w * nw) = n * unat w"
    using assms by (auto simp: unat_mult_exact mult.commute)
  with assms(1) show ?thesis
    by (simp add: mem_read_def concat_chunks add_mult_distrib)
qed

lemma splice_splice:
  "length a + length b \<le> length m \<Longrightarrow> splice (splice m 0 a) (length a) b = splice m 0 (a @ b)"
  by (simp add: splice_def add.commute)

lemma twice_below: "a < 2 ^ 63 \<Longrightarrow> 2 * a < (2 :: nat) ^ 64"
  by simp

lemma mod_ring_neq: "a < b \<Longrightarrow> b < a + c \<Longrightarrow> a mod c \<noteq> b mod (c :: nat)"
proof
  assume "a < b" "b < a + c" "a mod c = b mod c"
  then have "c dvd b - a" by (metis mod_eq_dvd_iff_nat less_imp_le)
  with \<open>a < b\<close> \<open>b < a + c\<close> show False by (auto dest: dvd_imp_le)
qed

end
