(* ===== verification/Asock_Vector.thy ===== *)
theory Asock_Vector
  imports Asock_Memory
begin

text \<open>
  \<open>src/asock_vector.c\<close>: the growing array of fixed-size items. The state is the struct with
  its bytes; \<open>vector_items\<close> reads it as a list of items, and each operation is shown to be
  the list operation it stands for.
\<close>

section \<open>State and operations\<close>

record asock_vector =
  v_size :: size_t
  v_data :: block
  v_capacity :: size_t
  v_item_size :: size_t

definition ASOCK_INVALID_VEC_INDEX :: size_t where
  "ASOCK_INVALID_VEC_INDEX = - 1"

definition vector_reallocate :: "allocator \<Rightarrow> asock_vector \<Rightarrow> size_t \<Rightarrow> (int \<times> asock_vector) res" where
  "vector_reallocate mem v new_capacity =
     bindR (assertR (new_capacity > v_capacity v)) (\<lambda>_.
       let new_size = new_capacity * v_item_size v;
           v' = v\<lparr>v_data := realloc_block mem 0 (v_data v) new_size\<rparr>
       in if v_data v' = None then Inr (- 1, v') else Inr (0, v'))"

text \<open>
  The struct takes 32 bytes. \<open>MAX\<close> is the macro of line 9.
\<close>

definition asock_vector_create :: "allocator \<Rightarrow> size_t \<Rightarrow> size_t \<Rightarrow> asock_vector option" where
  "asock_vector_create mem item_size capacity =
     (case mem 0 32 of
        None \<Rightarrow> None
      | Some _ \<Rightarrow>
          let init_size = (if item_size * capacity > 1 then item_size * capacity else 1)
          in case mem 1 init_size of
               None \<Rightarrow> None
             | Some d \<Rightarrow> Some \<lparr>v_size = 0, v_data = Some d, v_capacity = capacity, v_item_size = item_size\<rparr>)"

definition asock_vector_size :: "asock_vector \<Rightarrow> size_t" where
  "asock_vector_size v = v_size v"

definition asock_vector_capacity :: "asock_vector \<Rightarrow> size_t" where
  "asock_vector_capacity v = v_capacity v"

definition asock_vector_index_of :: "asock_vector \<Rightarrow> byte list \<Rightarrow> size_t res" where
  "asock_vector_index_of v item =
     bindR (find_from 0 (v_size v) (\<lambda>i.
         bindR (mem_read (v_data v) (i * v_item_size v) (v_item_size v)) (\<lambda>a.
         bindR (mem_read (Some item) 0 (v_item_size v)) (\<lambda>b. Inr (a = b)))))
       (\<lambda>r. Inr (case r of Some i \<Rightarrow> i | None \<Rightarrow> ASOCK_INVALID_VEC_INDEX))"

definition vector_append :: "asock_vector \<Rightarrow> byte list \<Rightarrow> (AsockReturnCode \<times> asock_vector) res" where
  "vector_append v item =
     (let deviation = v_size v * v_item_size v
      in bindR (mem_copy (v_data v) deviation (Some item) 0 (v_item_size v)) (\<lambda>d.
           Inr (ASOCK_SUCCESS, v\<lparr>v_data := d, v_size := v_size v + 1\<rparr>)))"

definition asock_vector_push ::
    "allocator \<Rightarrow> asock_vector \<Rightarrow> byte list \<Rightarrow> (AsockReturnCode \<times> asock_vector) res" where
  "asock_vector_push mem v item =
     (if v_size v = v_capacity v
      then bindR (vector_reallocate mem v (v_capacity v * 2)) (\<lambda>(r, v').
             if r = - 1 then Inr (ASOCK_FAILURE, v')
             else vector_append (v'\<lparr>v_capacity := v_capacity v' * 2\<rparr>) item)
      else vector_append v item)"

definition asock_vector_erase :: "asock_vector \<Rightarrow> size_t \<Rightarrow> (AsockReturnCode \<times> asock_vector) res" where
  "asock_vector_erase v index =
     (if v_size v = 0 \<or> index \<ge> v_size v then Inr (ASOCK_FAILURE, v)
      else bindR (mem_copy (v_data v) (v_item_size v * index)
                           (v_data v) (v_item_size v * (index + 1))
                           ((v_size v - 1 - index) * v_item_size v)) (\<lambda>d.
             Inr (ASOCK_SUCCESS, v\<lparr>v_data := d, v_size := v_size v - 1\<rparr>)))"

definition asock_vector_clear :: "asock_vector \<Rightarrow> asock_vector" where
  "asock_vector_clear v = v\<lparr>v_size := 0\<rparr>"

text \<open>The result is an offset into the block, \<open>None\<close> the null pointer.\<close>

definition asock_vector_at :: "asock_vector \<Rightarrow> size_t \<Rightarrow> size_t option" where
  "asock_vector_at v index =
     (if index \<ge> v_size v then None else Some (index * v_item_size v))"

section \<open>Invariant and contents\<close>

definition vector_bytes :: "asock_vector \<Rightarrow> byte list" where
  "vector_bytes v = (case v_data v of None \<Rightarrow> [] | Some d \<Rightarrow> d)"

definition vector_items :: "asock_vector \<Rightarrow> byte list list" where
  "vector_items v = chunks (unat (v_item_size v)) (vector_bytes v) 0 (unat (v_size v))"

definition vector_inv :: "asock_vector \<Rightarrow> bool" where
  "vector_inv v \<longleftrightarrow>
     v_data v \<noteq> None \<and> v_item_size v \<noteq> 0 \<and> v_capacity v \<noteq> 0 \<and> v_size v \<le> v_capacity v
     \<and> length (vector_bytes v) = unat (v_capacity v) * unat (v_item_size v)
     \<and> length (vector_bytes v) \<le> PTRDIFF_MAX"

text \<open>What \<open>vector_inv\<close> says of the numbers, once and for all.\<close>

lemma vector_inv_data:
  assumes "vector_inv v"
  obtains d where "v_data v = Some d" "vector_bytes v = d"
    "length d = unat (v_capacity v) * unat (v_item_size v)"
  using assms by (auto simp: vector_inv_def vector_bytes_def)

lemma vector_inv_numbers:
  assumes "vector_inv v"
  shows "0 < unat (v_item_size v)" "0 < unat (v_capacity v)" "unat (v_size v) \<le> unat (v_capacity v)"
    "unat (v_capacity v) * unat (v_item_size v) < 2 ^ 63"
    "unat (v_capacity v) < 2 ^ 63"
proof -
  show pos: "0 < unat (v_item_size v)" "0 < unat (v_capacity v)"
    using assms by (simp_all add: vector_inv_def unat_gt_0)
  show "unat (v_size v) \<le> unat (v_capacity v)"
    using assms by (simp add: vector_inv_def word_le_nat_alt)
  show prod: "unat (v_capacity v) * unat (v_item_size v) < 2 ^ 63"
    using assms by (simp add: vector_inv_def PTRDIFF_MAX_def)
  have "unat (v_capacity v) * 1 \<le> unat (v_capacity v) * unat (v_item_size v)"
    using pos by (intro mult_le_mono2) simp
  with prod show "unat (v_capacity v) < 2 ^ 63" by linarith
qed

lemma vector_offset:
  assumes "vector_inv v" "i \<le> v_capacity v"
  shows "unat (i * v_item_size v) = unat i * unat (v_item_size v)"
    "unat (v_item_size v * i) = unat i * unat (v_item_size v)"
proof -
  have "unat i * unat (v_item_size v) \<le> unat (v_capacity v) * unat (v_item_size v)"
    using assms(2) by (intro mult_le_mono1) (simp add: word_le_nat_alt)
  also have "\<dots> < 2 ^ 64" using vector_inv_numbers(4) [OF assms(1)] by simp
  finally have "unat i * unat (v_item_size v) < 2 ^ 64" .
  then show "unat (i * v_item_size v) = unat i * unat (v_item_size v)" by (rule unat_mult_exact)
  then show "unat (v_item_size v * i) = unat i * unat (v_item_size v)" by (simp add: mult.commute)
qed

lemma length_vector_items [simp]: "length (vector_items v) = unat (v_size v)"
  by (simp add: vector_items_def)

lemma sized_vector_items:
  assumes "vector_inv v" shows "sized (unat (v_item_size v)) (vector_items v)"
proof -
  obtain d where d: "vector_bytes v = d" "length d = unat (v_capacity v) * unat (v_item_size v)"
    using assms by (rule vector_inv_data)
  have "length (chunk (unat (v_item_size v)) d j) = unat (v_item_size v)" if "j < unat (v_size v)" for j
    using that d vector_inv_numbers(3) [OF assms] by (intro length_chunk [of j "unat (v_capacity v)"]) simp_all
  then show ?thesis by (simp add: vector_items_def sized_def chunks_def d)
qed

section \<open>Reading\<close>

lemma vector_read_item:
  assumes "vector_inv v" "k < unat (v_size v)"
  shows "mem_read (v_data v) (of_nat k * v_item_size v) (v_item_size v) = Inr (vector_items v ! k)"
proof -
  obtain d where d: "v_data v = Some d" "vector_bytes v = d"
      "length d = unat (v_capacity v) * unat (v_item_size v)"
    using assms(1) by (rule vector_inv_data)
  have k: "k < unat (v_capacity v)" using assms(2) vector_inv_numbers(3) [OF assms(1)] by simp
  then have "k < 2 ^ 64" using vector_inv_numbers(5) [OF assms(1)] by simp
  then have uk: "unat (word_of_nat k :: size_t) = k" by (rule unat_of_nat_size)
  with k have "unat (of_nat k * v_item_size v) = k * unat (v_item_size v)"
    using vector_offset(1) [OF assms(1), of "of_nat k"] by (simp add: word_le_nat_alt)
  with k d assms(2) show ?thesis
    using block_end [of k "unat (v_capacity v)" "unat (v_item_size v)" "length d"]
    by (simp add: mem_read_def vector_items_def chunk_def)
qed

lemma asock_vector_index_of_spec:
  assumes "vector_inv v" "length item = unat (v_item_size v)"
  shows "asock_vector_index_of v item =
    Inr (case first_index (\<lambda>x. x = item) (vector_items v) of
           Some k \<Rightarrow> of_nat k | None \<Rightarrow> ASOCK_INVALID_VEC_INDEX)"
proof -
  have "find_from 0 (v_size v) (\<lambda>i.
         bindR (mem_read (v_data v) (i * v_item_size v) (v_item_size v)) (\<lambda>a.
         bindR (mem_read (Some item) 0 (v_item_size v)) (\<lambda>b. Inr (a = b))))
      = Inr (map_option of_nat (first_index (\<lambda>x. x = item) (vector_items v)))"
    using assms by (intro find_from_list) (simp_all add: vector_read_item mem_read_def [of "Some item"])
  then show ?thesis by (simp add: asock_vector_index_of_def split: option.splits)
qed

lemma asock_vector_at_spec:
  assumes "vector_inv v"
  shows "asock_vector_at v i =
    (if unat i < length (vector_items v) then Some (i * v_item_size v) else None)"
  by (auto simp: asock_vector_at_def word_le_nat_alt)

section \<open>Writing\<close>

lemma vector_append_spec:
  assumes inv: "vector_inv v" and room: "v_size v < v_capacity v"
    and item: "length item = unat (v_item_size v)"
  shows "\<exists>v'. vector_append v item = Inr (ASOCK_SUCCESS, v') \<and> vector_inv v'
    \<and> vector_items v' = vector_items v @ [item]
    \<and> v_capacity v' = v_capacity v \<and> v_item_size v' = v_item_size v"
proof -
  obtain d where d: "v_data v = Some d" "vector_bytes v = d"
      "length d = unat (v_capacity v) * unat (v_item_size v)"
    using inv by (rule vector_inv_data)
  let ?w = "unat (v_item_size v)" and ?n = "unat (v_size v)"
  let ?v' = "v\<lparr>v_data := Some (splice d (?n * ?w) item), v_size := v_size v + 1\<rparr>"
  have n: "?n < unat (v_capacity v)" using room by (simp add: word_less_nat_alt)
  then have fit: "?n * ?w + ?w \<le> length d" using d by (intro block_end [of ?n "unat (v_capacity v)"]) simp_all
  have off: "unat (v_size v * v_item_size v) = ?n * ?w"
    using inv room by (intro vector_offset) simp_all
  have "vector_append v item = Inr (ASOCK_SUCCESS, ?v')"
    using d fit off item by (simp add: vector_append_def mem_copy_def mem_read_def mem_write_def)
  moreover have inc: "unat (v_size v + 1) = Suc ?n" using room by (rule unat_Suc_less)
  have "vector_inv ?v'"
    using inv d fit item n inc by (simp add: vector_inv_def vector_bytes_def word_le_nat_alt)
  moreover have "vector_items ?v' = vector_items v @ [item]"
  proof (rule nth_equalityI)
    fix j assume "j < length (vector_items ?v')"
    then have "j < Suc ?n" using inc by simp
    then show "vector_items ?v' ! j = (vector_items v @ [item]) ! j"
      using d fit item inc chunk_splice [of item 1 ?w ?n d j]
      by (auto simp: vector_items_def vector_bytes_def nth_append chunk_def)
  qed (simp add: inc)
  ultimately show ?thesis by auto
qed

lemma vector_grow_spec:
  assumes inv: "vector_inv v" and mem: "alloc_ok mem"
  shows "vector_reallocate mem v (v_capacity v * 2) =
    (case mem 0 (v_capacity v * 2 * v_item_size v) of
       None \<Rightarrow> Inr (- 1, v\<lparr>v_data := None\<rparr>)
     | Some _ \<Rightarrow> Inr (0, v\<lparr>v_data := realloc_block mem 0 (v_data v) (v_capacity v * 2 * v_item_size v)\<rparr>))"
    and "mem 0 (v_capacity v * 2 * v_item_size v) \<noteq> None \<Longrightarrow>
      vector_inv (v\<lparr>v_data := realloc_block mem 0 (v_data v) (v_capacity v * 2 * v_item_size v),
                    v_capacity := v_capacity v * 2\<rparr>)
      \<and> vector_items (v\<lparr>v_data := realloc_block mem 0 (v_data v) (v_capacity v * 2 * v_item_size v),
                    v_capacity := v_capacity v * 2\<rparr>) = vector_items v
      \<and> v_capacity v < v_capacity v * 2"
proof -
  obtain d where d: "v_data v = Some d" "vector_bytes v = d"
      "length d = unat (v_capacity v) * unat (v_item_size v)"
    using inv by (rule vector_inv_data)
  note nums = vector_inv_numbers [OF inv]
  let ?w = "unat (v_item_size v)" and ?n = "v_capacity v * 2 * v_item_size v"
  have cap2: "unat (v_capacity v * 2) = 2 * unat (v_capacity v)"
    using nums(5) by (subst unat_mult_exact) simp_all
  have size2: "unat ?n = 2 * unat (v_capacity v) * ?w"
    using nums(4) by (subst unat_mult_exact) (simp_all add: cap2)
  have grows: "v_capacity v < v_capacity v * 2"
    using nums(2) by (simp add: word_less_nat_alt cap2)
  then show "vector_reallocate mem v (v_capacity v * 2) =
    (case mem 0 ?n of None \<Rightarrow> Inr (- 1, v\<lparr>v_data := None\<rparr>)
     | Some _ \<Rightarrow> Inr (0, v\<lparr>v_data := realloc_block mem 0 (v_data v) ?n\<rparr>))"
    by (simp add: vector_reallocate_def Let_def realloc_block_def split: option.splits)
  assume "mem 0 ?n \<noteq> None"
  then obtain d' where d': "realloc_block mem 0 (Some d) ?n = Some d'"
    by (auto simp: realloc_block_def Let_def)
  have "length d \<le> unat ?n" using d(3) size2 by simp
  note new = realloc_block_Some [OF mem d' this]
  let ?v' = "v\<lparr>v_data := realloc_block mem 0 (v_data v) ?n, v_capacity := v_capacity v * 2\<rparr>"
  have "vector_inv ?v'"
    using inv new nums cap2 size2 d d'
    by (auto simp: vector_inv_def vector_bytes_def word_le_nat_alt simp flip: unat_gt_0)
  moreover have "vector_items ?v' = vector_items v"
  proof (rule nth_equalityI)
    fix j assume "j < length (vector_items ?v')"
    then have "j < unat (v_size v)" by simp
    then have "j < unat (v_capacity v)" using nums(3) by simp
    then have "chunk ?w d' j = chunk ?w d j"
      using new(2) d(3) by (intro chunk_prefix [of "unat (v_capacity v)"]) simp_all
    then show "vector_items ?v' ! j = vector_items v ! j"
      using d d' \<open>j < unat (v_size v)\<close> by (simp add: vector_items_def vector_bytes_def)
  qed simp
  ultimately show "vector_inv ?v' \<and> vector_items ?v' = vector_items v \<and> v_capacity v < v_capacity v * 2"
    using grows by blast
qed

text \<open>\<open>push\<close> in one statement: append, growing first when full, or fail and lose the block.\<close>

lemma asock_vector_push_spec:
  assumes inv: "vector_inv v" and mem: "alloc_ok mem" and item: "length item = unat (v_item_size v)"
  shows "(v_size v = v_capacity v \<and> mem 0 (v_capacity v * 2 * v_item_size v) = None
          \<and> asock_vector_push mem v item = Inr (ASOCK_FAILURE, v\<lparr>v_data := None\<rparr>))
    \<or> (\<exists>v'. asock_vector_push mem v item = Inr (ASOCK_SUCCESS, v') \<and> vector_inv v'
          \<and> vector_items v' = vector_items v @ [item] \<and> v_item_size v' = v_item_size v
          \<and> v_capacity v' = (if v_size v = v_capacity v then v_capacity v * 2 else v_capacity v))"
proof (cases "v_size v = v_capacity v")
  case False
  then have "v_size v < v_capacity v" using inv by (simp add: vector_inv_def order_less_le)
  with vector_append_spec [OF inv this item] False show ?thesis
    by (auto simp: asock_vector_push_def)
next
  case full: True
  show ?thesis
  proof (cases "mem 0 (v_capacity v * 2 * v_item_size v) = None")
    case True
    with full show ?thesis by (simp add: asock_vector_push_def vector_grow_spec(1) [OF inv mem])
  next
    case False
    let ?v1 = "v\<lparr>v_data := realloc_block mem 0 (v_data v) (v_capacity v * 2 * v_item_size v),
                    v_capacity := v_capacity v * 2\<rparr>"
    have g: "vector_inv ?v1" "vector_items ?v1 = vector_items v" "v_capacity v < v_capacity v * 2"
      using vector_grow_spec(2) [OF inv mem False] by blast+
    have push: "asock_vector_push mem v item = vector_append ?v1 item"
      using full False by (auto simp: asock_vector_push_def vector_grow_spec(1) [OF inv mem])
    have "v_size ?v1 < v_capacity ?v1" "length item = unat (v_item_size ?v1)" using full g(3) item by simp_all
    from vector_append_spec [OF g(1) this] push g(2) full show ?thesis by fastforce
  qed
qed

lemma asock_vector_erase_spec:
  assumes inv: "vector_inv v" and i: "unat i < length (vector_items v)"
  shows "\<exists>v'. asock_vector_erase v i = Inr (ASOCK_SUCCESS, v') \<and> vector_inv v'
    \<and> vector_items v' = delete_at (unat i) (vector_items v)
    \<and> v_capacity v' = v_capacity v \<and> v_item_size v' = v_item_size v"
proof -
  obtain d where d: "v_data v = Some d" "vector_bytes v = d"
      "length d = unat (v_capacity v) * unat (v_item_size v)"
    using inv by (rule vector_inv_data)
  note nums = vector_inv_numbers [OF inv]
  let ?w = "unat (v_item_size v)" and ?n = "unat (v_size v)" and ?i = "unat i"
  have less: "?i < ?n" using i by simp
  then have iw: "i < v_size v" by (simp add: word_less_nat_alt)
  have inc: "unat (i + 1) = Suc ?i" using iw by (rule unat_Suc_less)
  have n1: "unat (v_size v - 1) = ?n - 1" using iw by (intro unat_pred) auto
  then have rest: "unat (v_size v - 1 - i) = ?n - 1 - ?i"
    using less by (subst unat_sub) (auto simp: word_le_nat_alt)
  have size_le: "?n * ?w \<le> length d" using d(3) nums(3) by simp
  have offs: "unat (v_item_size v * i) = ?i * ?w" "unat (v_item_size v * (i + 1)) = Suc ?i * ?w"
    "unat ((v_size v - 1 - i) * v_item_size v) = (?n - 1 - ?i) * ?w"
    using less nums(3) inc rest by (auto simp: vector_offset [OF inv] word_le_nat_alt)
  have split: "Suc ?i * ?w + (?n - 1 - ?i) * ?w = ?n * ?w"
    using less by (simp only: flip: add_mult_distrib) simp
  let ?bs = "take ((?n - 1 - ?i) * ?w) (drop (Suc ?i * ?w) d)"
  let ?v' = "v\<lparr>v_data := Some (splice d (?i * ?w) ?bs), v_size := v_size v - 1\<rparr>"
  have len: "length ?bs = (?n - 1 - ?i) * ?w" using split size_le by simp
  have fit: "?i * ?w + length ?bs \<le> length d" using split size_le len by simp
  have "asock_vector_erase v i = Inr (ASOCK_SUCCESS, ?v')"
    using iw d offs split size_le fit len
    by (auto simp: asock_vector_erase_def mem_copy_def mem_read_def mem_write_def)
  moreover have "vector_inv ?v'"
    using inv d fit n1 by (auto simp: vector_inv_def vector_bytes_def word_le_nat_alt)
  moreover have "vector_items ?v' = delete_at ?i (vector_items v)"
  proof (rule nth_equalityI)
    show "length (vector_items ?v') = length (delete_at ?i (vector_items v))" using i n1 by simp
    fix j assume "j < length (vector_items ?v')"
    then have j: "j < ?n - 1" using n1 by simp
    have "(?i + (?n - 1 - ?i)) * ?w \<le> length d"
      using fit len by (simp add: distrib_right)
    note c = chunk_splice [OF len this, of j]
    have "chunk ?w (splice d (?i * ?w) ?bs) j = chunk ?w d (if j < ?i then j else Suc j)"
    proof (cases "j < ?i")
      case False
      then have "chunk ?w ?bs (j - ?i) = chunk ?w d (Suc ?i + (j - ?i))"
        using j by (simp add: chunk_take chunk_drop del: mult_Suc)
      with False j c show ?thesis by simp
    qed (use c in simp)
    with j i show "vector_items ?v' ! j = delete_at ?i (vector_items v) ! j"
      by (simp add: nth_delete_at vector_items_def vector_bytes_def d n1)
  qed
  ultimately show ?thesis by auto
qed

lemma asock_vector_erase_fails:
  "length (vector_items v) \<le> unat i \<Longrightarrow> asock_vector_erase v i = Inr (ASOCK_FAILURE, v)"
  by (simp add: asock_vector_erase_def word_le_nat_alt)

lemma asock_vector_clear_spec:
  "vector_inv v \<Longrightarrow> vector_inv (asock_vector_clear v) \<and> vector_items (asock_vector_clear v) = []"
  by (simp add: asock_vector_clear_def vector_inv_def vector_items_def chunks_def vector_bytes_def)

lemma asock_vector_create_spec:
  assumes "alloc_ok mem" "item_size \<noteq> 0" "capacity \<noteq> 0"
    "unat item_size * unat capacity < 2 ^ 64" "asock_vector_create mem item_size capacity = Some v"
  shows "vector_inv v \<and> vector_items v = [] \<and> v_capacity v = capacity \<and> v_item_size v = item_size"
proof -
  have exact: "unat (item_size * capacity) = unat item_size * unat capacity"
    using assms(4) by (rule unat_mult_exact)
  have pos: "0 < unat item_size * unat capacity" using assms(2,3) by (simp add: unat_gt_0)
  then have "0 < unat (item_size * capacity)" by (simp only: exact)
  then have "(if item_size * capacity > 1 then item_size * capacity else 1) = item_size * capacity"
    by (cases "item_size * capacity = 1") (auto simp: word_less_nat_alt word_unat_eq_iff)
  with assms(5) obtain d where d: "mem 1 (item_size * capacity) = Some d"
      "v = \<lparr>v_size = 0, v_data = Some d, v_capacity = capacity, v_item_size = item_size\<rparr>"
    by (auto simp: asock_vector_create_def Let_def split: option.splits)
  with alloc_okD [OF assms(1) d(1)] assms(2,3) exact show ?thesis
    by (simp add: vector_inv_def vector_bytes_def vector_items_def chunks_def mult.commute)
qed

end
