(* ===== verification/Asock_Interfaces.thy ===== *)
theory Asock_Interfaces
  imports Asock_Prelude
begin

text \<open>
  The contracts between components. A client is proved against the locale; the component that
  provides the operations interprets it on its own definitions.
\<close>

section \<open>A first-in first-out queue\<close>

datatype 'a fifo_op = Enq "'a list" | Deq size_t

text \<open>A run of enqueues and dequeues; the result is everything dequeued, in order. An enqueue
  that fails ends the run.\<close>

fun fifo_run ::
    "('q \<Rightarrow> 'a list \<Rightarrow> 'q option) \<Rightarrow> ('q \<Rightarrow> size_t \<Rightarrow> ('a list \<times> 'q) option) \<Rightarrow>
     'q \<Rightarrow> 'a fifo_op list \<Rightarrow> ('a list \<times> 'q) option" where
  "fifo_run enq deq q [] = Some ([], q)"
| "fifo_run enq deq q (Enq xs # ops) =
     (case enq q xs of None \<Rightarrow> None | Some q' \<Rightarrow> fifo_run enq deq q' ops)"
| "fifo_run enq deq q (Deq n # ops) =
     (case deq q n of
        None \<Rightarrow> None
      | Some (ys, q') \<Rightarrow> map_option (\<lambda>(zs, r). (ys @ zs, r)) (fifo_run enq deq q' ops))"

fun enqueued :: "'a fifo_op list \<Rightarrow> 'a list" where
  "enqueued [] = []"
| "enqueued (Enq xs # ops) = xs @ enqueued ops"
| "enqueued (Deq n # ops) = enqueued ops"

locale fifo_queue =
  fixes inv :: "'q \<Rightarrow> bool" and items :: "'q \<Rightarrow> 'a list" and ok :: "'a list \<Rightarrow> bool"
    and enq :: "'q \<Rightarrow> 'a list \<Rightarrow> 'q option" and deq :: "'q \<Rightarrow> size_t \<Rightarrow> ('a list \<times> 'q) option"
  assumes enq_law: "inv q \<Longrightarrow> ok (items q @ xs) \<Longrightarrow> enq q xs = Some q' \<Longrightarrow>
      inv q' \<and> items q' = items q @ xs"
    and deq_law: "inv q \<Longrightarrow> \<exists>q'. deq q n = Some (take (unat n) (items q), q')
      \<and> inv q' \<and> items q' = drop (unat n) (items q)"
    and ok_prefix: "ok (xs @ ys) \<Longrightarrow> ok xs"
    and ok_suffix: "ok (xs @ ys) \<Longrightarrow> ok ys"
begin

lemma run_keeps_order:
  "inv q \<Longrightarrow> ok (items q @ enqueued ops) \<Longrightarrow> fifo_run enq deq q ops = Some (ys, q') \<Longrightarrow>
    inv q' \<and> ys @ items q' = items q @ enqueued ops"
proof (induction ops arbitrary: q ys)
  case Nil
  then show ?case by simp
next
  case (Cons op ops)
  show ?case
  proof (cases op)
    case (Enq xs)
    with Cons.prems(3) obtain q1 where q1: "enq q xs = Some q1" "fifo_run enq deq q1 ops = Some (ys, q')"
      by (auto split: option.splits)
    from Cons.prems(2) Enq have "ok (items q @ xs)"
      by (auto intro: ok_prefix [of "items q @ xs" "enqueued ops"])
    with enq_law [OF Cons.prems(1) _ q1(1)] have "inv q1" "items q1 = items q @ xs" by auto
    with Cons.IH [OF _ _ q1(2)] Cons.prems(2) Enq show ?thesis by simp
  next
    case (Deq n)
    obtain q1 where q1: "deq q n = Some (take (unat n) (items q), q1)"
        "inv q1" "items q1 = drop (unat n) (items q)"
      using deq_law [OF Cons.prems(1)] by blast
    from Cons.prems(3) Deq q1(1) obtain zs where zs: "fifo_run enq deq q1 ops = Some (zs, q')"
        "ys = take (unat n) (items q) @ zs" by auto
    have "ok (take (unat n) (items q) @ items q1 @ enqueued ops)" using Cons.prems(2) Deq q1(3) by (simp flip: append_assoc)
    then have "ok (items q1 @ enqueued ops)" by (rule ok_suffix)
    with Cons.IH [OF q1(2) _ zs(1)] have "zs @ items q' = items q1 @ enqueued ops" "inv q'" by auto
    with zs(2) q1(3) Deq show ?thesis by simp
  qed
qed

end

text \<open>A queue whose enqueue never fails below the limit.\<close>

locale total_fifo_queue = fifo_queue +
  assumes enq_total: "inv q \<Longrightarrow> ok (items q @ xs) \<Longrightarrow> enq q xs \<noteq> None"
begin

lemma run_returns:
  "inv q \<Longrightarrow> ok (items q @ enqueued ops) \<Longrightarrow> fifo_run enq deq q ops \<noteq> None"
proof (induction ops arbitrary: q)
  case Nil
  then show ?case by simp
next
  case (Cons op ops)
  show ?case
  proof (cases op)
    case (Enq xs)
    from Cons.prems(2) Enq have ok: "ok (items q @ xs)"
      by (auto intro: ok_prefix [of "items q @ xs" "enqueued ops"])
    then obtain q1 where q1: "enq q xs = Some q1" using enq_total Cons.prems(1) by blast
    with enq_law [OF Cons.prems(1) ok] have "inv q1" "items q1 = items q @ xs" by auto
    with Cons.IH [of q1] Cons.prems(2) Enq q1 show ?thesis by simp
  next
    case (Deq n)
    obtain q1 where q1: "deq q n = Some (take (unat n) (items q), q1)"
        "inv q1" "items q1 = drop (unat n) (items q)"
      using deq_law [OF Cons.prems(1)] by blast
    have "ok (take (unat n) (items q) @ items q1 @ enqueued ops)" using Cons.prems(2) Deq q1(3) by (simp flip: append_assoc)
    then have "ok (items q1 @ enqueued ops)" by (rule ok_suffix)
    with Cons.IH [OF q1(2)] q1(1) Deq show ?thesis by auto
  qed
qed

end

section \<open>An indexed store of items\<close>

text \<open>
  What the connection tables and their owners need of a container: its length, reading by
  index, appending, and deleting by index. An append may be refused; nothing is promised then.
\<close>

locale item_store =
  fixes inv :: "'v \<Rightarrow> bool" and items :: "'v \<Rightarrow> 'i list" and good :: "'i \<Rightarrow> bool"
    and count :: "'v \<Rightarrow> size_t" and get :: "'v \<Rightarrow> size_t \<Rightarrow> 'i res"
    and push :: "'v \<Rightarrow> 'i \<Rightarrow> (AsockReturnCode \<times> 'v) res"
    and erase :: "'v \<Rightarrow> size_t \<Rightarrow> (AsockReturnCode \<times> 'v) res"
  assumes count_law: "inv v \<Longrightarrow> unat (count v) = length (items v)"
    and get_law: "inv v \<Longrightarrow> k < length (items v) \<Longrightarrow> get v (of_nat k) = Inr (items v ! k)"
    and push_law: "inv v \<Longrightarrow> good x \<Longrightarrow>
      (\<exists>v'. push v x = Inr (ASOCK_FAILURE, v')) \<or>
      (\<exists>v'. push v x = Inr (ASOCK_SUCCESS, v') \<and> inv v' \<and> items v' = items v @ [x])"
    and erase_law: "inv v \<Longrightarrow> k < length (items v) \<Longrightarrow>
      \<exists>v'. erase v (of_nat k) = Inr (ASOCK_SUCCESS, v') \<and> inv v' \<and> items v' = delete_at k (items v)"
    and erase_outside: "inv v \<Longrightarrow> length (items v) \<le> unat i \<Longrightarrow> erase v i = Inr (ASOCK_FAILURE, v)"
begin

text \<open>The clients' search loops: first index whose item passes a test.\<close>

lemma search:
  assumes "inv v" and test: "\<And>x. x \<in> set (items v) \<Longrightarrow> test x = Inr (P x)"
  shows "find_from 0 (count v) (\<lambda>i. bindR (get v i) test)
    = Inr (map_option of_nat (first_index P (items v)))"
  using assms by (intro find_from_list) (simp_all add: get_law count_law)

lemma count_bound: "inv v \<Longrightarrow> length (items v) < 2 ^ 64"
  using count_law [of v] unsigned_less [of "count v", where 'a = nat] by simp

lemma index_exact: "inv v \<Longrightarrow> k < length (items v) \<Longrightarrow> unat (of_nat k :: size_t) = k"
  by (rule unat_of_nat_size) (use count_bound in fastforce)

lemma count_zero: "inv v \<Longrightarrow> count v = 0 \<longleftrightarrow> items v = []"
  by (metis count_law length_0_conv unsigned_0 unsigned_eq_0_iff)

end

end
