(* ===== verification/Asock_Connections.thy ===== *)
theory Asock_Connections
  imports Asock_Vector Asock_Interfaces
begin

text \<open>
  \<open>src/asock_connections.c\<close>: the vector of pointers to connections. A pointer is an 8-byte item;
  \<open>con_ptrs\<close> reads the table as a list of pointers, and the table is an item store of them.
\<close>

section \<open>The vector as an item store\<close>

definition vector_get :: "asock_vector \<Rightarrow> size_t \<Rightarrow> byte list res" where
  "vector_get v i =
     (case asock_vector_at v i of
        None \<Rightarrow> Inl Null_Deref
      | Some off \<Rightarrow> mem_read (v_data v) off (v_item_size v))"

lemma vector_get_nth:
  assumes "vector_inv v" "k < length (vector_items v)"
  shows "vector_get v (of_nat k) = Inr (vector_items v ! k)"
proof -
  have "k < 2 ^ 64" using assms(2) unsigned_less [of "v_size v", where 'a = nat] by simp
  then have "unat (of_nat k :: size_t) = k" by (rule unat_of_nat_size)
  with assms show ?thesis
    by (simp add: vector_get_def asock_vector_at_spec vector_read_item)
qed

definition sized_vector_inv :: "allocator \<Rightarrow> size_t \<Rightarrow> asock_vector \<Rightarrow> bool" where
  "sized_vector_inv mem w v \<longleftrightarrow> alloc_ok mem \<and> vector_inv v \<and> v_item_size v = w"

lemma vector_store:
  "item_store (sized_vector_inv mem w) vector_items (\<lambda>x. length x = unat w)
     asock_vector_size vector_get (asock_vector_push mem) asock_vector_erase"
proof (unfold_locales, goal_cases)
  case (1 v)
  then show ?case by (simp add: asock_vector_size_def)
next
  case (2 v k)
  then show ?case by (simp add: sized_vector_inv_def vector_get_nth)
next
  case (3 v x)
  then show ?case using asock_vector_push_spec [of v mem x] by (auto simp: sized_vector_inv_def)
next
  case (4 v k)
  then have "unat (of_nat k :: size_t) = k"
    using unsigned_less [of "v_size v", where 'a = nat] by (intro unat_of_nat_size) simp
  with 4 show ?case using asock_vector_erase_spec [of v "of_nat k"] by (auto simp: sized_vector_inv_def)
next
  case (5 v i)
  then show ?case by (intro asock_vector_erase_fails) simp
qed

interpretation vec: item_store "sized_vector_inv mem w" vector_items "\<lambda>x. length x = unat w"
    asock_vector_size vector_get "asock_vector_push mem" asock_vector_erase
  for mem w
  by (rule vector_store)

section \<open>Pointers as items\<close>

text \<open>The object representation of a pointer, least significant byte first.\<close>

definition ptr_bytes :: "ptr \<Rightarrow> byte list" where
  "ptr_bytes p = map (\<lambda>i. ucast (drop_bit (8 * i) p)) [0, 1, 2, 3, 4, 5, 6, 7]"

definition bytes_ptr :: "byte list \<Rightarrow> ptr" where
  "bytes_ptr bs = foldr (\<lambda>b p. or (ucast b) (push_bit 8 p)) bs 0"

lemma length_ptr_bytes [simp]: "length (ptr_bytes p) = 8"
  by (simp add: ptr_bytes_def)

lemma byte_and_rest:
  "or (ucast (ucast (drop_bit k p) :: byte)) (push_bit 8 (drop_bit (k + 8) p)) = (drop_bit k p :: ptr)"
proof (rule bit_word_eqI)
  fix n :: nat
  assume "n < LENGTH(64)"
  show "bit (or (ucast (ucast (drop_bit k p) :: byte)) (push_bit 8 (drop_bit (k + 8) p)) :: ptr) n
    = bit (drop_bit k p) n"
  proof (cases "n < 8")
    case True
    then show ?thesis by (simp add: bit_simps)
  next
    case False
    then have "k + 8 + (n - 8) = n + k" by simp
    with False \<open>n < LENGTH(64)\<close> show ?thesis by (simp add: bit_simps add.commute)
  qed
qed

lemma bytes_ptr_bytes [simp]: "bytes_ptr (ptr_bytes p) = p"
proof -
  have "drop_bit 64 p = 0" by (rule bit_word_eqI) (auto simp: bit_simps)
  then show ?thesis
    using byte_and_rest [of 56 p] byte_and_rest [of 48 p] byte_and_rest [of 40 p] byte_and_rest [of 32 p]
      byte_and_rest [of 24 p] byte_and_rest [of 16 p] byte_and_rest [of 8 p] byte_and_rest [of 0 p]
    by (simp add: bytes_ptr_def ptr_bytes_def)
qed

section \<open>Operations\<close>

definition CON_PTR_SIZE :: size_t where "CON_PTR_SIZE = 8"

definition asock_connections_create :: "allocator \<Rightarrow> size_t \<Rightarrow> asock_vector option" where
  "asock_connections_create mem capacity = asock_vector_create mem CON_PTR_SIZE capacity"

definition asock_connections_size :: "asock_vector \<Rightarrow> size_t" where
  "asock_connections_size connections = asock_vector_size connections"

definition asock_connections_push ::
    "allocator \<Rightarrow> asock_vector \<Rightarrow> ptr \<Rightarrow> (AsockReturnCode \<times> asock_vector) res" where
  "asock_connections_push mem connections asock = asock_vector_push mem connections (ptr_bytes asock)"

definition asock_connections_erase :: "asock_vector \<Rightarrow> size_t \<Rightarrow> (AsockReturnCode \<times> asock_vector) res" where
  "asock_connections_erase connections index = asock_vector_erase connections index"

text \<open>The cast and dereference of line 36: eight bytes at the address \<open>at\<close> returns, which is
  the null pointer when the index is out of range.\<close>

definition asock_connections_at :: "asock_vector \<Rightarrow> size_t \<Rightarrow> ptr res" where
  "asock_connections_at connections index =
     (case asock_vector_at connections index of
        None \<Rightarrow> Inl Null_Deref
      | Some off \<Rightarrow> bindR (mem_read (v_data connections) off CON_PTR_SIZE) (\<lambda>bs. Inr (bytes_ptr bs)))"

section \<open>The table as an item store of pointers\<close>

definition con_ptrs :: "asock_vector \<Rightarrow> ptr list" where
  "con_ptrs v = map bytes_ptr (vector_items v)"

definition con_inv :: "asock_vector \<Rightarrow> bool" where
  "con_inv v \<longleftrightarrow> vector_inv v \<and> v_item_size v = CON_PTR_SIZE"

lemma con_inv_sized: "alloc_ok mem \<Longrightarrow> con_inv v \<longleftrightarrow> sized_vector_inv mem CON_PTR_SIZE v"
  by (simp add: con_inv_def sized_vector_inv_def)

lemma length_con_ptrs [simp]: "length (con_ptrs v) = unat (v_size v)"
  by (simp add: con_ptrs_def)

lemma map_delete_at: "map f (delete_at k xs) = delete_at k (map f xs)"
  by (simp add: delete_at_def take_map drop_map)

lemma connections_store:
  assumes mem: "alloc_ok mem"
  shows "item_store con_inv con_ptrs (\<lambda>_. True) asock_connections_size asock_connections_at
    (asock_connections_push mem) asock_connections_erase"
proof (unfold_locales, goal_cases)
  case (1 v)
  then show ?case by (simp add: asock_connections_size_def asock_vector_size_def)
next
  case (2 v k)
  then have "vector_get v (of_nat k) = Inr (vector_items v ! k)"
    using vec.get_law [of mem CON_PTR_SIZE v k] by (simp add: con_inv_sized [OF mem])
  with 2 show ?case
    by (auto simp: asock_connections_at_def vector_get_def con_inv_def con_ptrs_def split: option.splits)
next
  case (3 v x)
  then show ?case
    using vec.push_law [of mem CON_PTR_SIZE v "ptr_bytes x"]
    by (auto simp: con_inv_sized [OF mem] asock_connections_push_def con_ptrs_def CON_PTR_SIZE_def)
next
  case (4 v k)
  then show ?case
    using vec.erase_law [of mem CON_PTR_SIZE v k]
    by (auto simp: con_inv_sized [OF mem] asock_connections_erase_def con_ptrs_def map_delete_at)
next
  case (5 v i)
  then show ?case
    by (simp add: asock_connections_erase_def asock_vector_erase_fails)
qed

text \<open>Reading does not depend on an allocator.\<close>

interpretation cons: item_store con_inv con_ptrs "\<lambda>_. True" asock_connections_size asock_connections_at
    "asock_connections_push null_alloc" asock_connections_erase
  by (rule connections_store) simp

lemma asock_connections_create_spec:
  assumes "alloc_ok mem" "capacity \<noteq> 0" "unat capacity < 2 ^ 61"
    "asock_connections_create mem capacity = Some v"
  shows "con_inv v \<and> con_ptrs v = []"
  using asock_vector_create_spec [of mem CON_PTR_SIZE capacity v] assms
  by (simp add: asock_connections_create_def con_inv_def con_ptrs_def CON_PTR_SIZE_def)

end
