(* ===== verification/Asock_Tsqueue.thy ===== *)
theory Asock_Tsqueue
  imports Asock_Memory Asock_Interfaces
begin

text \<open>
  \<open>src/asock_tsqueue.c\<close>: the growing ring buffer behind every connection's input and output.
  The state is the struct with its bytes and the state of its mutex; \<open>queue_items\<close> reads the
  ring as the list of queued items, oldest first. Each operation runs under the mutex from its
  first statement to its last, so it is one atomic step here.
\<close>

section \<open>State\<close>

record asock_tsqueue =
  q_data :: block
  q_size :: size_t
  q_capacity :: size_t
  q_item_size :: size_t
  q_tail_pos :: size_t
  q_head_pos :: size_t
  q_mutex :: bool

text \<open>\<open>q_mutex\<close> is true while the mutex is held. A thread that locks it again waits for ever.\<close>

definition queue_lock :: "asock_tsqueue \<Rightarrow> asock_tsqueue res" where
  "queue_lock q = (if q_mutex q then Inl Self_Deadlock else Inr (q\<lparr>q_mutex := True\<rparr>))"

definition queue_unlock :: "asock_tsqueue \<Rightarrow> asock_tsqueue" where
  "queue_unlock q = q\<lparr>q_mutex := False\<rparr>"

section \<open>Operations\<close>

text \<open>The loops of lines 61 and 184. A capacity that has been shifted to 0 never gets there.\<close>

partial_function (option) right_capacity_loop :: "size_t \<Rightarrow> size_t \<Rightarrow> size_t option" where
  "right_capacity_loop right_capacity capacity =
     (if right_capacity < capacity
      then right_capacity_loop (push_bit 1 right_capacity) capacity
      else Some right_capacity)"

partial_function (option) new_capacity_loop :: "size_t \<Rightarrow> size_t \<Rightarrow> size_t option" where
  "new_capacity_loop new_capacity needed =
     (if new_capacity < needed then new_capacity_loop (new_capacity * 2) needed
      else Some new_capacity)"

text \<open>The struct takes 88 bytes; \<open>mutex_ok\<close> is the outcome of \<open>pthread_mutex_init\<close>.\<close>

definition asock_tsqueue_create ::
    "allocator \<Rightarrow> bool \<Rightarrow> size_t \<Rightarrow> size_t \<Rightarrow> asock_tsqueue option res" where
  "asock_tsqueue_create mem mutex_ok item_size capacity =
     (case right_capacity_loop 1 capacity of
        None \<Rightarrow> Inl Diverges
      | Some right_capacity \<Rightarrow>
          if mem 0 88 = None then Inr None
          else if \<not> mutex_ok then Inr None
          else
            let init_size = (if item_size * right_capacity > 1 then item_size * right_capacity else 1)
            in case mem 1 init_size of
                 None \<Rightarrow> Inr None
               | Some d \<Rightarrow> Inr (Some \<lparr>q_data = Some d, q_size = 0, q_capacity = right_capacity,
                   q_item_size = item_size, q_tail_pos = 0, q_head_pos = 0, q_mutex = False\<rparr>))"

definition asock_tsqueue_size :: "asock_tsqueue \<Rightarrow> size_t" where
  "asock_tsqueue_size q = q_size q"

definition asock_tsqueue_capacity :: "asock_tsqueue \<Rightarrow> size_t" where
  "asock_tsqueue_capacity q = q_capacity q"

definition asock_tsqueue_head_size :: "asock_tsqueue \<Rightarrow> size_t" where
  "asock_tsqueue_head_size q =
     (if q_size q > q_capacity q - q_head_pos q then q_capacity q - q_head_pos q else q_size q)"

text \<open>An offset into the block, \<open>None\<close> for the null pointer.\<close>

definition asock_tsqueue_head :: "asock_tsqueue \<Rightarrow> size_t option" where
  "asock_tsqueue_head q =
     (if q_size q = 0 then None else Some (q_item_size q * q_head_pos q))"

definition asock_tsqueue_clear :: "asock_tsqueue \<Rightarrow> asock_tsqueue res" where
  "asock_tsqueue_clear q =
     bindR (queue_lock q) (\<lambda>q.
       Inr (queue_unlock (q\<lparr>q_size := 0, q_tail_pos := 0, q_head_pos := 0\<rparr>)))"

definition tsqueue_reallocate ::
    "allocator \<Rightarrow> asock_tsqueue \<Rightarrow> size_t \<Rightarrow> (AsockReturnCode \<times> asock_tsqueue) res" where
  "tsqueue_reallocate mem q new_capacity =
     bindR (assertR (new_capacity > q_capacity q)) (\<lambda>_.
       let new_size = new_capacity * q_item_size q;
           q' = q\<lparr>q_data := realloc_block mem 0 (q_data q) new_size\<rparr>
       in if q_data q' = None then Inr (ASOCK_ERR_NOMEM, q') else Inr (ASOCK_SUCCESS, q'))"

text \<open>Lines 192 to 199: the part of a wrapped queue that sits at the front moves behind the
  old end.\<close>

definition tsqueue_relocate :: "asock_tsqueue \<Rightarrow> asock_tsqueue res" where
  "tsqueue_relocate q =
     (if q_tail_pos q \<le> q_head_pos q \<and> q_size q \<noteq> 0
      then bindR (mem_copy (q_data q) (q_item_size q * q_capacity q)
                           (q_data q) 0 (q_tail_pos q * q_item_size q)) (\<lambda>d.
             Inr (q\<lparr>q_data := d, q_tail_pos := q_capacity q + q_tail_pos q\<rparr>))
      else Inr q)"

text \<open>Lines 183 to 201, the body of the growing branch.\<close>

definition tsqueue_grow ::
    "allocator \<Rightarrow> asock_tsqueue \<Rightarrow> size_t \<Rightarrow> (AsockReturnCode \<times> asock_tsqueue) res" where
  "tsqueue_grow mem q item_count =
     (case new_capacity_loop (q_capacity q * 2) (q_size q + item_count) of
        None \<Rightarrow> Inl Diverges
      | Some new_capacity \<Rightarrow>
          bindR (tsqueue_reallocate mem q new_capacity) (\<lambda>(r, q).
            if r \<noteq> ASOCK_SUCCESS then Inr (ASOCK_ERR_NOMEM, q)
            else bindR (tsqueue_relocate q) (\<lambda>q.
                   Inr (ASOCK_SUCCESS, q\<lparr>q_capacity := new_capacity\<rparr>))))"

text \<open>Lines 204 to 225: the copy, in one or two parts, and the new tail and size.\<close>

definition tsqueue_append :: "asock_tsqueue \<Rightarrow> block \<Rightarrow> size_t \<Rightarrow> asock_tsqueue res" where
  "tsqueue_append q src item_count =
     (let front_space = q_capacity q - q_tail_pos q in
      bindR
        (if item_count \<le> front_space
         then bindR (mem_copy (q_data q) (q_item_size q * q_tail_pos q) src 0
                              (q_item_size q * item_count)) (\<lambda>d.
                Inr (q\<lparr>q_data := d, q_tail_pos := q_tail_pos q + item_count\<rparr>))
         else let second_batch = item_count - front_space in
              bindR (mem_copy (q_data q) (q_item_size q * q_tail_pos q) src 0
                              (q_item_size q * front_space)) (\<lambda>d.
              bindR (mem_copy d 0 src (q_item_size q * front_space)
                              (q_item_size q * second_batch)) (\<lambda>d.
                Inr (q\<lparr>q_data := d, q_tail_pos := second_batch\<rparr>))))
        (\<lambda>q. let q = (if q_tail_pos q = q_capacity q then q\<lparr>q_tail_pos := 0\<rparr> else q)
             in Inr (q\<lparr>q_size := q_size q + item_count\<rparr>)))"

definition asock_tsqueue_enqueue ::
    "allocator \<Rightarrow> asock_tsqueue \<Rightarrow> block \<Rightarrow> size_t \<Rightarrow> (AsockReturnCode \<times> asock_tsqueue) res" where
  "asock_tsqueue_enqueue mem q src item_count =
     bindR (assertR (src \<noteq> None)) (\<lambda>_.
     bindR (queue_lock q) (\<lambda>q.
     bindR (if q_size q + item_count > q_capacity q then tsqueue_grow mem q item_count
            else Inr (ASOCK_SUCCESS, q)) (\<lambda>(r, q).
       if r \<noteq> ASOCK_SUCCESS then Inr (ASOCK_ERR_NOMEM, queue_unlock q)
       else bindR (tsqueue_append q src item_count) (\<lambda>q.
              Inr (ASOCK_SUCCESS, queue_unlock q)))))"

text \<open>
  Lines 244 to 267: \<open>copy_sz\<close> items go to the memory behind \<open>dst\<close>, \<open>None\<close> for a null
  pointer, and the head moves past them.
\<close>

definition tsqueue_take :: "asock_tsqueue \<Rightarrow> block \<Rightarrow> size_t \<Rightarrow> (block \<times> asock_tsqueue) res" where
  "tsqueue_take q dst copy_sz =
     bindR
       (if q_capacity q \<ge> q_head_pos q + copy_sz
        then bindR (if dst \<noteq> None
                    then mem_copy dst 0 (q_data q) (q_item_size q * q_head_pos q)
                           (q_item_size q * copy_sz)
                    else Inr dst) (\<lambda>dst.
               Inr (dst, q\<lparr>q_head_pos := q_head_pos q + copy_sz\<rparr>))
        else let first_batch = q_capacity q - q_head_pos q;
                 second_batch = copy_sz - first_batch in
             bindR (if dst \<noteq> None
                    then bindR (mem_copy dst 0 (q_data q) (q_item_size q * q_head_pos q)
                                  (q_item_size q * first_batch)) (\<lambda>dst.
                         mem_copy dst (q_item_size q * first_batch) (q_data q) 0
                           (q_item_size q * second_batch))
                    else Inr dst) (\<lambda>dst.
               Inr (dst, q\<lparr>q_head_pos := second_batch\<rparr>)))
       (\<lambda>(dst, q).
          Inr (dst, if q_head_pos q = q_capacity q then q\<lparr>q_head_pos := 0\<rparr> else q))"

text \<open>The result: the count, the destination's memory afterwards, and the queue.\<close>

definition asock_tsqueue_dequeue ::
    "asock_tsqueue \<Rightarrow> block \<Rightarrow> size_t \<Rightarrow> (size_t \<times> block \<times> asock_tsqueue) res" where
  "asock_tsqueue_dequeue q dst dst_capacity =
     bindR (queue_lock q) (\<lambda>q.
     let copy_sz = (if dst_capacity > q_size q then q_size q else dst_capacity) in
     bindR (tsqueue_take q dst copy_sz) (\<lambda>(dst, q).
       Inr (copy_sz, dst, queue_unlock (q\<lparr>q_size := q_size q - copy_sz\<rparr>))))"

text \<open>The calls of \<open>func\<close> in order: the offset of the item and its index.\<close>

definition asock_tsqueue_for_each :: "asock_tsqueue \<Rightarrow> (size_t \<times> size_t) list res" where
  "asock_tsqueue_for_each q =
     bindR (queue_lock q) (\<lambda>q.
       Inr (map (\<lambda>k. let i = of_nat k; pos = (q_head_pos q + i) mod q_capacity q
                     in (pos * q_item_size q, i)) [0..<unat (q_size q)]))"

section \<open>Capacity loops\<close>

text \<open>
  Both loops double until they reach what is needed. The contract says what one iteration does
  and that a returned value is large enough and a doubling of the start.
\<close>

locale doubling_loop =
  fixes loop :: "size_t \<Rightarrow> size_t \<Rightarrow> size_t option"
  assumes loop_unfold: "loop c n = (if c < n then loop (c * 2) n else Some c)"
    and loop_returns: "loop c n = Some r \<Longrightarrow> \<not> r < n \<and> (\<exists>j. r = c * 2 ^ j)"
begin

lemma loop_reaches:
  assumes "unat c = 2 ^ k" "k \<le> 63" "unat n \<le> 2 ^ 63"
  shows "\<exists>j r. loop c n = Some r \<and> k \<le> j \<and> j \<le> 63 \<and> unat r = 2 ^ j \<and> unat n \<le> 2 ^ j
    \<and> (\<forall>i. k \<le> i \<and> i < j \<longrightarrow> 2 ^ i < unat n)"
  using assms
proof (induction "63 - k" arbitrary: c k)
  case 0
  then have k: "k = 63" by simp
  with 0 have "\<not> c < n" by (simp add: word_less_nat_alt)
  then have "loop c n = Some c" by (simp add: loop_unfold [of c])
  with 0 k show ?case by (intro exI [of _ 63] exI [of _ c]) auto
next
  case (Suc d)
  show ?case
  proof (cases "c < n")
    case False
    then have "loop c n = Some c" by (simp add: loop_unfold [of c])
    with False Suc.prems show ?thesis
      by (intro exI [of _ k] exI [of _ c]) (auto simp: word_less_nat_alt)
  next
    case True
    have "k < 63" using Suc(2) by simp
    then have "(2::nat) ^ k * 2 < 2 ^ 64"
      using power_strict_increasing [of "Suc k" 64 "2::nat"] by simp
    then have "unat (c * 2) = 2 ^ Suc k"
      using Suc.prems(1) by (subst unat_mult_exact) simp_all
    moreover have "d = 63 - Suc k" "Suc k \<le> 63" using Suc(2) \<open>k < 63\<close> by simp_all
    ultimately obtain j r where jr: "loop (c * 2) n = Some r" "Suc k \<le> j" "j \<le> 63"
        "unat r = 2 ^ j" "unat n \<le> 2 ^ j" "\<forall>i. Suc k \<le> i \<and> i < j \<longrightarrow> 2 ^ i < unat n"
      using Suc(1) [of "Suc k" "c * 2"] Suc.prems(3) by blast
    have "loop c n = Some r" using True jr(1) by (simp add: loop_unfold [of c])
    moreover have "\<forall>i. k \<le> i \<and> i < j \<longrightarrow> 2 ^ i < unat n"
      using jr(6) True Suc.prems(1) by (metis Suc_leI le_neq_implies_less word_less_nat_alt)
    ultimately show ?thesis using jr by (intro exI [of _ j] exI [of _ r]) auto
  qed
qed

lemma loop_diverges:
  assumes "2 ^ 63 < unat n"
  shows "loop 1 n = None"
proof (rule ccontr)
  assume "loop 1 n \<noteq> None"
  then obtain r where "loop 1 n = Some r" by blast
  from loop_returns [OF this] obtain j where "\<not> r < n" "r = 2 ^ j" by auto
  with unat_power_of_two [of j] assms show False by (simp add: word_less_nat_alt)
qed

end


lemma right_capacity_loop_returns:
  "right_capacity_loop c n = Some r \<Longrightarrow> \<not> r < n \<and> (\<exists>j. r = c * 2 ^ j)"
proof (rule right_capacity_loop.raw_induct [where P = "\<lambda>c n r. \<not> r < n \<and> (\<exists>j. r = c * 2 ^ j)"])
  fix f :: "size_t \<Rightarrow> size_t \<Rightarrow> size_t option" and c n r :: size_t
  assume IH: "\<And>c n r. f c n = Some r \<Longrightarrow> \<not> r < n \<and> (\<exists>j. r = c * 2 ^ j)"
    and eq: "(if c < n then f (push_bit 1 c) n else Some c) = Some r"
  show "\<not> r < n \<and> (\<exists>j. r = c * 2 ^ j)"
  proof (cases "c < n")
    case True
    with eq have "f (push_bit 1 c) n = Some r" by simp
    from IH [OF this] obtain j where "\<not> r < n" "r = push_bit 1 c * 2 ^ j" by auto
    then show ?thesis by (intro conjI exI [of _ "Suc j"]) (simp_all add: push_bit_eq_mult)
  next
    case False
    with eq show ?thesis by (auto intro: exI [of _ 0])
  qed
qed

lemma new_capacity_loop_returns:
  "new_capacity_loop c n = Some r \<Longrightarrow> \<not> r < n \<and> (\<exists>j. r = c * 2 ^ j)"
proof (rule new_capacity_loop.raw_induct [where P = "\<lambda>c n r. \<not> r < n \<and> (\<exists>j. r = c * 2 ^ j)"])
  fix f :: "size_t \<Rightarrow> size_t \<Rightarrow> size_t option" and c n r :: size_t
  assume IH: "\<And>c n r. f c n = Some r \<Longrightarrow> \<not> r < n \<and> (\<exists>j. r = c * 2 ^ j)"
    and eq: "(if c < n then f (c * 2) n else Some c) = Some r"
  show "\<not> r < n \<and> (\<exists>j. r = c * 2 ^ j)"
  proof (cases "c < n")
    case True
    with eq have "f (c * 2) n = Some r" by simp
    from IH [OF this] obtain j where "\<not> r < n" "r = c * 2 * 2 ^ j" by auto
    then show ?thesis by (intro conjI exI [of _ "Suc j"]) simp_all
  next
    case False
    with eq show ?thesis by (auto intro: exI [of _ 0])
  qed
qed

interpretation right_loop: doubling_loop right_capacity_loop
  by unfold_locales
    (simp add: right_capacity_loop.simps [of c n for c n] push_bit_eq_mult,
     rule right_capacity_loop_returns)

interpretation new_loop: doubling_loop new_capacity_loop
  by unfold_locales
    (rule new_capacity_loop.simps, rule new_capacity_loop_returns)

section \<open>Invariant and contents\<close>

definition queue_bytes :: "asock_tsqueue \<Rightarrow> byte list" where
  "queue_bytes q = (case q_data q of None \<Rightarrow> [] | Some d \<Rightarrow> d)"

definition queue_items :: "asock_tsqueue \<Rightarrow> byte list list" where
  "queue_items q =
     map (\<lambda>k. chunk (unat (q_item_size q)) (queue_bytes q)
              ((unat (q_head_pos q) + k) mod unat (q_capacity q)))
         [0..<unat (q_size q)]"

text \<open>
  The capacity is a power of two, head and tail are positions of the ring, the tail is the size
  ahead of the head, and the block has exactly the capacity's bytes.
\<close>

definition queue_inv :: "asock_tsqueue \<Rightarrow> bool" where
  "queue_inv q \<longleftrightarrow>
     q_data q \<noteq> None \<and> q_item_size q \<noteq> 0
     \<and> (\<exists>k \<in> {..63}. unat (q_capacity q) = 2 ^ k)
     \<and> q_size q \<le> q_capacity q \<and> q_head_pos q < q_capacity q
     \<and> unat (q_tail_pos q) = (unat (q_head_pos q) + unat (q_size q)) mod unat (q_capacity q)
     \<and> length (queue_bytes q) = unat (q_capacity q) * unat (q_item_size q)
     \<and> length (queue_bytes q) \<le> PTRDIFF_MAX"

lemma queue_inv_data:
  assumes "queue_inv q"
  obtains d where "q_data q = Some d" "queue_bytes q = d"
    "length d = unat (q_capacity q) * unat (q_item_size q)" "length d < 2 ^ 63"
  using assms by (auto simp: queue_inv_def queue_bytes_def PTRDIFF_MAX_def)

lemma queue_inv_numbers:
  assumes "queue_inv q"
  shows "0 < unat (q_item_size q)" "unat (q_head_pos q) < unat (q_capacity q)"
    "unat (q_size q) \<le> unat (q_capacity q)"
    "unat (q_tail_pos q) = (unat (q_head_pos q) + unat (q_size q)) mod unat (q_capacity q)"
    "unat (q_capacity q) < 2 ^ 63"
    "unat (q_tail_pos q) < unat (q_capacity q)"
proof -
  show pos: "0 < unat (q_item_size q)" "unat (q_head_pos q) < unat (q_capacity q)"
    "unat (q_size q) \<le> unat (q_capacity q)"
    "unat (q_tail_pos q) = (unat (q_head_pos q) + unat (q_size q)) mod unat (q_capacity q)"
    using assms by (simp_all add: queue_inv_def unat_gt_0 word_less_nat_alt word_le_nat_alt)
  then show "unat (q_tail_pos q) < unat (q_capacity q)" by simp
  obtain d where "q_data q = Some d" "queue_bytes q = d"
      "length d = unat (q_capacity q) * unat (q_item_size q)" "length d < 2 ^ 63"
    using assms by (rule queue_inv_data)
  moreover have "unat (q_capacity q) * 1 \<le> unat (q_capacity q) * unat (q_item_size q)"
    using pos(1) by (intro mult_le_mono2) simp
  ultimately show "unat (q_capacity q) < 2 ^ 63" by linarith
qed

lemma length_queue_items [simp]: "length (queue_items q) = unat (q_size q)"
  by (simp add: queue_items_def)

lemma nth_queue_items [simp]:
  "k < unat (q_size q) \<Longrightarrow> queue_items q ! k =
     chunk (unat (q_item_size q)) (queue_bytes q) ((unat (q_head_pos q) + k) mod unat (q_capacity q))"
  by (simp add: queue_items_def)

lemma sized_queue_items:
  assumes "queue_inv q" shows "sized (unat (q_item_size q)) (queue_items q)"
proof -
  obtain d where d: "queue_bytes q = d" "length d = unat (q_capacity q) * unat (q_item_size q)"
    using assms by (rule queue_inv_data)
  have "0 < unat (q_capacity q)" using queue_inv_numbers(2) [OF assms] by simp
  then have "length (chunk (unat (q_item_size q)) d (k mod unat (q_capacity q))) = unat (q_item_size q)" for k
    using d by (intro length_chunk [of _ "unat (q_capacity q)"]) simp_all
  then show ?thesis by (simp add: queue_items_def sized_def d)
qed

text \<open>The mutex is no part of the contents.\<close>

lemma queue_mutex_simps [simp]:
  "queue_inv (q\<lparr>q_mutex := b\<rparr>) = queue_inv q"
  "queue_items (q\<lparr>q_mutex := b\<rparr>) = queue_items q"
  "queue_bytes (q\<lparr>q_mutex := b\<rparr>) = queue_bytes q"
  by (simp_all add: queue_inv_def queue_items_def queue_bytes_def)

section \<open>Growing\<close>

lemma tsqueue_relocate_spec:
  fixes q :: asock_tsqueue
  defines "w \<equiv> unat (q_item_size q)" and "c \<equiv> unat (q_capacity q)"
  assumes inv: "queue_inv q" and keep: "take (c * w) d' = queue_bytes q"
    and len: "length d' = c' * w" and c': "2 * c \<le> c'" "c' * w < 2 ^ 64"
  shows "\<exists>d2. tsqueue_relocate (q\<lparr>q_data := Some d'\<rparr>) =
      Inr (q\<lparr>q_data := Some d2,
             q_tail_pos := of_nat (unat (q_head_pos q) + unat (q_size q))\<rparr>)
    \<and> length d2 = c' * w
    \<and> (\<forall>k < unat (q_size q). chunk w d2 (unat (q_head_pos q) + k) = queue_items q ! k)"
proof -
  obtain d where d: "q_data q = Some d" "queue_bytes q = d" "length d = c * w" "length d < 2 ^ 63"
    using inv unfolding c_def w_def by (rule queue_inv_data)
  note nums = queue_inv_numbers [OF inv, folded w_def c_def]
  let ?h = "unat (q_head_pos q)" and ?s = "unat (q_size q)" and ?t = "unat (q_tail_pos q)"
  have old: "chunk w d' j = chunk w d j" if "j < c" for j
    using chunk_prefix [of c w d' d j] keep d that by simp
  show ?thesis
  proof (cases "?t \<le> ?h \<and> ?s \<noteq> 0")
    case True
    then have wrap: "c \<le> ?h + ?s"
      using nums by (metis add_le_same_cancel1 le_zero_eq linorder_not_le mod_less)
    then have t: "?t = ?h + ?s - c" using nums by (simp add: mod_if)
    let ?bs = "take (?t * w) d'"
    let ?d2 = "splice d' (c * w) ?bs"
    have two: "2 * c * w \<le> c' * w" using c'(1) by (intro mult_le_mono1) simp
    have tc: "?t * w \<le> c * w" using nums(6) by (intro mult_le_mono1) simp
    have fit: "c * w + ?t * w \<le> length d'" using two tc unfolding len by (simp only: mult_2 add_mult_distrib)
    have lenbs: "length ?bs = ?t * w" using fit by simp
    have ut: "unat (q_tail_pos q * q_item_size q) = ?t * w"
      using d tc unfolding w_def by (intro unat_mult_exact le_less_trans [OF tc [unfolded w_def]]) simp
    have uc: "unat (q_item_size q * q_capacity q) = c * w"
      using d unfolding w_def c_def by (subst unat_mult_exact) (simp_all add: mult.commute)
    have tail: "q_capacity q + q_tail_pos q = of_nat (?h + ?s)"
      using t wrap unfolding c_def
      by (metis le_add_diff_inverse of_nat_add word_unat_eq_iff unat_of_nat word_arith_nat_add)
    have "tsqueue_relocate (q\<lparr>q_data := Some d'\<rparr>) = Inr (q\<lparr>q_data := Some ?d2,
             q_tail_pos := of_nat (?h + ?s)\<rparr>)"
      using True ut uc fit tail
      by (auto simp: tsqueue_relocate_def mem_copy_def mem_read_def mem_write_def
          word_le_nat_alt unat_eq_zero simp del: of_nat_add)
    moreover have "chunk w ?d2 (?h + k) = queue_items q ! k" if k: "k < ?s" for k
    proof -
      have "(c + ?t) * w \<le> length d'" using fit by (simp add: add_mult_distrib)
      note sp = chunk_splice [OF lenbs this, of "?h + k"]
      show ?thesis
      proof (cases "?h + k < c")
        case True
        with sp old k show ?thesis by (simp add: w_def [symmetric] c_def [symmetric] d)
      next
        case False
        then have m: "(?h + k) mod c = ?h + k - c" "?h + k - c < ?t"
          and rng: "c \<le> ?h + k \<and> ?h + k < c + ?t"
          using nums(2,3) k t wrap by (simp_all add: mod_if)
        from sp have "chunk w ?d2 (?h + k) = chunk w ?bs (?h + k - c)" by (simp only: rng if_True simp_thms)
        also have "\<dots> = chunk w d' (?h + k - c)" using m(2) by (rule chunk_take)
        also have "\<dots> = chunk w d (?h + k - c)" using m(2) nums(6) by (intro old) simp
        finally show ?thesis using k m(1) by (simp add: w_def [symmetric] c_def [symmetric] d)
      qed
    qed
    ultimately show ?thesis using fit lenbs len by auto
  next
    case False
    have fits: "?h + ?s < c \<or> ?s = 0" using False nums by (auto simp: mod_if split: if_splits)
    then have lt: "?h + ?s < c" using nums by auto
    then have "?t = ?h + ?s" using nums by simp
    then have tail: "q_tail_pos q = of_nat (?h + ?s)" by (metis of_nat_unat_size)
    have "tsqueue_relocate (q\<lparr>q_data := Some d'\<rparr>) = Inr (q\<lparr>q_data := Some d',
             q_tail_pos := of_nat (?h + ?s)\<rparr>)"
      using False tail by (auto simp: tsqueue_relocate_def word_le_nat_alt unat_eq_zero simp del: of_nat_add)
    moreover have "chunk w d' (?h + k) = queue_items q ! k" if "k < ?s" for k
      using that lt old by (simp add: w_def [symmetric] c_def [symmetric] d)
    ultimately show ?thesis using len by blast
  qed
qed

text \<open>
  Growing keeps the contents and makes room, unless the allocator refuses. The bound is on
  bytes that exist: what is queued and what is to be added, together at most half the address
  space.
\<close>

lemma tsqueue_grow_spec:
  assumes inv: "queue_inv q" and mem: "alloc_ok mem"
    and more: "unat (q_capacity q) < unat (q_size q) + unat n"
    and bound: "(unat (q_size q) + unat n) * unat (q_item_size q) \<le> 2 ^ 63"
  shows "(\<exists>nc. mem 0 (nc * q_item_size q) = None
            \<and> unat (nc * q_item_size q) < 2 * (unat (q_size q) + unat n) * unat (q_item_size q)
            \<and> tsqueue_grow mem q n = Inr (ASOCK_ERR_NOMEM, q\<lparr>q_data := None\<rparr>))
    \<or> (\<exists>q'. tsqueue_grow mem q n = Inr (ASOCK_SUCCESS, q') \<and> queue_inv q'
            \<and> queue_items q' = queue_items q \<and> q_item_size q' = q_item_size q
            \<and> q_size q' = q_size q \<and> q_mutex q' = q_mutex q
            \<and> unat (q_size q) + unat n \<le> unat (q_capacity q')
            \<and> unat (q_capacity q') < 2 * (unat (q_size q) + unat n))"
proof -
  let ?w = "unat (q_item_size q)" and ?c = "unat (q_capacity q)" and ?s = "unat (q_size q)"
  let ?need = "unat (q_size q) + unat n"
  note nums = queue_inv_numbers [OF inv]
  obtain d where d: "q_data q = Some d" "queue_bytes q = d" "length d = ?c * ?w" "length d < 2 ^ 63"
    using inv by (rule queue_inv_data)
  obtain k where k: "k \<le> 63" "?c = 2 ^ k" using inv by (auto simp: queue_inv_def)
  have k62: "k < 63" using k nums(5) by (metis le_neq_implies_less less_irrefl)
  have need: "?need \<le> 2 ^ 63"
    using bound nums(1) by (metis One_nat_def Suc_leI le_trans mult.right_neutral mult_le_mono2)
  then have un: "unat (q_size q + n) = ?need" by (intro unat_add_exact) simp
  have c2: "unat (q_capacity q * 2) = 2 ^ Suc k"
    using nums(5) k by (subst unat_mult_exact) simp_all
  obtain j nc where nc: "new_capacity_loop (q_capacity q * 2) (q_size q + n) = Some nc"
      "Suc k \<le> j" "j \<le> 63" "unat nc = 2 ^ j" "?need \<le> 2 ^ j"
      "\<forall>i. Suc k \<le> i \<and> i < j \<longrightarrow> 2 ^ i < ?need"
    using new_loop.loop_reaches [OF c2, of "q_size q + n"] k62 need un by auto
  have half: "(2::nat) ^ (j - 1) < ?need"
  proof (cases "j = Suc k")
    case True
    with more k show ?thesis by simp
  next
    case False
    with nc(2,6) show ?thesis by (auto intro: Suc_le_lessD)
  qed
  have jj: "(2::nat) ^ j = 2 * 2 ^ (j - 1)" using nc(2) by (cases j) simp_all
  have "2 ^ (j - 1) * ?w < ?need * ?w" using half nums(1) by (rule mult_less_mono1)
  then have "2 ^ (j - 1) * ?w < 2 ^ 63" using bound by (rule less_le_trans)
  from twice_below [OF this] have small: "2 ^ j * ?w < 2 ^ 64"
    by (simp only: jj mult.assoc)
  have cc: "2 * ?c \<le> 2 ^ j" using nc(2) k by (metis power_Suc power_increasing one_le_numeral)
  have size: "unat (nc * q_item_size q) = 2 ^ j * ?w"
    using small nc(4) by (subst unat_mult_exact) simp_all
  have grows: "nc > q_capacity q" using cc nums(2) nc(4) by (simp add: word_less_nat_alt)
  show ?thesis
  proof (cases "mem 0 (nc * q_item_size q)")
    case None
    then have "tsqueue_grow mem q n = Inr (ASOCK_ERR_NOMEM, q\<lparr>q_data := None\<rparr>)"
      using nc(1) grows
      by (simp add: tsqueue_grow_def tsqueue_reallocate_def Let_def realloc_block_def return_code_defs)
    moreover have "2 ^ j * ?w < 2 * ?need * ?w" using half jj nums(1) by simp
    ultimately show ?thesis using None size by metis
  next
    case (Some fresh)
    then obtain d' where d': "realloc_block mem 0 (Some d) (nc * q_item_size q) = Some d'"
      by (auto simp: realloc_block_def Let_def)
    have le: "length d \<le> unat (nc * q_item_size q)"
      using cc d size by (metis add_leD1 mult_2 mult_le_mono1)
    note new = realloc_block_Some [OF mem d' le]
    have keep: "take (?c * ?w) d' = queue_bytes q" using new(2) d by simp
    have len: "length d' = 2 ^ j * ?w" using new(1) size by simp
    obtain d2 where d2: "tsqueue_relocate (q\<lparr>q_data := Some d'\<rparr>) =
        Inr (q\<lparr>q_data := Some d2, q_tail_pos := of_nat (unat (q_head_pos q) + ?s)\<rparr>)"
      "length d2 = 2 ^ j * ?w"
      "\<forall>k < ?s. chunk ?w d2 (unat (q_head_pos q) + k) = queue_items q ! k"
      using tsqueue_relocate_spec [OF inv keep len cc small] by blast
    let ?q' = "q\<lparr>q_data := Some d2, q_tail_pos := of_nat (unat (q_head_pos q) + ?s), q_capacity := nc\<rparr>"
    have run: "tsqueue_grow mem q n = Inr (ASOCK_SUCCESS, ?q')"
      using nc(1) grows d d' d2
      by (simp add: tsqueue_grow_def tsqueue_reallocate_def Let_def)
    have hs: "unat (q_head_pos q) + ?s < 2 ^ j" using nums(2,3) cc by linarith
    have "unat (of_nat (unat (q_head_pos q) + ?s) :: size_t) = unat (q_head_pos q) + ?s"
      using nums(2,3,5) by (intro unat_of_nat_size) simp
    then have "queue_inv ?q'"
      using inv nc nums hs d2 new(3) size grows cc
      by (auto simp: queue_inv_def queue_bytes_def word_le_nat_alt word_less_nat_alt simp del: of_nat_add)
    moreover have "queue_items ?q' = queue_items q"
    proof (rule nth_equalityI)
      fix i assume "i < length (queue_items ?q')"
      then have i: "i < ?s" by simp
      then have "queue_items ?q' ! i = chunk ?w d2 (unat (q_head_pos q) + i)"
        using hs nc(4) by (simp add: queue_bytes_def del: of_nat_add)
      with d2(3) i show "queue_items ?q' ! i = queue_items q ! i" by (simp del: nth_queue_items)
    qed simp
    ultimately show ?thesis using run nc(4,5) half jj by auto
  qed
qed

section \<open>Appending\<close>

lemma ring_append_items:
  assumes inv: "queue_inv q" and room: "unat (q_size q) + length xs \<le> unat (q_capacity q)"
    and new: "\<And>i. i < length xs \<Longrightarrow>
      chunk (unat (q_item_size q)) d' ((unat (q_tail_pos q) + i) mod unat (q_capacity q)) = xs ! i"
    and old: "\<And>j. j < unat (q_capacity q) \<Longrightarrow>
      (\<And>i. i < length xs \<Longrightarrow> j \<noteq> (unat (q_tail_pos q) + i) mod unat (q_capacity q)) \<Longrightarrow>
      chunk (unat (q_item_size q)) d' j = chunk (unat (q_item_size q)) (queue_bytes q) j"
    and k: "k < unat (q_size q) + length xs"
  shows "chunk (unat (q_item_size q)) d' ((unat (q_head_pos q) + k) mod unat (q_capacity q))
    = (queue_items q @ xs) ! k"
proof -
  let ?c = "unat (q_capacity q)" and ?s = "unat (q_size q)" and ?h = "unat (q_head_pos q)"
  note nums = queue_inv_numbers [OF inv]
  have pos: "(unat (q_tail_pos q) + i) mod ?c = (?h + ?s + i) mod ?c" for i
    using nums(4) by (simp add: mod_add_left_eq)
  show ?thesis
  proof (cases "k < ?s")
    case True
    have "(?h + k) mod ?c \<noteq> (unat (q_tail_pos q) + i) mod ?c" if "i < length xs" for i
      using mod_ring_neq [of "?h + k" "?h + ?s + i" ?c] True that room pos by simp
    then have "chunk (unat (q_item_size q)) d' ((?h + k) mod ?c)
        = chunk (unat (q_item_size q)) (queue_bytes q) ((?h + k) mod ?c)"
      using nums(2) by (intro old) simp_all
    with True show ?thesis by (simp add: nth_append)
  next
    case False
    then have "(?h + k) mod ?c = (unat (q_tail_pos q) + (k - ?s)) mod ?c"
      using pos [of "k - ?s"] by simp
    with False k new [of "k - ?s"] show ?thesis by (simp add: nth_append)
  qed
qed

lemma tsqueue_append_data:
  assumes inv: "queue_inv q" and d: "q_data q = Some d"
    and n: "unat n = length xs" and xs: "sized (unat (q_item_size q)) xs"
    and room: "unat (q_size q) + length xs \<le> unat (q_capacity q)"
  shows "\<exists>d' t'. tsqueue_append q (Some (concat xs)) n =
      Inr (q\<lparr>q_data := Some d', q_tail_pos := t', q_size := q_size q + n\<rparr>)
    \<and> length d' = length d
    \<and> unat t' = (unat (q_tail_pos q) + length xs) mod unat (q_capacity q)
    \<and> (\<forall>i < length xs. chunk (unat (q_item_size q)) d'
          ((unat (q_tail_pos q) + i) mod unat (q_capacity q)) = xs ! i)
    \<and> (\<forall>j < unat (q_capacity q).
          (\<forall>i < length xs. j \<noteq> (unat (q_tail_pos q) + i) mod unat (q_capacity q)) \<longrightarrow>
          chunk (unat (q_item_size q)) d' j = chunk (unat (q_item_size q)) d j)"
proof -
  let ?w = "unat (q_item_size q)" and ?c = "unat (q_capacity q)" and ?t = "unat (q_tail_pos q)"
  let ?N = "length xs"
  note nums = queue_inv_numbers [OF inv]
  have ld: "length d = ?c * ?w" "?c * ?w < 2 ^ 63"
    using queue_inv_data [OF inv] d by (metis option.inject)+
  have off: "unat (q_item_size q * x) = unat x * ?w" if "unat x \<le> ?c" for x
  proof -
    have "unat x * ?w \<le> ?c * ?w" using that by (rule mult_le_mono1)
    then have "unat x * ?w < 2 ^ 64" by (rule le_less_trans) (use ld(2) in simp)
    then show ?thesis by (simp add: unat_mult_exact mult.commute)
  qed
  have front: "unat (q_capacity q - q_tail_pos q) = ?c - ?t"
    using nums(6) by (intro unat_sub_exact) (simp add: word_le_nat_alt)
  show ?thesis
  proof (cases "?N \<le> ?c - ?t")
    case True
    let ?d' = "splice d (?t * ?w) (concat xs)"
    let ?t' = "if q_tail_pos q + n = q_capacity q then 0 else q_tail_pos q + n"
    have tn: "unat (q_tail_pos q + n) = ?t + ?N"
      using True nums(5,6) n by (subst unat_add_exact) simp_all
    have "(?t + ?N) * ?w \<le> length d" unfolding ld using True nums(6) by (intro mult_le_mono1) simp
    note sp = chunk_splice [OF length_concat_sized [OF xs] this]
    have fit: "?t * ?w + ?N * ?w \<le> length d"
      using \<open>(?t + ?N) * ?w \<le> length d\<close> by (simp only: add_mult_distrib)
    have run: "tsqueue_append q (Some (concat xs)) n =
      Inr (q\<lparr>q_data := Some ?d', q_tail_pos := ?t', q_size := q_size q + n\<rparr>)"
      using True front n d xs fit room nums(6)
      by (simp add: tsqueue_append_def word_le_nat_alt mem_copy_def mem_read_def mem_write_def off Let_def)
    have t': "unat ?t' = (?t + ?N) mod ?c"
      using tn True nums(6) by (auto simp: word_unat_eq_iff)
    have at: "(?t + i) mod ?c = ?t + i" if "i < ?N" for i using that True by simp
    have "chunk ?w ?d' ((?t + i) mod ?c) = xs ! i" if "i < ?N" for i
      using that sp [of "?t + i"] xs by (simp add: at chunk_concat)
    moreover have "chunk ?w ?d' j = chunk ?w d j"
      if "j < ?c" "\<forall>i < ?N. j \<noteq> (?t + i) mod ?c" for j
    proof -
      have "\<not> (?t \<le> j \<and> j < ?t + ?N)"
      proof
        assume "?t \<le> j \<and> j < ?t + ?N"
        then have "j - ?t < ?N" "?t + (j - ?t) = j" by arith+
        with that(2) at [of "j - ?t"] show False by metis
      qed
      with sp [of j] show ?thesis by (simp only: if_False)
    qed
    ultimately show ?thesis using run t' fit xs by (intro exI [of _ ?d'] exI [of _ ?t']) auto
  next
    case False
    let ?F = "?c - ?t" and ?M = "?N - (?c - ?t)"
    let ?d1 = "splice d (?t * ?w) (concat (take ?F xs))"
    let ?d' = "splice ?d1 0 (concat (drop ?F xs))"
    have M: "?M < ?c" "?M \<le> ?t" "?t + ?F = ?c" using False room nums(6) by simp_all
    have second: "unat (n - (q_capacity q - q_tail_pos q)) = ?M"
      using False n front by (subst unat_sub_exact) (simp_all add: word_le_nat_alt)
    have l1: "length (concat (take ?F xs)) = ?F * ?w" "length (concat (drop ?F xs)) = ?M * ?w"
      using False length_concat_sized [OF sized_take [OF xs]] length_concat_sized [OF sized_drop [OF xs]]
      by simp_all
    have fit1: "(?t + ?F) * ?w \<le> length d" unfolding ld M(3) ..
    then have fit1': "?t * ?w + ?F * ?w \<le> length d" by (simp only: add_mult_distrib)
    then have ld1: "length ?d1 = length d" using l1 by simp
    have Mw: "?M * ?w \<le> ?c * ?w" using M(1) by (intro mult_le_mono1) simp
    then have fit2: "(0 + ?M) * ?w \<le> length ?d1" using ld1 ld by simp
    note sp1 = chunk_splice [OF l1(1) fit1] and sp2 = chunk_splice [OF l1(2) fit2, simplified]
    have read1: "mem_read (Some (concat xs)) 0 (q_item_size q * (q_capacity q - q_tail_pos q))
        = Inr (concat (take ?F xs))"
      using False xs nums(6) by (simp add: mem_read_def off front take_concat_sized)
    have sum: "?F * ?w + ?M * ?w = ?N * ?w" using False by (simp flip: add_mult_distrib)
    have read2: "mem_read (Some (concat xs)) (q_item_size q * (q_capacity q - q_tail_pos q))
        (q_item_size q * (n - (q_capacity q - q_tail_pos q))) = Inr (concat (drop ?F xs))"
      using xs M sum l1(2) by (simp add: mem_read_def off front second drop_concat_sized)
    let ?t' = "n - (q_capacity q - q_tail_pos q)"
    have neq: "?t' \<noteq> q_capacity q" using second M(1) by (metis less_irrefl)
    have run: "tsqueue_append q (Some (concat xs)) n =
      Inr (q\<lparr>q_data := Some ?d', q_tail_pos := ?t', q_size := q_size q + n\<rparr>)"
      using False front n d fit1' fit2 l1 neq nums(6) ld1
      by (simp add: tsqueue_append_def word_le_nat_alt mem_copy_def read1 read2 mem_write_def off Let_def)
    have t': "unat ?t' = (?t + ?N) mod ?c"
    proof -
      have "?c \<le> ?t + ?N" "?t + ?N - ?c < ?c" "?M = ?t + ?N - ?c"
        using False M(1) nums(6) by linarith+
      then show ?thesis using second by (metis le_mod_geq mod_less)
    qed
    have "chunk ?w ?d' ((?t + i) mod ?c) = xs ! i" if i: "i < ?N" for i
    proof (cases "i < ?F")
      case True
      then have "(?t + i) mod ?c = ?t + i" "\<not> ?t + i < ?M" "?t + i < ?c" using M by simp_all
      moreover have "chunk ?w (concat (take ?F xs)) i = xs ! i"
        using True i by (simp add: chunk_concat [OF sized_take [OF xs]])
      ultimately show ?thesis using sp1 [of "?t + i"] sp2 [of "?t + i"] by (simp add: M(3))
    next
      case False
      then have "?c \<le> ?t + i" "?t + i - ?c = i - ?F" "i - ?F < ?M" using i M(3) by linarith+
      then have "(?t + i) mod ?c = i - ?F" "i - ?F < ?M" using M(1) by (simp_all add: le_mod_geq)
      moreover have "chunk ?w (concat (drop ?F xs)) (i - ?F) = xs ! i"
        using False i by (simp add: chunk_concat [OF sized_drop [OF xs]])
      ultimately show ?thesis using sp2 [of "i - ?F"] by simp
    qed
    moreover have "chunk ?w ?d' j = chunk ?w d j"
      if "j < ?c" "\<forall>i < ?N. j \<noteq> (?t + i) mod ?c" for j
    proof -
      have "\<not> ?t \<le> j"
      proof
        assume "?t \<le> j"
        then have "j = (?t + (j - ?t)) mod ?c" "j - ?t < ?N" using that(1) False by simp_all
        with that(2) show False by blast
      qed
      moreover have "\<not> j < ?M"
      proof
        assume "j < ?M"
        then have "?t + (j + ?F) = j + ?c" "j + ?F < ?N" using M(3) by linarith+
        then have "j = (?t + (j + ?F)) mod ?c" "j + ?F < ?N" using that(1) by simp_all
        with that(2) show False by blast
      qed
      ultimately show ?thesis using sp1 [of j] sp2 [of j] by simp
    qed
    ultimately show ?thesis using run t' fit2 l1 ld1 by (intro exI [of _ ?d'] exI [of _ ?t']) auto
  qed
qed

lemma tsqueue_append_spec:
  assumes inv: "queue_inv q" and n: "unat n = length xs" and xs: "sized (unat (q_item_size q)) xs"
    and room: "unat (q_size q) + length xs \<le> unat (q_capacity q)"
  shows "\<exists>q'. tsqueue_append q (Some (concat xs)) n = Inr q' \<and> queue_inv q'
    \<and> queue_items q' = queue_items q @ xs \<and> q_item_size q' = q_item_size q
    \<and> q_capacity q' = q_capacity q \<and> q_mutex q' = q_mutex q"
proof -
  obtain d where d: "q_data q = Some d" "queue_bytes q = d"
      "length d = unat (q_capacity q) * unat (q_item_size q)" "length d < 2 ^ 63"
    using inv by (rule queue_inv_data)
  note nums = queue_inv_numbers [OF inv]
  obtain d' t' where r: "tsqueue_append q (Some (concat xs)) n =
      Inr (q\<lparr>q_data := Some d', q_tail_pos := t', q_size := q_size q + n\<rparr>)"
    and len: "length d' = length d"
    and t': "unat t' = (unat (q_tail_pos q) + length xs) mod unat (q_capacity q)"
    and new: "\<And>i. i < length xs \<Longrightarrow> chunk (unat (q_item_size q)) d'
          ((unat (q_tail_pos q) + i) mod unat (q_capacity q)) = xs ! i"
    and old: "\<And>j. j < unat (q_capacity q) \<Longrightarrow>
          (\<And>i. i < length xs \<Longrightarrow> j \<noteq> (unat (q_tail_pos q) + i) mod unat (q_capacity q)) \<Longrightarrow>
          chunk (unat (q_item_size q)) d' j = chunk (unat (q_item_size q)) d j"
    using tsqueue_append_data [OF inv d(1) n xs room] by blast
  let ?q' = "q\<lparr>q_data := Some d', q_tail_pos := t', q_size := q_size q + n\<rparr>"
  have size: "unat (q_size q + n) = unat (q_size q) + length xs"
    using n room nums(5) by (subst unat_add_exact) simp_all
  have "queue_inv ?q'"
    using inv len d size t' room nums(4)
    by (auto simp: queue_inv_def queue_bytes_def word_le_nat_alt mod_add_left_eq add.assoc)
  moreover have "queue_items ?q' = queue_items q @ xs"
  proof (rule nth_equalityI)
    fix k assume "k < length (queue_items ?q')"
    then have k: "k < unat (q_size q) + length xs" using size by simp
    from ring_append_items [OF inv room new _ k] old d size k
    show "queue_items ?q' ! k = (queue_items q @ xs) ! k"
      by (simp add: queue_bytes_def)
  qed (simp add: size)
  ultimately show ?thesis using r by auto
qed

lemma queue_lock_unlock_simps [simp]:
  "\<not> q_mutex q \<Longrightarrow> queue_lock q = Inr (q\<lparr>q_mutex := True\<rparr>)"
  "q_mutex q \<Longrightarrow> queue_lock q = Inl Self_Deadlock"
  by (simp_all add: queue_lock_def)

text \<open>\<open>enqueue\<close> in one statement: it appends the items, or leaves an unusable queue behind.\<close>

lemma asock_tsqueue_enqueue_spec:
  assumes inv: "queue_inv q" and free: "\<not> q_mutex q" and mem: "alloc_ok mem"
    and n: "unat n = length xs" and xs: "sized (unat (q_item_size q)) xs"
    and bound: "(unat (q_size q) + length xs) * unat (q_item_size q) \<le> 2 ^ 63"
  shows "(unat (q_capacity q) < unat (q_size q) + length xs
          \<and> (\<exists>nc. mem 0 (nc * q_item_size q) = None
               \<and> unat (nc * q_item_size q) < 2 * (unat (q_size q) + length xs) * unat (q_item_size q))
          \<and> asock_tsqueue_enqueue mem q (Some (concat xs)) n = Inr (ASOCK_ERR_NOMEM, q\<lparr>q_data := None\<rparr>))
    \<or> (\<exists>q'. asock_tsqueue_enqueue mem q (Some (concat xs)) n = Inr (ASOCK_SUCCESS, q')
          \<and> queue_inv q' \<and> \<not> q_mutex q' \<and> queue_items q' = queue_items q @ xs
          \<and> q_item_size q' = q_item_size q
          \<and> (unat (q_size q) + length xs \<le> unat (q_capacity q) \<longrightarrow> q_capacity q' = q_capacity q)
          \<and> (unat (q_capacity q) < unat (q_size q) + length xs \<longrightarrow>
               unat (q_capacity q') < 2 * (unat (q_size q) + length xs)))"
proof -
  let ?need = "unat (q_size q) + length xs"
  let ?ql = "q\<lparr>q_mutex := True\<rparr>"
  have invl: "queue_inv ?ql" using inv by simp
  have w: "0 < unat (q_item_size q)" using queue_inv_numbers(1) [OF inv] .
  then have "?need \<le> 2 ^ 63"
    using bound by (metis One_nat_def Suc_leI le_trans mult.right_neutral mult_le_mono2)
  then have un: "unat (q_size q + n) = ?need" using n by (subst unat_add_exact) simp_all
  have append: "\<exists>q'. asock_tsqueue_enqueue mem q (Some (concat xs)) n = Inr (ASOCK_SUCCESS, q')
          \<and> queue_inv q' \<and> \<not> q_mutex q' \<and> queue_items q' = queue_items q @ xs
          \<and> q_item_size q' = q_item_size q \<and> q_capacity q' = q_capacity q1"
    if q1: "queue_inv q1" "queue_items q1 = queue_items q" "q_item_size q1 = q_item_size q"
      and room: "unat (q_size q1) + length xs \<le> unat (q_capacity q1)"
      and run: "asock_tsqueue_enqueue mem q (Some (concat xs)) n =
        bindR (tsqueue_append q1 (Some (concat xs)) n) (\<lambda>q. Inr (ASOCK_SUCCESS, queue_unlock q))" for q1
    using tsqueue_append_spec [OF q1(1) n _ room] q1 xs run
    by (fastforce simp: queue_unlock_def)
  show ?thesis
  proof (cases "?need \<le> unat (q_capacity q)")
    case True
    then have "asock_tsqueue_enqueue mem q (Some (concat xs)) n =
        bindR (tsqueue_append ?ql (Some (concat xs)) n) (\<lambda>q. Inr (ASOCK_SUCCESS, queue_unlock q))"
      using free un by (simp add: asock_tsqueue_enqueue_def word_less_nat_alt return_code_defs)
    from append [OF invl _ _ _ this] True show ?thesis by auto
  next
    case False
    then have enq: "asock_tsqueue_enqueue mem q (Some (concat xs)) n =
        bindR (tsqueue_grow mem ?ql n) (\<lambda>(r, q).
          if r \<noteq> ASOCK_SUCCESS then Inr (ASOCK_ERR_NOMEM, queue_unlock q)
          else bindR (tsqueue_append q (Some (concat xs)) n) (\<lambda>q.
              Inr (ASOCK_SUCCESS, queue_unlock q)))"
      using free un by (simp add: asock_tsqueue_enqueue_def word_less_nat_alt)
    have more: "unat (q_capacity ?ql) < unat (q_size ?ql) + unat n"
      and bnd: "(unat (q_size ?ql) + unat n) * unat (q_item_size ?ql) \<le> 2 ^ 63"
      using False n bound by simp_all
    from tsqueue_grow_spec [OF invl mem more bnd]
    consider (nomem) nc where "mem 0 (nc * q_item_size q) = None"
        "unat (nc * q_item_size q) < 2 * ?need * unat (q_item_size q)"
        "tsqueue_grow mem ?ql n = Inr (ASOCK_ERR_NOMEM, ?ql\<lparr>q_data := None\<rparr>)"
      | (grown) q1 where "tsqueue_grow mem ?ql n = Inr (ASOCK_SUCCESS, q1)" "queue_inv q1"
          "queue_items q1 = queue_items q" "q_item_size q1 = q_item_size q" "q_size q1 = q_size q"
          "?need \<le> unat (q_capacity q1)" "unat (q_capacity q1) < 2 * ?need"
      using n by auto
    then show ?thesis
    proof cases
      case nomem
      with enq free False show ?thesis by (auto simp: return_code_defs queue_unlock_def)
    next
      case grown
      then have "asock_tsqueue_enqueue mem q (Some (concat xs)) n =
        bindR (tsqueue_append q1 (Some (concat xs)) n) (\<lambda>q. Inr (ASOCK_SUCCESS, queue_unlock q))"
        using enq by simp
      from append [OF grown(2,3,4) _ this] grown False show ?thesis by auto
    qed
  qed
qed

section \<open>Dequeuing\<close>

lemma queue_prefix_straight:
  assumes "queue_inv q" "m \<le> unat (q_size q)" "unat (q_head_pos q) + m \<le> unat (q_capacity q)"
  shows "chunks (unat (q_item_size q)) (queue_bytes q) (unat (q_head_pos q)) m = take m (queue_items q)"
  using assms by (intro nth_equalityI) simp_all

lemma queue_prefix_wrapped:
  assumes inv: "queue_inv q" and m: "m \<le> unat (q_size q)"
    and wrap: "unat (q_capacity q) < unat (q_head_pos q) + m"
  defines "f \<equiv> unat (q_capacity q) - unat (q_head_pos q)"
  shows "chunks (unat (q_item_size q)) (queue_bytes q) (unat (q_head_pos q)) f
    @ chunks (unat (q_item_size q)) (queue_bytes q) 0 (m - f) = take m (queue_items q)"
proof (rule nth_equalityI)
  note nums = queue_inv_numbers [OF inv]
  have f: "f < m" "unat (q_head_pos q) + f = unat (q_capacity q)"
    using wrap nums(2) unfolding f_def by linarith+
  then show "length (chunks (unat (q_item_size q)) (queue_bytes q) (unat (q_head_pos q)) f
    @ chunks (unat (q_item_size q)) (queue_bytes q) 0 (m - f)) = length (take m (queue_items q))"
    using m by simp
  fix k assume "k < length (chunks (unat (q_item_size q)) (queue_bytes q) (unat (q_head_pos q)) f
    @ chunks (unat (q_item_size q)) (queue_bytes q) 0 (m - f))"
  then have k: "k < m" using f by simp
  show "(chunks (unat (q_item_size q)) (queue_bytes q) (unat (q_head_pos q)) f
    @ chunks (unat (q_item_size q)) (queue_bytes q) 0 (m - f)) ! k = take m (queue_items q) ! k"
  proof (cases "k < f")
    case True
    with f(2) have "unat (q_head_pos q) + k < unat (q_capacity q)" by linarith
    with True k m show ?thesis by (simp add: nth_append)
  next
    case False
    with f(2) have "unat (q_head_pos q) + k = unat (q_capacity q) + (k - f)" by linarith
    moreover have "k - f < unat (q_capacity q)" using k m nums(3) False f by linarith
    ultimately have "(unat (q_head_pos q) + k) mod unat (q_capacity q) = k - f" by simp
    with False k m show ?thesis by (simp add: nth_append)
  qed
qed

text \<open>Removing \<open>m\<close> items moves the head around the ring.\<close>

lemma queue_advance:
  assumes inv: "queue_inv q" and m: "unat mw = m" "m \<le> unat (q_size q)"
    and head: "unat h' = (unat (q_head_pos q) + m) mod unat (q_capacity q)"
  shows "queue_inv (q\<lparr>q_head_pos := h', q_size := q_size q - mw\<rparr>)"
    "queue_items (q\<lparr>q_head_pos := h', q_size := q_size q - mw\<rparr>) = drop m (queue_items q)"
proof -
  note nums = queue_inv_numbers [OF inv]
  have size: "unat (q_size q - mw) = unat (q_size q) - m"
    using m by (subst unat_sub_exact) (simp_all add: word_le_nat_alt)
  have h: "unat h' < unat (q_capacity q)" using head nums(2) by simp
  have "(unat h' + (unat (q_size q) - m)) mod unat (q_capacity q)
      = (unat (q_head_pos q) + m + (unat (q_size q) - m)) mod unat (q_capacity q)"
    unfolding head by (simp add: mod_add_left_eq)
  then have "unat (q_tail_pos q) = (unat h' + (unat (q_size q) - m)) mod unat (q_capacity q)"
    using nums(4) m(2) by simp
  then show "queue_inv (q\<lparr>q_head_pos := h', q_size := q_size q - mw\<rparr>)"
    using inv h size nums(3)
    by (simp add: queue_inv_def queue_bytes_def word_le_nat_alt word_less_nat_alt)
  show "queue_items (q\<lparr>q_head_pos := h', q_size := q_size q - mw\<rparr>) = drop m (queue_items q)"
  proof (rule nth_equalityI)
    fix k assume "k < length (queue_items (q\<lparr>q_head_pos := h', q_size := q_size q - mw\<rparr>))"
    then have k: "k < unat (q_size q) - m" using size by simp
    have "(unat h' + k) mod unat (q_capacity q) = (unat (q_head_pos q) + (m + k)) mod unat (q_capacity q)"
      unfolding head by (simp add: mod_add_left_eq add.assoc)
    then show "queue_items (q\<lparr>q_head_pos := h', q_size := q_size q - mw\<rparr>) ! k = drop m (queue_items q) ! k"
      using k size m by (simp add: queue_bytes_def)
  qed (simp add: size)
qed

lemma tsqueue_take_straight:
  assumes inv: "queue_inv q" and m: "unat cs = m" "m \<le> unat (q_size q)"
    and straight: "unat (q_head_pos q) + m \<le> unat (q_capacity q)"
    and dst: "\<And>buf. dst = Some buf \<Longrightarrow> m * unat (q_item_size q) \<le> length buf"
  shows "\<exists>h'. tsqueue_take q dst cs =
      Inr (map_option (\<lambda>buf. splice buf 0 (concat (take m (queue_items q)))) dst, q\<lparr>q_head_pos := h'\<rparr>)
    \<and> unat h' = (unat (q_head_pos q) + m) mod unat (q_capacity q)"
proof -
  obtain d where d: "q_data q = Some d" "queue_bytes q = d"
      "length d = unat (q_capacity q) * unat (q_item_size q)" "length d < 2 ^ 63"
    using inv by (rule queue_inv_data)
  let ?w = "unat (q_item_size q)" and ?c = "unat (q_capacity q)" and ?h = "unat (q_head_pos q)"
  have hm: "unat (q_head_pos q + cs) = ?h + m"
    using queue_inv_numbers(5) [OF inv] m straight by (subst unat_add_exact) auto
  have "(?h + m) * ?w \<le> length d" unfolding d(3) using straight by (rule mult_le_mono1)
  moreover have "length d < 2 ^ 64" using d(4) by simp
  ultimately have read: "mem_read (Some d) (q_item_size q * q_head_pos q) (q_item_size q * cs)
      = Inr (concat (take m (queue_items q)))"
    using mem_read_chunks [OF _ _ refl m(1)] queue_prefix_straight [OF inv m(2) straight] d(2) by simp
  have "length (concat (take m (queue_items q))) = m * ?w"
    using length_concat_sized [OF sized_take [OF sized_queue_items [OF inv]], of m] m(2) by simp
  then have "mem_copy (Some buf) 0 (q_data q) (q_item_size q * q_head_pos q) (q_item_size q * cs)
        = Inr (Some (splice buf 0 (concat (take m (queue_items q)))))" if "dst = Some buf" for buf
    using dst [OF that] by (simp add: mem_copy_def mem_write_def d(1) read)
  moreover have "q_head_pos q + cs \<le> q_capacity q" unfolding word_le_nat_alt hm using straight .
  ultimately have "tsqueue_take q dst cs =
      Inr (map_option (\<lambda>buf. splice buf 0 (concat (take m (queue_items q)))) dst,
           q\<lparr>q_head_pos := if q_head_pos q + cs = q_capacity q then 0 else q_head_pos q + cs\<rparr>)"
    by (cases dst) (simp_all add: tsqueue_take_def)
  then show ?thesis using hm straight by (auto simp: word_unat_eq_iff)
qed

lemma tsqueue_take_wrapped:
  assumes inv: "queue_inv q" and m: "unat cs = m" "m \<le> unat (q_size q)"
    and wrap: "unat (q_capacity q) < unat (q_head_pos q) + m"
    and dst: "\<And>buf. dst = Some buf \<Longrightarrow> m * unat (q_item_size q) \<le> length buf"
  shows "\<exists>h'. tsqueue_take q dst cs =
      Inr (map_option (\<lambda>buf. splice buf 0 (concat (take m (queue_items q)))) dst, q\<lparr>q_head_pos := h'\<rparr>)
    \<and> unat h' = (unat (q_head_pos q) + m) mod unat (q_capacity q)"
proof -
  obtain d where d: "q_data q = Some d" "queue_bytes q = d"
      "length d = unat (q_capacity q) * unat (q_item_size q)" "length d < 2 ^ 63"
    using inv by (rule queue_inv_data)
  let ?w = "unat (q_item_size q)" and ?c = "unat (q_capacity q)" and ?h = "unat (q_head_pos q)"
  let ?f = "?c - ?h" and ?fw = "q_capacity q - q_head_pos q"
  note nums = queue_inv_numbers [OF inv]
  have hm: "unat (q_head_pos q + cs) = ?h + m" using nums m by (subst unat_add_exact) auto
  have f: "?h + ?f = ?c" "?f < m" "m - ?f < ?c" using wrap nums(2,3) m(2) by linarith+
  have front: "unat ?fw = ?f" using nums(2) by (intro unat_sub_exact) (simp add: word_le_nat_alt)
  have second: "unat (cs - ?fw) = m - ?f"
    using front m(1) f by (subst unat_sub_exact) (simp_all add: word_le_nat_alt)
  have d64: "length d < 2 ^ 64" using d(4) by simp
  have "(?h + ?f) * ?w \<le> length d" using f d(3) by simp
  note read1 = mem_read_chunks [OF this d64 refl front]
  have "(m - ?f) * ?w \<le> ?c * ?w" using f(3) by (intro mult_le_mono1) simp
  then have "(0 + (m - ?f)) * ?w \<le> length d" using d(3) by simp
  note read2 = mem_read_chunks [OF this d64 unsigned_0 second, simplified]
  let ?a = "chunks ?w d ?h ?f" and ?b = "chunks ?w d 0 (m - ?f)"
  have items: "?a @ ?b = take m (queue_items q)" using queue_prefix_wrapped [OF inv m(2) wrap] d by simp
  then have "sized ?w (?a @ ?b)" using sized_queue_items [OF inv] by simp
  then have szs: "sized ?w ?a" "sized ?w ?b" by simp_all
  note ls = length_concat_sized [OF szs(1), simplified] length_concat_sized [OF szs(2), simplified]
  have sum: "?f * ?w + (m - ?f) * ?w = m * ?w" using f(2) by (simp flip: add_mult_distrib)
  have "?f * ?w \<le> ?c * ?w" by (intro mult_le_mono1) simp
  then have "?f * ?w < 2 ^ 64" by (rule le_less_trans) (use d(3,4) in simp)
  then have fw: "unat (q_item_size q * ?fw) = ?f * ?w"
    by (simp add: unat_mult_exact front mult.commute)
  have cat: "concat (take m (queue_items q)) = concat ?a @ concat ?b" by (simp flip: items)
  have neq: "cs - ?fw \<noteq> q_capacity q" using second f(3) by (metis less_irrefl)
  have copies: "mem_copy (Some buf) 0 (q_data q) (q_item_size q * q_head_pos q)
        (q_item_size q * ?fw) = Inr (Some (splice buf 0 (concat ?a)))"
    "mem_copy (Some (splice buf 0 (concat ?a))) (q_item_size q * ?fw) (q_data q) 0
        (q_item_size q * (cs - ?fw)) = Inr (Some (splice buf 0 (concat (take m (queue_items q)))))"
    if "dst = Some buf" for buf
  proof -
    from dst [OF that] have fit: "length (concat ?a) + length (concat ?b) \<le> length buf"
      by (simp only: ls sum)
    then show "mem_copy (Some buf) 0 (q_data q) (q_item_size q * q_head_pos q)
        (q_item_size q * ?fw) = Inr (Some (splice buf 0 (concat ?a)))"
      by (simp add: mem_copy_def read1 d(1) mem_write_def)
    have "length (splice buf 0 (concat ?a)) = length buf" using fit by (intro length_splice) simp
    with fit show "mem_copy (Some (splice buf 0 (concat ?a))) (q_item_size q * ?fw) (q_data q) 0
        (q_item_size q * (cs - ?fw)) = Inr (Some (splice buf 0 (concat (take m (queue_items q)))))"
      using splice_splice [OF fit] by (simp add: mem_copy_def read2 d(1) mem_write_def fw cat ls(1))
  qed
  have "\<not> q_head_pos q + cs \<le> q_capacity q" unfolding word_le_nat_alt hm using wrap by simp
  then have "tsqueue_take q dst cs =
    Inr (map_option (\<lambda>buf. splice buf 0 (concat (take m (queue_items q)))) dst,
         q\<lparr>q_head_pos := cs - ?fw\<rparr>)"
    using copies neq by (cases dst) (simp_all add: tsqueue_take_def Let_def)
  moreover have "unat (cs - ?fw) = (?h + m) mod ?c"
  proof -
    have "?c \<le> ?h + m" "?h + m - ?c = m - ?f" using f by linarith+
    then show ?thesis using second f(3) by (simp add: le_mod_geq)
  qed
  ultimately show ?thesis by blast
qed

lemma asock_tsqueue_dequeue_spec:
  fixes q :: asock_tsqueue and n :: size_t and dst :: block
  assumes inv: "queue_inv q" and free: "\<not> q_mutex q"
  defines "m \<equiv> min (unat n) (unat (q_size q))"
  assumes dst: "\<And>buf. dst = Some buf \<Longrightarrow> m * unat (q_item_size q) \<le> length buf"
  shows "\<exists>q'. asock_tsqueue_dequeue q dst n =
      Inr (of_nat m, map_option (\<lambda>buf. splice buf 0 (concat (take m (queue_items q)))) dst, q')
    \<and> queue_inv q' \<and> \<not> q_mutex q' \<and> queue_items q' = drop m (queue_items q)
    \<and> q_item_size q' = q_item_size q \<and> q_capacity q' = q_capacity q"
proof -
  let ?ql = "q\<lparr>q_mutex := True\<rparr>"
  define cs where "cs = (if n > q_size q then q_size q else n)"
  have cs: "unat cs = m" "m \<le> unat (q_size ?ql)" by (auto simp: cs_def m_def word_less_nat_alt)
  have invl: "queue_inv ?ql" and itl: "queue_items ?ql = queue_items q" using inv by simp_all
  have dstl: "m * unat (q_item_size ?ql) \<le> length buf" if "dst = Some buf" for buf
    using dst [OF that] by simp
  obtain h' where h': "tsqueue_take ?ql dst cs =
      Inr (map_option (\<lambda>buf. splice buf 0 (concat (take m (queue_items q)))) dst, ?ql\<lparr>q_head_pos := h'\<rparr>)"
    "unat h' = (unat (q_head_pos q) + m) mod unat (q_capacity q)"
    using tsqueue_take_straight [OF invl cs _ dstl] tsqueue_take_wrapped [OF invl cs _ dstl] itl
    by (cases "unat (q_head_pos q) + m \<le> unat (q_capacity q)") auto
  let ?q' = "q\<lparr>q_head_pos := h', q_size := q_size q - cs, q_mutex := False\<rparr>"
  have "asock_tsqueue_dequeue q dst n =
      Inr (cs, map_option (\<lambda>buf. splice buf 0 (concat (take m (queue_items q)))) dst, ?q')"
    using free h'(1) unfolding cs_def
    by (cases "n > q_size q") (simp_all add: asock_tsqueue_dequeue_def queue_unlock_def Let_def)
  moreover have "cs = of_nat m" using of_nat_unat_size [of cs] cs(1) by simp
  ultimately show ?thesis
    using queue_advance [OF inv cs(1) _ h'(2)] cs(2) free by auto
qed

section \<open>Reading the head, clearing, visiting\<close>

lemma asock_tsqueue_head_spec:
  assumes inv: "queue_inv q"
  defines "n \<equiv> unat (asock_tsqueue_head_size q)"
  shows "n \<le> length (queue_items q)" "n = 0 \<longleftrightarrow> queue_items q = []"
    "queue_items q \<noteq> [] \<Longrightarrow> \<exists>p. asock_tsqueue_head q = Some p \<and>
       mem_read (q_data q) p (q_item_size q * asock_tsqueue_head_size q)
       = Inr (concat (take n (queue_items q)))"
proof -
  obtain d where d: "q_data q = Some d" "queue_bytes q = d"
      "length d = unat (q_capacity q) * unat (q_item_size q)" "length d < 2 ^ 63"
    using inv by (rule queue_inv_data)
  let ?w = "unat (q_item_size q)" and ?c = "unat (q_capacity q)" and ?h = "unat (q_head_pos q)"
  note nums = queue_inv_numbers [OF inv]
  have front: "unat (q_capacity q - q_head_pos q) = ?c - ?h"
    using nums(2) by (intro unat_sub_exact) (simp add: word_le_nat_alt)
  have n: "n = min (unat (q_size q)) (?c - ?h)"
    by (auto simp: n_def asock_tsqueue_head_size_def word_less_nat_alt front)
  then show "n \<le> length (queue_items q)" by simp
  have empty: "queue_items q = [] \<longleftrightarrow> unat (q_size q) = 0" by (simp add: queue_items_def)
  with n nums(2) show "n = 0 \<longleftrightarrow> queue_items q = []" by auto
  assume "queue_items q \<noteq> []"
  with empty have "q_size q \<noteq> 0" by auto
  then have "asock_tsqueue_head q = Some (q_item_size q * q_head_pos q)"
    by (simp add: asock_tsqueue_head_def)
  moreover have hn: "?h + n \<le> ?c" "n \<le> unat (q_size q)" using n nums(2) by linarith+
  then have "(?h + n) * ?w \<le> length d" unfolding d(3) by (intro mult_le_mono1)
  moreover have "length d < 2 ^ 64" using d(4) by simp
  ultimately have "asock_tsqueue_head q = Some (q_item_size q * q_head_pos q)"
    "mem_read (q_data q) (q_item_size q * q_head_pos q) (q_item_size q * asock_tsqueue_head_size q)
       = Inr (concat (take n (queue_items q)))"
    using mem_read_chunks [OF _ _ refl n_def [THEN meta_eq_to_obj_eq, symmetric], of _ "q_item_size q" d]
      queue_prefix_straight [OF inv hn(2,1)] unfolding d(1,2) by simp_all
  then show "\<exists>p. asock_tsqueue_head q = Some p \<and>
       mem_read (q_data q) p (q_item_size q * asock_tsqueue_head_size q)
       = Inr (concat (take n (queue_items q)))" by blast
qed

lemma asock_tsqueue_clear_spec:
  assumes "queue_inv q" "\<not> q_mutex q"
  shows "\<exists>q'. asock_tsqueue_clear q = Inr q' \<and> queue_inv q' \<and> \<not> q_mutex q' \<and> queue_items q' = []
    \<and> q_capacity q' = q_capacity q"
  using assms
  by (auto simp: asock_tsqueue_clear_def queue_unlock_def queue_inv_def queue_bytes_def queue_items_def
      word_less_nat_alt)

lemma asock_tsqueue_for_each_spec:
  assumes inv: "queue_inv q" and free: "\<not> q_mutex q"
  shows "\<exists>calls. asock_tsqueue_for_each q = Inr calls \<and> length calls = length (queue_items q)
    \<and> (\<forall>k < length calls. snd (calls ! k) = of_nat k
        \<and> mem_read (q_data q) (fst (calls ! k)) (q_item_size q) = Inr (queue_items q ! k))"
proof -
  obtain d where d: "q_data q = Some d" "queue_bytes q = d"
      "length d = unat (q_capacity q) * unat (q_item_size q)" "length d < 2 ^ 63"
    using inv by (rule queue_inv_data)
  let ?w = "unat (q_item_size q)" and ?c = "unat (q_capacity q)"
  note nums = queue_inv_numbers [OF inv]
  let ?calls = "map (\<lambda>k. let i = of_nat k; pos = (q_head_pos q + i) mod q_capacity q
                     in (pos * q_item_size q, i)) [0..<unat (q_size q)]"
  have "asock_tsqueue_for_each q = Inr ?calls" using free by (simp add: asock_tsqueue_for_each_def)
  moreover have "mem_read (q_data q) (fst (?calls ! k)) (q_item_size q) = Inr (queue_items q ! k)"
    if k: "k < unat (q_size q)" for k
  proof -
    let ?pos = "(q_head_pos q + of_nat k) mod q_capacity q" and ?p = "(unat (q_head_pos q) + k) mod ?c"
    have "unat (of_nat k :: size_t) = k" using k nums(3,5) by (intro unat_of_nat_size) simp
    then have "unat (q_head_pos q + of_nat k) = unat (q_head_pos q) + k"
      using k nums(2,3,5) by (subst unat_add_exact) simp_all
    then have pos: "unat ?pos = ?p" by (simp add: unat_mod)
    have fit: "?p * ?w + ?w \<le> length d"
      using d(3) nums(2) by (intro block_end [of ?p ?c]) simp_all
    then have "?p * ?w \<le> length d" by linarith
    then have "?p * ?w < 2 ^ 64" by (rule le_less_trans) (use d(4) in simp)
    then have "unat (?pos * q_item_size q) = ?p * ?w"
      using pos by (subst unat_mult_exact) simp_all
    then show ?thesis using k fit d by (simp add: mem_read_def chunk_def Let_def)
  qed
  ultimately show ?thesis by (intro exI [of _ ?calls]) (simp add: Let_def del: nth_queue_items)
qed

lemma asock_tsqueue_create_spec:
  assumes mem: "alloc_ok mem" and w: "item_size \<noteq> 0" and cap: "unat capacity \<le> 2 ^ 63"
    and size: "2 * unat capacity * unat item_size < 2 ^ 64" "unat item_size < 2 ^ 64"
  shows "\<exists>r. asock_tsqueue_create mem mutex_ok item_size capacity = Inr r
    \<and> (\<forall>q. r = Some q \<longrightarrow> queue_inv q \<and> \<not> q_mutex q \<and> queue_items q = []
          \<and> q_item_size q = item_size \<and> unat capacity \<le> unat (q_capacity q)
          \<and> (\<exists>k. unat (q_capacity q) = 2 ^ k \<and> (\<forall>i < k. 2 ^ i < unat capacity)))"
proof -
  obtain j rc where rc: "right_capacity_loop 1 capacity = Some rc" "j \<le> 63" "unat rc = 2 ^ j"
      "unat capacity \<le> 2 ^ j" "\<forall>i. 0 \<le> i \<and> i < j \<longrightarrow> 2 ^ i < unat capacity"
    using right_loop.loop_reaches [of 1 0 capacity] cap by auto
  have "2 ^ j * unat item_size < 2 ^ 64"
  proof (cases j)
    case 0
    then show ?thesis using size(2) by simp
  next
    case (Suc i)
    with rc(5) have "2 ^ j \<le> 2 * unat capacity" by (auto simp: less_imp_le)
    then have "2 ^ j * unat item_size \<le> 2 * unat capacity * unat item_size" by (rule mult_le_mono1)
    with size(1) show ?thesis by (rule le_less_trans [rotated])
  qed
  then have bytes: "unat (item_size * rc) = 2 ^ j * unat item_size"
    using rc(3) by (subst unat_mult_exact) (simp_all add: mult.commute)
  then have "0 < unat (item_size * rc)" using w by (simp add: unat_gt_0)
  then have init: "(if item_size * rc > 1 then item_size * rc else 1) = item_size * rc"
    by (cases "item_size * rc = 1") (auto simp: word_less_nat_alt word_unat_eq_iff)
  have good: "queue_inv q \<and> queue_items q = []"
    if "mem 1 (item_size * rc) = Some d" "q = \<lparr>q_data = Some d, q_size = 0, q_capacity = rc,
        q_item_size = item_size, q_tail_pos = 0, q_head_pos = 0, q_mutex = False\<rparr>" for q d
    using alloc_okD [OF mem that(1)] that(2) bytes rc w
    by (auto simp: queue_inv_def queue_bytes_def queue_items_def word_less_nat_alt)
  show ?thesis
    using rc good by (auto simp: asock_tsqueue_create_def init Let_def split: option.splits)
qed

section \<open>The queue as a first-in first-out queue\<close>

text \<open>The two operations on lists of items: one \<open>enqueue\<close> of all of them, and one
  \<open>dequeue\<close> into a buffer with room for them.\<close>

definition enqueue_items :: "allocator \<Rightarrow> asock_tsqueue \<Rightarrow> byte list list \<Rightarrow> asock_tsqueue option" where
  "enqueue_items mem q xs =
     (case asock_tsqueue_enqueue mem q (Some (concat xs)) (of_nat (length xs)) of
        Inl _ \<Rightarrow> None
      | Inr (r, q') \<Rightarrow> if r = ASOCK_SUCCESS then Some q' else None)"

definition dequeue_items :: "asock_tsqueue \<Rightarrow> size_t \<Rightarrow> (byte list list \<times> asock_tsqueue) option" where
  "dequeue_items q n =
     (let room = min (unat n) (unat (q_size q)) * unat (q_item_size q) in
      case asock_tsqueue_dequeue q (Some (replicate room 0)) n of
        Inr (count, Some buf, q') \<Rightarrow> Some (chunks (unat (q_item_size q)) buf 0 (unat count), q')
      | _ \<Rightarrow> None)"

text \<open>Items of the queue's size, at most a quarter of the address space of them.\<close>

definition fifo_ok :: "size_t \<Rightarrow> byte list list \<Rightarrow> bool" where
  "fifo_ok w xs \<longleftrightarrow> sized (unat w) xs \<and> length xs * unat w \<le> 2 ^ 62"

definition fifo_inv :: "allocator \<Rightarrow> size_t \<Rightarrow> asock_tsqueue \<Rightarrow> bool" where
  "fifo_inv mem w q \<longleftrightarrow> alloc_ok mem \<and> queue_inv q \<and> \<not> q_mutex q \<and> q_item_size q = w"

definition alloc_grants :: "allocator \<Rightarrow> bool" where
  "alloc_grants mem \<longleftrightarrow> alloc_ok mem \<and> (\<forall>i n. unat n \<le> PTRDIFF_MAX \<longrightarrow> mem i n \<noteq> None)"

lemma alloc_grants_zero_alloc [simp]: "alloc_grants zero_alloc"
  by (simp add: alloc_grants_def zero_alloc_def)

lemma fifo_enqueue:
  assumes "fifo_inv mem w q" "fifo_ok w (queue_items q @ xs)"
  shows "enqueue_items mem q xs = Some q' \<Longrightarrow> fifo_inv mem w q' \<and> queue_items q' = queue_items q @ xs"
    and "alloc_grants mem \<Longrightarrow> enqueue_items mem q xs \<noteq> None"
proof -
  let ?w = "unat (q_item_size q)" and ?n = "of_nat (length xs) :: size_t"
  have inv: "queue_inv q" "\<not> q_mutex q" "alloc_ok mem" and xs: "sized ?w xs"
    and total: "(unat (q_size q) + length xs) * ?w \<le> 2 ^ 62"
    using assms by (simp_all add: fifo_inv_def fifo_ok_def)
  have "0 < ?w" using queue_inv_numbers(1) [OF inv(1)] .
  then have "unat (q_size q) + length xs \<le> 2 ^ 62"
    using total by (metis One_nat_def Suc_leI le_trans mult.right_neutral mult_le_mono2)
  then have n: "unat ?n = length xs" by (intro unat_of_nat_size) simp
  have bound: "(unat (q_size q) + length xs) * ?w \<le> 2 ^ 63" using total by simp
  note spec = asock_tsqueue_enqueue_spec [OF inv n xs bound]
  show "enqueue_items mem q xs = Some q' \<Longrightarrow> fifo_inv mem w q' \<and> queue_items q' = queue_items q @ xs"
    using spec assms(1) by (auto simp: enqueue_items_def fifo_inv_def return_code_defs split: if_splits)
  have small: "2 * (unat (q_size q) + length xs) * ?w \<le> 2 ^ 63"
    using mult_le_mono2 [OF total, of 2] unfolding mult.assoc by simp
  show "enqueue_items mem q xs \<noteq> None" if grants: "alloc_grants mem"
  proof -
    have "mem 0 (nc * q_item_size q) \<noteq> None"
      if "unat (nc * q_item_size q) < 2 * (unat (q_size q) + length xs) * ?w" for nc
    proof -
      have "unat (nc * q_item_size q) < 2 ^ 63" using that small by (rule less_le_trans)
      then show ?thesis using grants by (auto simp: alloc_grants_def PTRDIFF_MAX_def)
    qed
    then have "\<exists>q'. asock_tsqueue_enqueue mem q (Some (concat xs)) ?n = Inr (ASOCK_SUCCESS, q')"
      using spec by blast
    then show ?thesis by (auto simp: enqueue_items_def)
  qed
qed

lemma fifo_ok_append:
  "fifo_ok w (xs @ ys) \<Longrightarrow> fifo_ok w xs" "fifo_ok w (xs @ ys) \<Longrightarrow> fifo_ok w ys"
  by (auto simp: fifo_ok_def add_mult_distrib)

lemma fifo_dequeue:
  assumes "fifo_inv mem w q"
  shows "\<exists>q'. dequeue_items q n = Some (take (unat n) (queue_items q), q')
    \<and> fifo_inv mem w q' \<and> queue_items q' = drop (unat n) (queue_items q)"
proof -
  let ?w = "unat (q_item_size q)" and ?m = "min (unat n) (unat (q_size q))"
  have inv: "queue_inv q" "\<not> q_mutex q" using assms by (simp_all add: fifo_inv_def)
  let ?buf = "splice (replicate (?m * ?w) 0) 0 (concat (take ?m (queue_items q)))"
  obtain q' where q': "asock_tsqueue_dequeue q (Some (replicate (?m * ?w) 0)) n =
      Inr (of_nat ?m, Some ?buf, q')" "queue_inv q'" "\<not> q_mutex q'"
      "queue_items q' = drop ?m (queue_items q)" "q_item_size q' = q_item_size q"
    using asock_tsqueue_dequeue_spec [OF inv, of "Some (replicate (?m * ?w) 0)" n] by auto
  have sz: "sized ?w (take ?m (queue_items q))" using sized_queue_items [OF inv(1)] by simp
  then have "?buf = concat (take ?m (queue_items q))"
    using length_concat_sized [OF sz] by (simp add: splice_def)
  moreover have "unat (of_nat ?m :: size_t) = ?m"
    using queue_inv_numbers(3,5) [OF inv(1)] by (intro unat_of_nat_size) simp
  moreover have "chunks ?w (concat (take ?m (queue_items q))) 0 ?m = take ?m (queue_items q)"
    using chunk_concat [OF sz] by (intro nth_equalityI) (simp_all del: nth_queue_items nth_take)
  moreover have "take ?m (queue_items q) = take (unat n) (queue_items q)"
    "drop ?m (queue_items q) = drop (unat n) (queue_items q)"
    by (auto simp: min_def)
  ultimately show ?thesis using q' assms by (simp add: dequeue_items_def fifo_inv_def)
qed

lemma fifo_ring: "fifo_queue (fifo_inv mem w) queue_items (fifo_ok w) (enqueue_items mem) dequeue_items"
proof (unfold_locales, goal_cases)
  case (1 q xs q')
  then show ?case by (rule fifo_enqueue(1))
next
  case (2 q n)
  then show ?case by (rule fifo_dequeue)
qed (erule fifo_ok_append)+

interpretation ring: fifo_queue "fifo_inv mem w" queue_items "fifo_ok w" "enqueue_items mem" dequeue_items
  for mem w
  by (rule fifo_ring)

interpretation granted_ring: total_fifo_queue
  "\<lambda>q. alloc_grants mem \<and> fifo_inv mem w q" queue_items "fifo_ok w" "enqueue_items mem" dequeue_items
  for mem w
proof (unfold_locales, goal_cases)
  case (1 q xs q')
  then show ?case using fifo_enqueue(1) by blast
next
  case (2 q n)
  then show ?case using fifo_dequeue by blast
next
  case (5 q xs)
  then show ?case using fifo_enqueue(2) by blast
qed (erule fifo_ok_append)+

end
