(* ===== verification/Asock_Containers.thy ===== *)
theory Asock_Containers
  imports Asock_Connections Asock_Tsqueue
begin

text \<open>
  What the containers promise: the properties of the vector, the connection table and the ring
  buffer, each with a concrete run that satisfies its hypotheses.
\<close>

section \<open>Sequences of vector operations\<close>

datatype vec_op = Push "byte list" | Erase size_t | Clear

fun vec_run :: "allocator \<Rightarrow> asock_vector \<Rightarrow> vec_op list \<Rightarrow> (AsockReturnCode list \<times> asock_vector) res" where
  "vec_run mem v [] = Inr ([], v)"
| "vec_run mem v (Push x # ops) =
     bindR (asock_vector_push mem v x) (\<lambda>(r, v'). bindR (vec_run mem v' ops) (\<lambda>(rs, v''). Inr (r # rs, v'')))"
| "vec_run mem v (Erase i # ops) =
     bindR (asock_vector_erase v i) (\<lambda>(r, v'). bindR (vec_run mem v' ops) (\<lambda>(rs, v''). Inr (r # rs, v'')))"
| "vec_run mem v (Clear # ops) = vec_run mem (asock_vector_clear v) ops"

text \<open>The specification: a list.\<close>

fun list_run :: "byte list list \<Rightarrow> vec_op list \<Rightarrow> AsockReturnCode list \<times> byte list list" where
  "list_run xs [] = ([], xs)"
| "list_run xs (Push x # ops) = (let (rs, ys) = list_run (xs @ [x]) ops in (ASOCK_SUCCESS # rs, ys))"
| "list_run xs (Erase i # ops) =
     (if unat i < length xs
      then let (rs, ys) = list_run (delete_at (unat i) xs) ops in (ASOCK_SUCCESS # rs, ys)
      else let (rs, ys) = list_run xs ops in (ASOCK_FAILURE # rs, ys))"
| "list_run xs (Clear # ops) = list_run [] ops"

fun pushed_items :: "vec_op list \<Rightarrow> byte list list" where
  "pushed_items [] = []"
| "pushed_items (Push x # ops) = x # pushed_items ops"
| "pushed_items (_ # ops) = pushed_items ops"

lemma vector_push_granted:
  assumes inv: "vector_inv v" and mem: "alloc_grants mem" and x: "length x = unat (v_item_size v)"
    and room: "2 * length (vector_items v) * unat (v_item_size v) \<le> PTRDIFF_MAX"
  shows "\<exists>v'. asock_vector_push mem v x = Inr (ASOCK_SUCCESS, v') \<and> vector_inv v'
    \<and> vector_items v' = vector_items v @ [x] \<and> v_item_size v' = v_item_size v"
proof -
  have "mem 0 (v_capacity v * 2 * v_item_size v) \<noteq> None" if full: "v_size v = v_capacity v"
  proof -
    have "unat (v_capacity v * 2) = 2 * unat (v_capacity v)"
      using vector_inv_numbers(5) [OF inv] by (subst unat_mult_exact) simp_all
    then have "unat (v_capacity v * 2 * v_item_size v) = 2 * unat (v_size v) * unat (v_item_size v)"
      using vector_inv_numbers(4) [OF inv] full by (subst unat_mult_exact) simp_all
    with room mem show ?thesis by (simp add: alloc_grants_def)
  qed
  with asock_vector_push_spec [OF inv _ x, of mem] mem show ?thesis
    by (auto simp: alloc_grants_def)
qed

lemma connections_push_granted:
  assumes inv: "con_inv v" and mem: "alloc_grants mem" and room: "length (con_ptrs v) \<le> 2 ^ 32"
  shows "\<exists>v'. asock_connections_push mem v p = Inr (ASOCK_SUCCESS, v') \<and> con_inv v'
    \<and> con_ptrs v' = con_ptrs v @ [p]"
proof -
  have v: "vector_inv v" "v_item_size v = 8" using inv by (simp_all add: con_inv_def CON_PTR_SIZE_def)
  have "2 * length (vector_items v) * unat (v_item_size v) \<le> PTRDIFF_MAX"
    using room v(2) by (simp add: PTRDIFF_MAX_def)
  from vector_push_granted [OF v(1) mem _ this, of "ptr_bytes p"] v(2) show ?thesis
    by (auto simp: asock_connections_push_def con_inv_def con_ptrs_def CON_PTR_SIZE_def)
qed

lemma vec_run_refines:
  "vector_inv v \<Longrightarrow> alloc_grants mem \<Longrightarrow> v_item_size v = w \<Longrightarrow> sized (unat w) (pushed_items ops) \<Longrightarrow>
   2 * (length (vector_items v) + length (pushed_items ops)) * unat w \<le> PTRDIFF_MAX \<Longrightarrow>
   \<exists>v'. vec_run mem v ops = Inr (fst (list_run (vector_items v) ops), v')
     \<and> vector_inv v' \<and> vector_items v' = snd (list_run (vector_items v) ops)"
proof (induction mem v ops rule: vec_run.induct)
  case (1 mem v)
  then show ?case by simp
next
  case (2 mem v x ops)
  have "2 * length (vector_items v) * unat w \<le>
      2 * (length (vector_items v) + length (pushed_items (Push x # ops))) * unat w"
    by (intro mult_le_mono1 mult_le_mono2) simp
  then have "2 * length (vector_items v) * unat (v_item_size v) \<le> PTRDIFF_MAX"
    unfolding 2(4) using 2(6) by (rule le_trans)
  then obtain v1 where v1: "asock_vector_push mem v x = Inr (ASOCK_SUCCESS, v1)" "vector_inv v1"
      "vector_items v1 = vector_items v @ [x]" "v_item_size v1 = v_item_size v"
    using vector_push_granted [OF 2(2,3)] 2 by auto
  from 2(1) [OF v1(2)] 2 v1 show ?case by (auto simp: split_beta)
next
  case (3 mem v i ops)
  show ?case
  proof (cases "unat i < length (vector_items v)")
    case True
    then obtain v1 where v1: "asock_vector_erase v i = Inr (ASOCK_SUCCESS, v1)" "vector_inv v1"
        "vector_items v1 = delete_at (unat i) (vector_items v)" "v_item_size v1 = v_item_size v"
      using asock_vector_erase_spec 3 by blast
    have "length (vector_items v1) \<le> length (vector_items v)" using v1(3) True by simp
    then have "2 * (length (vector_items v1) + length (pushed_items ops)) * unat w \<le>
        2 * (length (vector_items v) + length (pushed_items (Erase i # ops))) * unat w"
      by (intro mult_le_mono1 mult_le_mono2) simp
    then have "2 * (length (vector_items v1) + length (pushed_items ops)) * unat w \<le> PTRDIFF_MAX"
      using 3(6) by (rule le_trans)
    from 3(1) [OF v1(2) _ _ _ this] 3 v1 True show ?thesis by (auto simp: split_beta)
  next
    case False
    then have e: "asock_vector_erase v i = Inr (ASOCK_FAILURE, v)" by (intro asock_vector_erase_fails) simp
    from 3(1) [OF 3(2)] 3 e False show ?thesis by (auto simp: split_beta)
  qed
next
  case (4 mem v ops)
  note c = asock_vector_clear_spec [OF 4(2)]
  have "2 * (length (vector_items (asock_vector_clear v)) + length (pushed_items ops)) * unat w \<le>
      2 * (length (vector_items v) + length (pushed_items (Clear # ops))) * unat w"
    using c by (intro mult_le_mono1 mult_le_mono2) simp
  then have "2 * (length (vector_items (asock_vector_clear v)) + length (pushed_items ops)) * unat w \<le> PTRDIFF_MAX"
    using 4(6) by (rule le_trans)
  from 4(1) [OF _ _ _ _ this] 4 c show ?case by (simp add: asock_vector_clear_def)
qed

definition sample_vector :: asock_vector where
  "sample_vector = \<lparr>v_size = 2, v_data = Some [1, 0, 2, 0], v_capacity = 2, v_item_size = 2\<rparr>"

lemma sample_vector_inv: "vector_inv sample_vector"
  "v_item_size sample_vector = 2" "vector_items sample_vector = [[1, 0], [2, 0]]"
  "v_size sample_vector = v_capacity sample_vector"
  by (simp_all add: sample_vector_def vector_inv_def vector_bytes_def PTRDIFF_MAX_def vector_items_def
      chunks_def chunk_def upt_rec)

section \<open>Properties of the vector\<close>

text \<open>C27. Any sequence of pushes, erases and clears on a well-formed vector does to its contents
  what the same sequence does to a list, with the same return codes and no fault, as long as
  the allocator grants what fits in memory.\<close>

theorem vector_runs_like_a_list:
  assumes "vector_inv v" "alloc_grants mem" "sized (unat (v_item_size v)) (pushed_items ops)"
    "2 * (length (vector_items v) + length (pushed_items ops)) * unat (v_item_size v) \<le> PTRDIFF_MAX"
  shows "\<exists>v'. vec_run mem v ops = Inr (fst (list_run (vector_items v) ops), v')
    \<and> vector_inv v' \<and> vector_items v' = snd (list_run (vector_items v) ops)"
  using vec_run_refines assms by blast

theorem vector_runs_like_a_list_witness:
  "\<exists>v'. vec_run zero_alloc sample_vector [Push [3, 0], Erase 0, Erase 7, Push [4, 0]]
      = Inr ([0, 0, 666, 0], v') \<and> vector_items v' = [[2, 0], [3, 0], [4, 0]]"
  using vector_runs_like_a_list [of sample_vector zero_alloc "[Push [3, 0], Erase 0, Erase 7, Push [4, 0]]"]
  by (auto simp: sample_vector_inv PTRDIFF_MAX_def return_code_defs delete_at_def)

text \<open>Pushing onto a full vector when the allocator refuses returns the failure code and
  loses the block: the pointer to the old data is overwritten with null while size and capacity
  stay, so the next read of an item that was there faults.\<close>

theorem vector_failed_push_loses_items:
  assumes "vector_inv v" "v_size v = v_capacity v" "length x = unat (v_item_size v)"
    "k < length (vector_items v)"
  shows "\<exists>v'. asock_vector_push null_alloc v x = Inr (ASOCK_FAILURE, v')
    \<and> asock_vector_size v' = asock_vector_size v
    \<and> vector_get v (of_nat k) = Inr (vector_items v ! k)
    \<and> vector_get v' (of_nat k) = Inl Null_Deref"
proof -
  let ?v' = "v\<lparr>v_data := None\<rparr>"
  have "asock_vector_push null_alloc v x = Inr (ASOCK_FAILURE, ?v')"
    using asock_vector_push_spec [OF assms(1) alloc_ok_null_alloc assms(3)] assms(2)
    by (auto simp: asock_vector_push_def vector_grow_spec(1) [OF assms(1) alloc_ok_null_alloc]
        null_alloc_def)
  moreover have "vector_get ?v' (of_nat k) = Inl Null_Deref"
    by (simp add: vector_get_def mem_read_def split: option.split)
  ultimately show ?thesis using assms vector_get_nth by (auto simp: asock_vector_size_def)
qed

theorem vector_failed_push_loses_items_witness:
  "\<exists>v'. asock_vector_push null_alloc sample_vector [9, 9] = Inr (666, v')
    \<and> vector_get sample_vector 1 = Inr [2, 0] \<and> vector_get v' 1 = Inl Null_Deref"
  using vector_failed_push_loses_items [of sample_vector "[9, 9]" 1]
  by (auto simp: sample_vector_inv return_code_defs)

text \<open>A vector created with capacity 0 is accepted, and the first push on it stops the
  process: doubling 0 does not grow, which the assertion in the reallocation catches.\<close>

theorem vector_zero_capacity_push_asserts:
  "asock_vector_create mem w 0 = Some v \<Longrightarrow> asock_vector_push mem' v x = Inl Assert_Failed"
  by (auto simp: asock_vector_create_def asock_vector_push_def vector_reallocate_def Let_def
      split: option.splits)

theorem vector_zero_capacity_push_asserts_witness:
  "\<exists>v. asock_vector_create zero_alloc 8 0 = Some v
    \<and> asock_vector_push zero_alloc v [1, 2, 3, 4, 5, 6, 7, 8] = Inl Assert_Failed"
proof -
  obtain v where v: "asock_vector_create zero_alloc 8 0 = Some v"
    by (simp add: asock_vector_create_def zero_alloc_def PTRDIFF_MAX_def)
  with vector_zero_capacity_push_asserts [OF v] show ?thesis by blast
qed

text \<open>\<open>index_of\<close> returns the first index whose item has the same bytes, and the invalid index
  when there is none.\<close>

theorem vector_index_of_first_match:
  assumes "vector_inv v" "length x = unat (v_item_size v)" "asock_vector_index_of v x = Inr r"
  shows "(r = ASOCK_INVALID_VEC_INDEX \<and> x \<notin> set (vector_items v))
    \<or> (unat r < length (vector_items v) \<and> vector_items v ! unat r = x
        \<and> x \<notin> set (take (unat r) (vector_items v)))"
proof (cases "first_index (\<lambda>y. y = x) (vector_items v)")
  case None
  with asock_vector_index_of_spec [OF assms(1,2)] assms(3) show ?thesis by (auto simp: first_index_None)
next
  case (Some k)
  note k = first_index_Some [OF Some]
  have "k < 2 ^ 64" using k unsigned_less [of "v_size v", where 'a = nat] by simp
  then have "unat r = k" using assms Some asock_vector_index_of_spec [of v x] unat_of_nat_size by auto
  with k show ?thesis by (auto simp: in_set_conv_nth)
qed

theorem vector_index_of_first_match_witness:
  "asock_vector_index_of sample_vector [2, 0] = Inr 1 \<and>
   ((1 = ASOCK_INVALID_VEC_INDEX \<and> [2, 0] \<notin> set (vector_items sample_vector))
    \<or> (unat (1 :: size_t) < length (vector_items sample_vector)
        \<and> vector_items sample_vector ! unat (1 :: size_t) = [2, 0]
        \<and> [2, 0] \<notin> set (take (unat (1 :: size_t)) (vector_items sample_vector))))"
proof -
  have r: "asock_vector_index_of sample_vector [2, 0] = Inr 1"
    using asock_vector_index_of_spec [of sample_vector "[2, 0]"] by (simp add: sample_vector_inv)
  have "length [2, 0 :: byte] = unat (v_item_size sample_vector)" by (simp add: sample_vector_inv)
  from vector_index_of_first_match [OF sample_vector_inv(1) this r] r show ?thesis by blast
qed

section \<open>Properties of the connection table\<close>

text \<open>The table holds the pointers it was given: after a push that succeeds, reading the new
  last index gives the pushed pointer and every earlier index reads as before.\<close>

theorem connections_push_then_at:
  assumes "con_inv v" "alloc_ok mem" "asock_connections_push mem v p = Inr (ASOCK_SUCCESS, v')"
  shows "con_inv v' \<and> con_ptrs v' = con_ptrs v @ [p]
    \<and> asock_connections_at v' (asock_connections_size v) = Inr p
    \<and> (\<forall>k < length (con_ptrs v). asock_connections_at v' (of_nat k) = asock_connections_at v (of_nat k))"
proof -
  have v': "con_inv v'" "con_ptrs v' = con_ptrs v @ [p]"
    using item_store.push_law [OF connections_store [OF assms(2)], of v p] assms
    by (auto simp: return_code_defs)
  have "\<forall>k < length (con_ptrs v). asock_connections_at v' (of_nat k) = asock_connections_at v (of_nat k)"
    using cons.get_law [OF assms(1)] cons.get_law [OF v'(1)] v'(2) by (auto simp: nth_append)
  moreover have "asock_connections_size v = of_nat (length (con_ptrs v))"
    using of_nat_unat_size [of "v_size v"] by (simp add: asock_connections_size_def asock_vector_size_def)
  then have "asock_connections_at v' (asock_connections_size v) = Inr p"
    using cons.get_law [OF v'(1), of "length (con_ptrs v)"] v'(2) by (simp add: nth_append)
  ultimately show ?thesis using v' by blast
qed

text \<open>A full table of two pointers, and a third one pushed onto it.\<close>

definition sample_table :: asock_vector where
  "sample_table = \<lparr>v_size = 2, v_data = Some (ptr_bytes 4096 @ ptr_bytes 8192), v_capacity = 2,
     v_item_size = CON_PTR_SIZE\<rparr>"

lemma sample_table_inv: "con_inv sample_table" "con_ptrs sample_table = [4096, 8192]"
  by (simp_all add: con_inv_def sample_table_def CON_PTR_SIZE_def vector_inv_def vector_bytes_def
      PTRDIFF_MAX_def con_ptrs_def vector_items_def chunks_def chunk_def upt_rec)

lemma sample_table_push:
  "\<exists>v'. asock_connections_push zero_alloc sample_table 12288 = Inr (ASOCK_SUCCESS, v')"
proof -
  have "vector_inv sample_table" using sample_table_inv(1) by (simp add: con_inv_def)
  moreover have "2 * length (vector_items sample_table) * unat (v_item_size sample_table) \<le> PTRDIFF_MAX"
    by (simp add: sample_table_def CON_PTR_SIZE_def PTRDIFF_MAX_def)
  ultimately show ?thesis
    using vector_push_granted [of sample_table zero_alloc "ptr_bytes 12288"]
    by (auto simp: asock_connections_push_def sample_table_def CON_PTR_SIZE_def)
qed

theorem connections_push_then_at_witness:
  "\<exists>v'. asock_connections_push zero_alloc sample_table 12288 = Inr (ASOCK_SUCCESS, v')
    \<and> con_ptrs v' = [4096, 8192, 12288] \<and> asock_connections_at v' 2 = Inr 12288"
proof -
  obtain v' where v': "asock_connections_push zero_alloc sample_table 12288 = Inr (ASOCK_SUCCESS, v')"
    using sample_table_push by blast
  have "asock_connections_size sample_table = 2"
    by (simp add: asock_connections_size_def asock_vector_size_def sample_table_def)
  with connections_push_then_at [OF sample_table_inv(1) alloc_ok_zero_alloc v'] v' sample_table_inv(2)
  show ?thesis by auto
qed

section \<open>Properties of the ring buffer\<close>

text \<open>Two one-byte items at the end and the front of a ring of four.\<close>

definition sample_queue :: asock_tsqueue where
  "sample_queue = \<lparr>q_data = Some [22, 0, 0, 11], q_size = 2, q_capacity = 4, q_item_size = 1,
     q_tail_pos = 1, q_head_pos = 3, q_mutex = False\<rparr>"

lemma sample_queue_inv: "queue_inv sample_queue" "\<not> q_mutex sample_queue"
  "q_item_size sample_queue = 1" "q_size sample_queue = 2" "q_capacity sample_queue = 4"
  "queue_items sample_queue = [[11], [22]]"
  by (auto simp: sample_queue_def queue_inv_def queue_bytes_def PTRDIFF_MAX_def queue_items_def
      chunk_def upt_rec word_less_nat_alt word_le_nat_alt intro!: bexI [of _ 2])

text \<open>C1. Whatever the sequence of enqueues and dequeues, with their blocks of any size and with
  any number of reallocations in between, the items come out in the order they went in: all that
  was dequeued followed by what is still queued is what was queued at the start followed by all
  that was enqueued.\<close>

theorem tsqueue_fifo:
  assumes "alloc_ok mem" "queue_inv q" "\<not> q_mutex q"
    "fifo_ok (q_item_size q) (queue_items q @ enqueued ops)"
    "fifo_run (enqueue_items mem) dequeue_items q ops = Some (out, q')"
  shows "out @ queue_items q' = queue_items q @ enqueued ops \<and> queue_inv q' \<and> \<not> q_mutex q'"
  using ring.run_keeps_order [of mem "q_item_size q" q ops out q'] assms by (simp add: fifo_inv_def)

text \<open>A sequence of enqueues and dequeues always runs to its end when the allocator grants what
  fits in memory: no fault, no refusal, no loop that does not stop.\<close>

theorem tsqueue_run_completes:
  assumes "alloc_grants mem" "queue_inv q" "\<not> q_mutex q"
    "fifo_ok (q_item_size q) (queue_items q @ enqueued ops)"
  shows "\<exists>out q'. fifo_run (enqueue_items mem) dequeue_items q ops = Some (out, q')"
  using granted_ring.run_returns [of mem "q_item_size q" q ops] assms
  by (auto simp: fifo_inv_def alloc_grants_def)

lemma sample_fifo_ok:
  "fifo_ok (q_item_size sample_queue)
     (queue_items sample_queue @ enqueued [Enq [[33], [44], [55]], Deq 4, Enq [[66]]])"
  by (simp add: sample_queue_inv fifo_ok_def)

theorem tsqueue_run_completes_witness:
  "\<exists>out q'. fifo_run (enqueue_items zero_alloc) dequeue_items sample_queue
     [Enq [[33], [44], [55]], Deq 4, Enq [[66]]] = Some (out, q')"
  by (rule tsqueue_run_completes [OF alloc_grants_zero_alloc sample_queue_inv(1,2) sample_fifo_ok])

theorem tsqueue_fifo_witness:
  "\<exists>out q'. fifo_run (enqueue_items zero_alloc) dequeue_items sample_queue
     [Enq [[33], [44], [55]], Deq 4, Enq [[66]]] = Some (out, q')
   \<and> out @ queue_items q' = [[11], [22], [33], [44], [55], [66]]"
proof -
  have inv: "alloc_grants zero_alloc \<and> fifo_inv zero_alloc 1 sample_queue"
    by (simp add: fifo_inv_def sample_queue_inv)
  have "fifo_ok 1 (queue_items sample_queue @ enqueued [Enq [[33], [44], [55]], Deq 4, Enq [[66]]])"
    by (simp add: sample_queue_inv fifo_ok_def)
  from granted_ring.run_returns [OF inv this]
  obtain out q' where "fifo_run (enqueue_items zero_alloc) dequeue_items sample_queue
     [Enq [[33], [44], [55]], Deq 4, Enq [[66]]] = Some (out, q')" by auto
  with tsqueue_fifo [OF alloc_ok_zero_alloc sample_queue_inv(1,2) sample_fifo_ok this] show ?thesis
    by (auto simp: sample_queue_inv)
qed

text \<open>\<open>enqueue\<close> appends its items behind what is queued, whole and in order, wherever head and
  tail stand in the ring and whether it grows or not; it grows only when the items do not fit,
  and then to less than twice what is needed. If the allocator refuses, it reports lack of
  memory. It never faults and always leaves the mutex free.\<close>

theorem tsqueue_enqueue_appends:
  assumes "queue_inv q" "\<not> q_mutex q" "alloc_ok mem" "unat n = length xs"
    "sized (unat (q_item_size q)) xs"
    "(unat (q_size q) + length xs) * unat (q_item_size q) \<le> 2 ^ 63"
  shows "\<exists>r q'. asock_tsqueue_enqueue mem q (Some (concat xs)) n = Inr (r, q') \<and> \<not> q_mutex q'
    \<and> (if r = ASOCK_SUCCESS
       then queue_inv q' \<and> queue_items q' = queue_items q @ xs
         \<and> (if unat (q_size q) + length xs \<le> unat (q_capacity q)
            then q_capacity q' = q_capacity q
            else unat (q_capacity q') < 2 * (unat (q_size q) + length xs))
       else r = ASOCK_ERR_NOMEM \<and> unat (q_capacity q) < unat (q_size q) + length xs)"
  using asock_tsqueue_enqueue_spec [OF assms]
proof (elim disjE conjE exE, goal_cases)
  case (1 nc)
  then show ?case using assms(2)
    by (intro exI [of _ ASOCK_ERR_NOMEM] exI [of _ "q\<lparr>q_data := None\<rparr>"]) (simp add: return_code_defs)
next
  case (2 q')
  then show ?case by (intro exI [of _ ASOCK_SUCCESS] exI [of _ q']) (simp add: not_le)
qed

theorem tsqueue_enqueue_appends_witness:
  "\<exists>r q'. asock_tsqueue_enqueue zero_alloc sample_queue (Some [33, 44, 55]) 3 = Inr (r, q')
    \<and> (r = 0 \<longrightarrow> queue_items q' = [[11], [22], [33], [44], [55]] \<and> unat (q_capacity q') < 10)"
  using tsqueue_enqueue_appends [of sample_queue zero_alloc 3 "[[33], [44], [55]]"]
  by (auto simp: sample_queue_inv return_code_defs)

text \<open>\<open>dequeue\<close> of \<open>n\<close> items removes the first \<open>min n size\<close> of them, returns that count,
  writes exactly their bytes to the start of the destination and leaves the rest of it alone; a
  null destination just drops them. The capacity stays and the mutex is free again.\<close>

theorem tsqueue_dequeue_takes_prefix:
  assumes "queue_inv q" "\<not> q_mutex q"
    "\<forall>buf. dst = Some buf \<longrightarrow> min (unat n) (unat (q_size q)) * unat (q_item_size q) \<le> length buf"
  shows "\<exists>count dst' q'. asock_tsqueue_dequeue q dst n = Inr (count, dst', q')
    \<and> unat count = min (unat n) (length (queue_items q))
    \<and> dst' = map_option (\<lambda>buf. splice buf 0 (concat (take (unat count) (queue_items q)))) dst
    \<and> queue_inv q' \<and> \<not> q_mutex q' \<and> queue_items q' = drop (unat count) (queue_items q)
    \<and> q_capacity q' = q_capacity q"
proof -
  let ?m = "min (unat n) (unat (q_size q))"
  have "unat (of_nat ?m :: size_t) = ?m"
    using queue_inv_numbers(3,5) [OF assms(1)] by (intro unat_of_nat_size) simp
  then show ?thesis using asock_tsqueue_dequeue_spec [OF assms(1,2), of dst n] assms(3) by fastforce
qed

theorem tsqueue_dequeue_takes_prefix_witness:
  "\<exists>count dst' q'. asock_tsqueue_dequeue sample_queue (Some [7, 7, 7]) 5 = Inr (count, dst', q')
    \<and> unat count = 2 \<and> dst' = Some [11, 22, 7] \<and> queue_items q' = []"
  using tsqueue_dequeue_takes_prefix [of sample_queue "Some [7, 7, 7]" 5]
  by (auto simp: sample_queue_inv splice_def)

text \<open>What the sender reads under the head lock: \<open>head_size\<close> is 0 exactly when nothing is
  queued, and otherwise the address \<open>head\<close> returns has that many queued items behind it in one
  piece, the oldest ones in order.\<close>

theorem tsqueue_head_is_prefix:
  assumes "queue_inv q"
  shows "(asock_tsqueue_head_size q = 0 \<longleftrightarrow> queue_items q = [])
    \<and> (asock_tsqueue_head q = None \<longleftrightarrow> queue_items q = [])
    \<and> (queue_items q \<noteq> [] \<longrightarrow> (\<exists>p. asock_tsqueue_head q = Some p \<and>
        mem_read (q_data q) p (q_item_size q * asock_tsqueue_head_size q)
        = Inr (concat (take (unat (asock_tsqueue_head_size q)) (queue_items q)))))"
  using asock_tsqueue_head_spec [OF assms]
  by (auto simp: unat_eq_zero asock_tsqueue_head_def queue_items_def split: if_splits)

theorem tsqueue_head_is_prefix_witness:
  "asock_tsqueue_head_size sample_queue = 1 \<and> (\<exists>p. asock_tsqueue_head sample_queue = Some p
    \<and> mem_read (q_data sample_queue) p 1 = Inr [11])"
proof -
  have "asock_tsqueue_head_size sample_queue = 1"
    by (simp add: asock_tsqueue_head_size_def sample_queue_def)
  with tsqueue_head_is_prefix [OF sample_queue_inv(1)] show ?thesis by (auto simp: sample_queue_inv)
qed

text \<open>\<open>for_each\<close> calls the function once per queued item, oldest first, with the item's index and
  an address that holds the item's bytes.\<close>

theorem tsqueue_for_each_visits_all:
  assumes "queue_inv q" "\<not> q_mutex q"
  shows "\<exists>calls. asock_tsqueue_for_each q = Inr calls \<and> length calls = length (queue_items q)
    \<and> (\<forall>k < length calls. snd (calls ! k) = of_nat k
        \<and> mem_read (q_data q) (fst (calls ! k)) (q_item_size q) = Inr (queue_items q ! k))"
  using asock_tsqueue_for_each_spec [OF assms] .

theorem tsqueue_for_each_visits_all_witness:
  "\<exists>calls. asock_tsqueue_for_each sample_queue = Inr calls \<and> length calls = 2
    \<and> mem_read (q_data sample_queue) (fst (calls ! 1)) 1 = Inr [22]"
  using tsqueue_for_each_visits_all [OF sample_queue_inv(1,2)]
  by (auto simp: sample_queue_inv)

text \<open>C28. \<open>create\<close> returns exactly for capacities up to \<open>2 ^ 63\<close>; for a larger one the shifted capacity
  becomes 0 and the loop of line 61 never ends.\<close>

theorem tsqueue_create_returns_iff:
  "asock_tsqueue_create mem mutex_ok item_size capacity = Inl Diverges \<longleftrightarrow> 2 ^ 63 < unat capacity"
proof (cases "2 ^ 63 < unat capacity")
  case True
  then show ?thesis by (simp add: asock_tsqueue_create_def right_loop.loop_diverges)
next
  case False
  then obtain r where "right_capacity_loop 1 capacity = Some r"
    using right_loop.loop_reaches [of 1 0 capacity] by auto
  with False show ?thesis by (auto simp: asock_tsqueue_create_def Let_def split: option.splits)
qed

text \<open>C29. A queue that \<open>create\<close> returns is empty and well-formed, and its capacity is the smallest
  power of two that is at least the one asked for.\<close>

theorem tsqueue_create_capacity:
  assumes "alloc_ok mem" "item_size \<noteq> 0" "unat capacity \<le> 2 ^ 63"
    "2 * unat capacity * unat item_size < 2 ^ 64"
    "asock_tsqueue_create mem mutex_ok item_size capacity = Inr (Some q)"
  shows "queue_inv q \<and> queue_items q = [] \<and> \<not> q_mutex q
    \<and> (\<exists>k. unat (q_capacity q) = 2 ^ k \<and> unat capacity \<le> 2 ^ k \<and> (\<forall>i < k. 2 ^ i < unat capacity))"
  using asock_tsqueue_create_spec [OF assms(1-4), of mutex_ok] assms(5)
    unsigned_less [of item_size, where 'a = nat] by auto

theorem tsqueue_create_capacity_witness:
  "\<exists>q. asock_tsqueue_create zero_alloc True 2 10 = Inr (Some q) \<and> queue_inv q \<and> queue_items q = []
    \<and> unat (q_capacity q) = 16"
proof -
  let ?q = "\<lparr>q_data = Some (replicate 32 0), q_size = 0, q_capacity = 16, q_item_size = 2,
     q_tail_pos = 0, q_head_pos = 0, q_mutex = False\<rparr>"
  have "asock_tsqueue_create zero_alloc True 2 10 = Inr (Some ?q)"
    by (simp add: asock_tsqueue_create_def right_capacity_loop.simps zero_alloc_def PTRDIFF_MAX_def
        push_bit_eq_mult)
  with tsqueue_create_capacity [OF alloc_ok_zero_alloc _ _ _ this] show ?thesis by auto
qed

text \<open>C40. When growing is refused, \<open>enqueue\<close> reports it but has already overwritten the pointer to
  the data with null and kept the size: what was queued is lost, and reading it faults.\<close>

theorem tsqueue_refused_growth_loses_data:
  assumes "queue_inv q" "\<not> q_mutex q" "unat n = length xs" "sized (unat (q_item_size q)) xs"
    "(unat (q_size q) + length xs) * unat (q_item_size q) \<le> 2 ^ 63"
    "unat (q_capacity q) < unat (q_size q) + length xs"
  shows "\<exists>q'. asock_tsqueue_enqueue null_alloc q (Some (concat xs)) n = Inr (ASOCK_ERR_NOMEM, q')
    \<and> asock_tsqueue_size q' = asock_tsqueue_size q
    \<and> asock_tsqueue_dequeue q' (Some buf) m = Inl Null_Deref"
proof -
  let ?q' = "q\<lparr>q_data := None\<rparr>"
  have "mem_copy dst off None o' k = Inl Null_Deref" for dst off o' k
    by (simp add: mem_copy_def mem_read_def)
  then have "asock_tsqueue_dequeue ?q' (Some buf) m = Inl Null_Deref"
    using assms(2) by (simp add: asock_tsqueue_dequeue_def tsqueue_take_def Let_def)
  moreover have "asock_tsqueue_enqueue null_alloc q (Some (concat xs)) n = Inr (ASOCK_ERR_NOMEM, ?q')"
  proof -
    let ?ql = "q\<lparr>q_mutex := True\<rparr>"
    have "unat (q_size q + n) = unat (q_size q) + length xs"
    proof -
      have "0 < unat (q_item_size q)" using queue_inv_numbers(1) [OF assms(1)] .
      then have "unat (q_size q) + length xs \<le> 2 ^ 63"
        using assms(5) by (metis One_nat_def Suc_leI le_trans mult.right_neutral mult_le_mono2)
      then show ?thesis using assms(3) by (subst unat_add_exact) simp_all
    qed
    moreover have "tsqueue_grow null_alloc ?ql n = Inr (ASOCK_ERR_NOMEM, ?ql\<lparr>q_data := None\<rparr>)"
    proof -
      have "queue_inv ?ql" using assms(1) by simp
      from tsqueue_grow_spec [OF this alloc_ok_null_alloc, of n] assms
      show ?thesis by (auto simp: null_alloc_def tsqueue_grow_def tsqueue_reallocate_def
          realloc_block_def Let_def return_code_defs split: option.splits)
    qed
    ultimately show ?thesis using assms(2,6)
      by (simp add: asock_tsqueue_enqueue_def word_less_nat_alt queue_unlock_def return_code_defs)
  qed
  ultimately show ?thesis by (auto simp: asock_tsqueue_size_def)
qed

theorem tsqueue_refused_growth_loses_data_witness:
  "\<exists>q'. asock_tsqueue_enqueue null_alloc sample_queue (Some [33, 44, 55]) 3 = Inr (1, q')
    \<and> asock_tsqueue_size q' = 2 \<and> asock_tsqueue_dequeue q' (Some [0]) 1 = Inl Null_Deref"
  using tsqueue_refused_growth_loses_data [of sample_queue 3 "[[33], [44], [55]]" "[0]" 1]
  by (simp add: sample_queue_inv return_code_defs asock_tsqueue_size_def)

end
