(* ===== verification/Asock_World.thy ===== *)
theory Asock_World
  imports Asock_Connections Asock_Tsqueue
begin

text \<open>
  What the library's threads share outside their own structs: the operating system, reached by
  system calls, the heap of \<open>asock_t\<close> objects (\<open>src/asock_impl.h\<close>) and the counters of
  \<open>src/asock_impl.c\<close>. The kernel is a parameter: any function of the calls made so far. Every
  call is written to a log with its result, newest first.
\<close>

section \<open>System calls\<close>

text \<open>A call returns a value, or -1 with an error number.\<close>

datatype sysres = Ret int | Err int

datatype call =
    Socket int int int | Setsockopt int | Bind int "byte list" | Listen int | Connect int "byte list"
  | Accept int | Fcntl_Getfl int | Fcntl_Setfl int int | Getsockopt_Error int
  | Epoll_Create | Epoll_Add int int "32 word" | Epoll_Wait int
  | Read int nat | Send int "byte list" | Close int | Open string | Setns int
  | Thread_Create

type_synonym syslog = "(call \<times> sysres) list"

text \<open>
  The answers: \<open>k_ret\<close> the return value of a call; \<open>k_data\<close> the bytes a \<open>read\<close> delivers,
  \<open>k_peer\<close> the address an \<open>accept\<close> fills in, \<open>k_events\<close> the array \<open>epoll_wait\<close> fills in
  (descriptor and event mask); \<open>k_malloc\<close> the memory \<open>malloc\<close> hands out, counted over the whole
  run, \<open>k_new\<close> the address it returns for a new \<open>asock_t\<close>, 0 when it refuses, given the addresses
  in use; \<open>k_mutex_init\<close> whether \<open>pthread_mutex_init\<close> succeeds.
\<close>

record kernel =
  k_ret :: "syslog \<Rightarrow> call \<Rightarrow> sysres"
  k_data :: "syslog \<Rightarrow> int \<Rightarrow> byte list"
  k_peer :: "syslog \<Rightarrow> int \<Rightarrow> byte list"
  k_events :: "syslog \<Rightarrow> (int \<times> 32 word) list"
  k_malloc :: allocator
  k_new :: "(ptr \<Rightarrow> bool) \<Rightarrow> nat \<Rightarrow> ptr"
  k_mutex_init :: "nat \<Rightarrow> bool"

definition EAGAIN :: int where "EAGAIN = 11"
definition EMFILE :: int where "EMFILE = 24"
definition EWOULDBLOCK :: int where "EWOULDBLOCK = 11"
definition EINPROGRESS :: int where "EINPROGRESS = 115"

definition EPOLLIN :: "32 word" where "EPOLLIN = 1"
definition EPOLLPRI :: "32 word" where "EPOLLPRI = 2"
definition EPOLLOUT :: "32 word" where "EPOLLOUT = 4"
definition EPOLLERR :: "32 word" where "EPOLLERR = 8"
definition EPOLLHUP :: "32 word" where "EPOLLHUP = 16"
definition EPOLLET :: "32 word" where "EPOLLET = 2147483648"

definition O_NONBLOCK :: int where "O_NONBLOCK = 2048"

type_synonym socklen_t = "32 word"

text \<open>What the kernel reads behind a pointer and a length: at most the bytes that are there.\<close>

definition user_bytes :: "block \<Rightarrow> socklen_t \<Rightarrow> byte list" where
  "user_bytes addr len = (case addr of None \<Rightarrow> [] | Some b \<Rightarrow> take (unat len) b)"

section \<open>Connections\<close>

datatype AsockConState = Idle | InProgress | Established | Failed

text \<open>
  \<open>struct asock\<close>. The queues are owned by the object and live and die with it. The mutex of the
  reference counter only ever guards one straight-line section and is part of that section's
  atomicity here.
\<close>

record asock =
  m_sock_desc :: int
  m_connection_id :: "64 word"
  m_master_id :: "32 word"
  m_state :: AsockConState
  m_disconnect :: bool
  m_in_queue :: asock_tsqueue
  m_out_queue :: asock_tsqueue
  m_ref_counter :: int
  m_peer_addr :: block
  m_peer_addrlen :: socklen_t
  m_host_addr :: block
  m_host_addrlen :: socklen_t
  m_net_ns :: "string option"

record world =
  w_log :: syslog
  w_allocs :: nat
  w_asocks :: "ptr \<Rightarrow> asock option"
  w_cons_number :: "64 word"
  w_services_created :: "32 word"

section \<open>Primitive operations\<close>

definition syscall :: "kernel \<Rightarrow> call \<Rightarrow> (world, sysres) op" where
  "syscall K c w = (let r = k_ret K (w_log w) c in Inr (r, w\<lparr>w_log := (c, r) # w_log w\<rparr>))"

text \<open>\<open>malloc\<close> and the allocator an operation with several allocations gets.\<close>

definition malloc :: "kernel \<Rightarrow> size_t \<Rightarrow> (world, block) op" where
  "malloc K n w = Inr (k_malloc K (w_allocs w) n, w\<lparr>w_allocs := Suc (w_allocs w)\<rparr>)"

text \<open>A copy of a string, if there is memory for it and its terminating zero.\<close>

definition strdup :: "kernel \<Rightarrow> string \<Rightarrow> (world, string option) op" where
  "strdup K s =
     bindM (malloc K (of_nat (Suc (length s)))) (\<lambda>b. returnM (map_option (\<lambda>_. s) b))"

definition allocator_at :: "kernel \<Rightarrow> world \<Rightarrow> allocator" where
  "allocator_at K w = (\<lambda>i. k_malloc K (w_allocs w + i))"

definition bump_allocs :: "nat \<Rightarrow> (world, unit) op" where
  "bump_allocs n = modifyM (\<lambda>w. w\<lparr>w_allocs := w_allocs w + n\<rparr>)"

text \<open>Reading and writing an object through a pointer: null and freed objects fault.\<close>

definition deref :: "world \<Rightarrow> ptr \<Rightarrow> asock res" where
  "deref w p =
     (if p = 0 then Inl Null_Deref
      else case w_asocks w p of None \<Rightarrow> Inl Use_After_Free | Some a \<Rightarrow> Inr a)"

definition read_asock :: "ptr \<Rightarrow> (world, asock) op" where
  "read_asock p = liftR (\<lambda>w. deref w p)"

definition update_asock :: "ptr \<Rightarrow> (asock \<Rightarrow> asock) \<Rightarrow> (world, unit) op" where
  "update_asock p f =
     bindM (read_asock p) (\<lambda>a. modifyM (\<lambda>w. w\<lparr>w_asocks := (w_asocks w)(p \<mapsto> f a)\<rparr>))"

text \<open>The address for a new object, and the object itself once its fields are set.\<close>

definition new_asock :: "kernel \<Rightarrow> (world, ptr) op" where
  "new_asock K w =
     Inr (k_new K (\<lambda>p. w_asocks w p \<noteq> None) (w_allocs w), w\<lparr>w_allocs := Suc (w_allocs w)\<rparr>)"

definition put_asock :: "ptr \<Rightarrow> asock \<Rightarrow> (world, unit) op" where
  "put_asock p a = modifyM (\<lambda>w. w\<lparr>w_asocks := (w_asocks w)(p \<mapsto> a)\<rparr>)"

definition free_asock :: "ptr \<Rightarrow> (world, unit) op" where
  "free_asock p = modifyM (\<lambda>w. w\<lparr>w_asocks := (w_asocks w)(p := None)\<rparr>)"

lemma wp_syscall [wp_simps]:
  "wp F (syscall K c) Q w =
    Q (k_ret K (w_log w) c) (w\<lparr>w_log := (c, k_ret K (w_log w) c) # w_log w\<rparr>)"
  by (simp add: wp_def syscall_def Let_def)

lemma wp_malloc [wp_simps]:
  "wp F (malloc K n) Q w = Q (k_malloc K (w_allocs w) n) (w\<lparr>w_allocs := Suc (w_allocs w)\<rparr>)"
  by (simp add: wp_def malloc_def)

lemma wp_bump [wp_simps]: "wp F (bump_allocs n) Q w = Q () (w\<lparr>w_allocs := w_allocs w + n\<rparr>)"
  by (simp add: bump_allocs_def wp_simps)

lemma wp_read_asock [wp_simps]:
  "p \<noteq> 0 \<Longrightarrow> w_asocks w p = Some a \<Longrightarrow> wp F (read_asock p) Q w = Q a w"
  by (simp add: read_asock_def deref_def wp_simps)

lemma wp_update_asock [wp_simps]:
  "p \<noteq> 0 \<Longrightarrow> w_asocks w p = Some a \<Longrightarrow>
    wp F (update_asock p f) Q w = Q () (w\<lparr>w_asocks := (w_asocks w)(p \<mapsto> f a)\<rparr>)"
  by (simp add: update_asock_def wp_simps)

lemma wp_update_freed [wp_simps]:
  "p \<noteq> 0 \<Longrightarrow> w_asocks w p = None \<Longrightarrow> wp F (update_asock p f) Q w = F Use_After_Free"
  by (simp add: update_asock_def read_asock_def deref_def wp_simps)

lemma wp_new_asock [wp_simps]:
  "wp F (new_asock K) Q w = Q (k_new K (\<lambda>p. w_asocks w p \<noteq> None) (w_allocs w))
    (w\<lparr>w_allocs := Suc (w_allocs w)\<rparr>)"
  by (simp add: wp_def new_asock_def)

lemma wp_put_asock [wp_simps]:
  "wp F (put_asock p a) Q w = Q () (w\<lparr>w_asocks := (w_asocks w)(p \<mapsto> a)\<rparr>)"
  by (simp add: put_asock_def wp_simps)

lemma wp_free_asock [wp_simps]:
  "wp F (free_asock p) Q w = Q () (w\<lparr>w_asocks := (w_asocks w)(p := None)\<rparr>)"
  by (simp add: free_asock_def wp_simps)

section \<open>What the log says\<close>

text \<open>The bytes the kernel took on a descriptor, in order, how often it was closed, and how many
  connections were accepted.\<close>

fun sent :: "int \<Rightarrow> syslog \<Rightarrow> byte list" where
  "sent fd [] = []"
| "sent fd ((Send fd' bs, Ret n) # l) = sent fd l @ (if fd' = fd then take (nat n) bs else [])"
| "sent fd (_ # l) = sent fd l"

text \<open>The bytes the kernel delivered on a descriptor.\<close>

fun got :: "kernel \<Rightarrow> int \<Rightarrow> syslog \<Rightarrow> byte list" where
  "got K fd [] = []"
| "got K fd ((Read fd' n, Ret c) # l) = got K fd l @ (if fd' = fd then take (nat c) (k_data K l fd) else [])"
| "got K fd (_ # l) = got K fd l"

text \<open>Both directions at once: what was taken and what was delivered.\<close>

definition traffic :: "int \<Rightarrow> syslog \<Rightarrow> byte list \<times> (kernel \<Rightarrow> byte list)" where
  "traffic fd l = (sent fd l, \<lambda>K. got K fd l)"

lemma trafficD: "traffic fd l' = traffic fd l \<Longrightarrow> sent fd l' = sent fd l" "traffic fd l' = traffic fd l \<Longrightarrow> got K fd l' = got K fd l"
  by (auto simp: traffic_def dest: fun_cong)

lemma traffic_other [simp]:
  "(\<And>fd' bs. c \<noteq> Send fd' bs) \<Longrightarrow> (\<And>fd' n. c \<noteq> Read fd' n) \<Longrightarrow> traffic fd ((c, r) # l) = traffic fd l"
  by (cases c) (auto simp: traffic_def)

lemma traffic_err [simp]: "traffic fd ((c, Err e) # l) = traffic fd l"
  by (cases c) (simp_all add: traffic_def)

fun closes :: "int \<Rightarrow> syslog \<Rightarrow> nat" where
  "closes fd [] = 0"
| "closes fd ((Close fd', r) # l) = closes fd l + (if fd' = fd then 1 else 0)"
| "closes fd (_ # l) = closes fd l"

fun accepted :: "syslog \<Rightarrow> nat" where
  "accepted [] = 0"
| "accepted ((Accept s, Ret n) # l) = accepted l + 1"
| "accepted (_ # l) = accepted l"

text \<open>The descriptors that were opened and not closed since.\<close>

fun is_open :: "int \<Rightarrow> syslog \<Rightarrow> bool" where
  "is_open fd [] = False"
| "is_open fd ((Close fd', r) # l) = (fd' \<noteq> fd \<and> is_open fd l)"
| "is_open fd ((Socket d t p, Ret n) # l) = (n = fd \<or> is_open fd l)"
| "is_open fd ((Accept s, Ret n) # l) = (n = fd \<or> is_open fd l)"
| "is_open fd ((Epoll_Create, Ret n) # l) = (n = fd \<or> is_open fd l)"
| "is_open fd ((Open path, Ret n) # l) = (n = fd \<or> is_open fd l)"
| "is_open fd (_ # l) = is_open fd l"

text \<open>Calls in between that neither sent nor received, nor opened or closed anything.\<close>

definition quiet :: "syslog \<Rightarrow> syslog \<Rightarrow> bool" where
  "quiet l l' \<longleftrightarrow>
     accepted l' = accepted l
     \<and> (\<forall>fd. traffic fd l' = traffic fd l \<and> closes fd l' = closes fd l \<and> is_open fd l' = is_open fd l)"

text \<open>Calls that delivered \<open>bs\<close> on one descriptor.\<close>

definition reading :: "kernel \<Rightarrow> int \<Rightarrow> byte list \<Rightarrow> syslog \<Rightarrow> syslog \<Rightarrow> bool" where
  "reading K fd bs l l' \<longleftrightarrow>
     accepted l' = accepted l
     \<and> (\<forall>d. sent d l' = sent d l \<and> closes d l' = closes d l \<and> is_open d l' = is_open d l
          \<and> got K d l' = got K d l @ (if d = fd then bs else []))"

lemma reading_refl [simp]: "reading K fd [] l l"
  by (simp add: reading_def)

lemma reading_trans: "reading K fd bs l l1 \<Longrightarrow> reading K fd cs l1 l2 \<Longrightarrow> reading K fd (bs @ cs) l l2"
  by (simp add: reading_def)

lemma reading_read:
  "reading K fd [] l ((Read fd n, Err e) # l)" "reading K fd [] l ((Read fd n, Ret 0) # l)"
  "reading K fd (take (nat c) (k_data K l fd)) l ((Read fd n, Ret c) # l)"
  by (simp_all add: reading_def)

text \<open>A call that opens a descriptor.\<close>

fun opens :: "call \<Rightarrow> bool" where
  "opens (Socket d t p) = True"
| "opens (Accept s) = True"
| "opens Epoll_Create = True"
| "opens (Open path) = True"
| "opens _ = False"

text \<open>
  Documented behaviour of the calls: a new descriptor is a small non-negative number that is not
  open, \<open>send\<close> takes at
  most what it is given, \<open>read\<close> delivers exactly as many bytes as it reports and at most as many
  as were asked for, memory behaves as \<open>alloc_ok\<close> says, and an object gets an address no other
  object has.
\<close>

definition kernel_ok :: "kernel \<Rightarrow> bool" where
  "kernel_ok K \<longleftrightarrow> alloc_ok (k_malloc K)
     \<and> (\<forall>live i. k_new K live i \<noteq> 0 \<longrightarrow> \<not> live (k_new K live i))
     \<and> (\<forall>l c r. opens c \<longrightarrow> k_ret K l c = Ret r \<longrightarrow> 0 \<le> r \<and> r < 2 ^ 31 \<and> \<not> is_open r l)
     \<and> (\<forall>l fd bs r. k_ret K l (Send fd bs) = Ret r \<longrightarrow> 0 \<le> r \<and> r \<le> int (length bs))
     \<and> (\<forall>l fd n r. k_ret K l (Read fd n) = Ret r \<longrightarrow>
           0 \<le> r \<and> r \<le> int n \<and> int (length (k_data K l fd)) = r)"

lemma allocator_at_ok: "kernel_ok K \<Longrightarrow> alloc_ok (allocator_at K w)"
  by (simp add: kernel_ok_def alloc_ok_def allocator_at_def)

lemma kernel_okD:
  assumes "kernel_ok K"
  shows "opens c \<Longrightarrow> k_ret K l c = Ret r \<Longrightarrow> 0 \<le> r \<and> r < 2 ^ 31 \<and> \<not> is_open r l"
    "k_ret K l (Send fd bs) = Ret r \<Longrightarrow> 0 \<le> r \<and> r \<le> int (length bs)"
    "k_ret K l (Read fd n) = Ret r \<Longrightarrow> 0 \<le> r \<and> r \<le> int n \<and> int (length (k_data K l fd)) = r"
  using assms unfolding kernel_ok_def by blast+

text \<open>A kernel every call of which succeeds: descriptors are counted up from 3, \<open>send\<close> takes
  everything, nothing arrives, memory is granted.\<close>

fun next_fd :: "syslog \<Rightarrow> int" where
  "next_fd [] = 3"
| "next_fd ((c, Ret n) # l) = max (n + 1) (next_fd l)"
| "next_fd ((c, Err e) # l) = next_fd l"

lemma next_fd_fresh: "is_open fd l \<Longrightarrow> fd < next_fd l"
proof (induction l)
  case (Cons x l)
  obtain c r where x: "x = (c, r)" by (cases x)
  show ?case
  proof (cases r)
    case (Ret n)
    with Cons x show ?thesis by (cases c) (auto simp: max_def)
  next
    case (Err e)
    with Cons x show ?thesis by (cases c) auto
  qed
qed simp

lemma next_fd_pos: "3 \<le> next_fd l"
  by (induction l rule: next_fd.induct) auto

definition fresh_fd :: "syslog \<Rightarrow> sysres" where
  "fresh_fd l = (if next_fd l < 2 ^ 31 then Ret (next_fd l) else Err EMFILE)"

fun calm_ret :: "syslog \<Rightarrow> call \<Rightarrow> sysres" where
  "calm_ret l (Socket d t p) = fresh_fd l"
| "calm_ret l Epoll_Create = fresh_fd l"
| "calm_ret l (Open path) = fresh_fd l"
| "calm_ret l (Accept s) = Err EAGAIN"
| "calm_ret l (Send fd bs) = Ret (int (length bs))"
| "calm_ret l (Read fd n) = Err EAGAIN"
| "calm_ret l c = Ret 0"

definition calm_kernel :: kernel where
  "calm_kernel = \<lparr>k_ret = calm_ret, k_data = (\<lambda>_ _. []), k_peer = (\<lambda>_ _. []), k_events = (\<lambda>_. []),
     k_malloc = zero_alloc, k_new = (\<lambda>live i. if live (of_nat (Suc i)) then 0 else of_nat (Suc i)),
     k_mutex_init = (\<lambda>_. True)\<rparr>"

definition empty_world :: world where
  "empty_world = \<lparr>w_log = [], w_allocs = 0, w_asocks = (\<lambda>_. None), w_cons_number = 0,
     w_services_created = 0\<rparr>"

lemma fresh_fd_open: "fresh_fd l = Ret r \<Longrightarrow> 0 \<le> r \<and> r < 2 ^ 31 \<and> \<not> is_open r l"
  using next_fd_fresh [of r l] next_fd_pos [of l] by (auto simp: fresh_fd_def split: if_splits)

lemma calm_ret_opens: "opens c \<Longrightarrow> calm_ret l c = Ret r \<Longrightarrow> 0 \<le> r \<and> r < 2 ^ 31 \<and> \<not> is_open r l"
  using fresh_fd_open [of l r] by (cases c) simp_all

lemma calm_kernel_ok [simp]: "kernel_ok calm_kernel"
proof -
  have "\<forall>l c r. opens c \<longrightarrow> calm_ret l c = Ret r \<longrightarrow> 0 \<le> r \<and> r < 2 ^ 31 \<and> \<not> is_open r l"
    using calm_ret_opens by blast
  then show ?thesis by (simp add: kernel_ok_def calm_kernel_def)
qed

end
