(* ===== verification/Asock_Utils.thy ===== *)
theory Asock_Utils
  imports Asock_World
begin

text \<open>
  \<open>src/asock_utils.c\<close>: the wrappers around socket calls. They keep no state; each is the
  sequence of system calls it makes. The event mask and the descriptor of \<open>epoll_ctl\<close> are the
  arguments of \<open>Epoll_Add\<close>; \<open>EPOLLET\<close> is part of every mask the library registers.
\<close>

definition make_socket_non_blocking :: "kernel \<Rightarrow> int \<Rightarrow> (world, AsockReturnCode) op" where
  "make_socket_non_blocking K sfd =
     bindM (syscall K (Fcntl_Getfl sfd)) (\<lambda>r.
       case r of
         Err _ \<Rightarrow> returnM ASOCK_FAILURE
       | Ret flags \<Rightarrow>
           bindM (syscall K (Fcntl_Setfl sfd (or flags O_NONBLOCK))) (\<lambda>s.
             case s of Err _ \<Rightarrow> returnM ASOCK_FAILURE | Ret _ \<Rightarrow> returnM ASOCK_SUCCESS))"

definition add_socket_to_epoll :: "kernel \<Rightarrow> int \<Rightarrow> int \<Rightarrow> (world, int) op" where
  "add_socket_to_epoll K epolld sfd =
     bindM (syscall K (Epoll_Add epolld sfd (or EPOLLOUT (or EPOLLIN EPOLLET)))) (\<lambda>status.
       case status of Err _ \<Rightarrow> returnM (- 1) | Ret _ \<Rightarrow> returnM 0)"

definition add_socket_to_epoll_server :: "kernel \<Rightarrow> int \<Rightarrow> int \<Rightarrow> (world, int) op" where
  "add_socket_to_epoll_server K epolld sfd =
     bindM (syscall K (Epoll_Add epolld sfd (or EPOLLIN EPOLLET))) (\<lambda>status.
       case status of Err _ \<Rightarrow> returnM (- 1) | Ret _ \<Rightarrow> returnM 0)"

text \<open>\<open>sockaddr_in\<close> as the kernel reads it on a little-endian machine: family 2, port 0, the
  address in network order, eight bytes of padding the code leaves uninitialised (a parameter).\<close>

definition bind_socket_to_ip_address ::
    "kernel \<Rightarrow> byte list \<Rightarrow> int \<Rightarrow> 32 word \<Rightarrow> (world, AsockReturnCode) op" where
  "bind_socket_to_ip_address K padding sock_d host_order_ip_address =
     bindM (syscall K (Bind sock_d ([2, 0, 0, 0]
         @ map (\<lambda>i. ucast (drop_bit (8 * (3 - i)) host_order_ip_address)) [0, 1, 2, 3] @ padding)))
       (\<lambda>r. case r of Ret _ \<Rightarrow> returnM ASOCK_SUCCESS | Err _ \<Rightarrow> returnM ASOCK_FAILURE)"

definition create_and_bind ::
    "kernel \<Rightarrow> int \<Rightarrow> int \<Rightarrow> int \<Rightarrow> block \<Rightarrow> socklen_t \<Rightarrow> (world, int) op" where
  "create_and_bind K domain type protocol addr addrlen =
     bindM (syscall K (Socket domain type protocol)) (\<lambda>r.
       case r of
         Err _ \<Rightarrow> returnM (- 1)
       | Ret sock_d \<Rightarrow>
           bindM (syscall K (Setsockopt sock_d)) (\<lambda>r.
             case r of
               Err _ \<Rightarrow> bindM (syscall K (Close sock_d)) (\<lambda>_. returnM (- 1))
             | Ret _ \<Rightarrow>
                 bindM (syscall K (Bind sock_d (user_bytes addr addrlen))) (\<lambda>r.
                   case r of
                     Err _ \<Rightarrow> bindM (syscall K (Close sock_d)) (\<lambda>_. returnM (- 1))
                   | Ret _ \<Rightarrow> returnM sock_d)))"

text \<open>
  The calls only add to the log and send nothing: any property of a world that does not look at
  the log, or looks at what was sent, survives them.
\<close>

lemma wp_make_socket_non_blocking:
  "wp F (make_socket_non_blocking K sfd)
     (\<lambda>r w'. (r = ASOCK_SUCCESS \<or> r = ASOCK_FAILURE) \<and> quiet (w_log w) (w_log w') \<and> w' = w\<lparr>w_log := w_log w'\<rparr>) w"
  by (cases "k_ret K (w_log w) (Fcntl_Getfl sfd)")
    (auto simp: make_socket_non_blocking_def wp_simps quiet_def split: sysres.splits)

lemma wp_add_socket_to_epoll:
  "wp F (add_socket_to_epoll K epolld sfd)
     (\<lambda>r w'. (r = 0 \<or> r = - 1) \<and> quiet (w_log w) (w_log w') \<and> w' = w\<lparr>w_log := w_log w'\<rparr>) w"
  by (auto simp: add_socket_to_epoll_def wp_simps quiet_def split: sysres.splits)

lemma wp_add_socket_to_epoll_server:
  "wp F (add_socket_to_epoll_server K epolld sfd)
     (\<lambda>r w'. (r = 0 \<or> r = - 1) \<and> quiet (w_log w) (w_log w') \<and> w' = w\<lparr>w_log := w_log w'\<rparr>) w"
  by (auto simp: add_socket_to_epoll_server_def wp_simps quiet_def split: sysres.splits)

text \<open>A descriptor \<open>create_and_bind\<close> opened is either returned or closed again.\<close>

lemma wp_create_and_bind:
  "wp F (create_and_bind K domain type protocol addr addrlen)
     (\<lambda>r w'. \<exists>l. w' = w\<lparr>w_log := l\<rparr> \<and>
        (case k_ret K (w_log w) (Socket domain type protocol) of
           Err _ \<Rightarrow> r = - 1 \<and> (\<forall>fd. closes fd l = closes fd (w_log w))
         | Ret d \<Rightarrow> (r = d \<and> (\<forall>fd. closes fd l = closes fd (w_log w)))
             \<or> (r = - 1 \<and> (\<forall>fd. closes fd l = closes fd (w_log w) + (if fd = d then 1 else 0))))) w"
  by (auto simp: create_and_bind_def wp_simps split: sysres.splits)

end
