(* ===== verification/Asock_Impl.thy ===== *)
theory Asock_Impl
  imports Asock_Utils
begin

text \<open>
  \<open>src/asock_impl.c\<close>, the part that deals with single connections: creating, destroying and
  counting references to \<open>asock_t\<close> objects, and reading and writing their queues. The calls that
  go through a service are in theory Asock_Library. The queues carry single bytes; their contents
  are \<open>queue_data\<close>.
\<close>

section \<open>Queues of bytes\<close>

definition queue_data :: "asock_tsqueue \<Rightarrow> byte list" where
  "queue_data q = concat (queue_items q)"

definition byte_queue_ok :: "asock_tsqueue \<Rightarrow> bool" where
  "byte_queue_ok q \<longleftrightarrow> queue_inv q \<and> \<not> q_mutex q \<and> q_item_size q = 1"

lemma sized_singletons: "sized (Suc 0) (map (\<lambda>b. [b]) bs)"
  by (induction bs) (simp_all add: sized_def)

lemma concat_singletons [simp]: "concat (map (\<lambda>b. [b]) bs) = bs"
  by (induction bs) simp_all

lemma byte_queue_items:
  assumes "byte_queue_ok q"
  shows "sized 1 (queue_items q)" "length (queue_data q) = unat (q_size q)"
    "concat (take n (queue_items q)) = take n (queue_data q)"
    "concat (drop n (queue_items q)) = drop n (queue_data q)"
proof -
  show s: "sized 1 (queue_items q)"
    using sized_queue_items [of q] assms by (simp add: byte_queue_ok_def)
  show "length (queue_data q) = unat (q_size q)"
    using length_concat_sized [OF s] by (simp add: queue_data_def)
  show "concat (take n (queue_items q)) = take n (queue_data q)"
    "concat (drop n (queue_items q)) = drop n (queue_data q)"
    using take_concat_sized [OF s, of n] drop_concat_sized [OF s, of n] by (simp_all add: queue_data_def)
qed

lemma byte_enqueue:
  assumes q: "byte_queue_ok q" and mem: "alloc_ok mem" and n: "unat n = length bs"
    and bound: "length (queue_data q) + length bs \<le> 2 ^ 63"
  shows "asock_tsqueue_enqueue mem q (Some bs) n = Inr (ASOCK_ERR_NOMEM, q\<lparr>q_data := None\<rparr>)
    \<or> (\<exists>q'. asock_tsqueue_enqueue mem q (Some bs) n = Inr (ASOCK_SUCCESS, q')
          \<and> byte_queue_ok q' \<and> queue_data q' = queue_data q @ bs)"
proof -
  have w: "q_item_size q = 1" "queue_inv q" "\<not> q_mutex q" using q by (simp_all add: byte_queue_ok_def)
  show ?thesis
    using asock_tsqueue_enqueue_spec [OF w(2,3) mem, of n "map (\<lambda>b. [b]) bs"] n bound w
      byte_queue_items(2) [OF q] sized_singletons [of bs]
    by (auto simp: byte_queue_ok_def queue_data_def)
qed

text \<open>With room in the ring no allocation is made and the bytes are always taken.\<close>

lemma byte_enqueue_room:
  assumes q: "byte_queue_ok q" and mem: "alloc_ok mem" and n: "unat n = length bs"
    and room: "length (queue_data q) + length bs \<le> unat (q_capacity q)"
  shows "\<exists>q'. asock_tsqueue_enqueue mem q (Some bs) n = Inr (ASOCK_SUCCESS, q')
          \<and> byte_queue_ok q' \<and> queue_data q' = queue_data q @ bs \<and> q_capacity q' = q_capacity q"
proof -
  have w: "q_item_size q = 1" "queue_inv q" "\<not> q_mutex q" using q by (simp_all add: byte_queue_ok_def)
  have "length (queue_data q) + length bs \<le> 2 ^ 63"
    using room queue_inv_numbers(5) [OF w(2)] by simp
  then show ?thesis
    using asock_tsqueue_enqueue_spec [OF w(2,3) mem, of n "map (\<lambda>b. [b]) bs"] n room w
      byte_queue_items(2) [OF q] sized_singletons [of bs]
    by (auto simp: byte_queue_ok_def queue_data_def)
qed

lemma byte_enqueue_granted:
  assumes q: "byte_queue_ok q" and mem: "alloc_grants mem" and n: "unat n = length bs"
    and bound: "length (queue_data q) + length bs \<le> 2 ^ 62"
  shows "\<exists>q'. asock_tsqueue_enqueue mem q (Some bs) n = Inr (ASOCK_SUCCESS, q')
          \<and> byte_queue_ok q' \<and> queue_data q' = queue_data q @ bs"
proof -
  let ?xs = "map (\<lambda>b. [b]) bs"
  have ok: "alloc_ok mem" using mem by (simp add: alloc_grants_def)
  have inv: "fifo_inv mem 1 q" using q ok by (simp add: fifo_inv_def byte_queue_ok_def)
  have len: "length (queue_items q) = length (queue_data q)" using byte_queue_items(2) [OF q] by simp
  have "sized 1 (queue_items q @ ?xs)"
    using byte_queue_items(1) [OF q] by (auto simp: sized_def)
  then have "fifo_ok 1 (queue_items q @ ?xs)" using bound len by (simp add: fifo_ok_def)
  from fifo_enqueue(2) [OF inv this mem] have "enqueue_items mem q ?xs \<noteq> None" .
  moreover have "of_nat (length bs) = n" using n by (metis of_nat_unat_size)
  ultimately have "asock_tsqueue_enqueue mem q (Some bs) n \<noteq> Inr (ASOCK_ERR_NOMEM, q\<lparr>q_data := None\<rparr>)"
    by (auto simp: enqueue_items_def return_code_defs)
  moreover have "length (queue_data q) + length bs \<le> 2 ^ 63" using bound by simp
  ultimately show ?thesis using byte_enqueue [OF q ok n] by blast
qed

lemma allocator_at_grants: "alloc_grants (k_malloc K) \<Longrightarrow> alloc_grants (allocator_at K w)"
  by (auto simp: alloc_grants_def alloc_ok_def allocator_at_def)

lemma byte_dequeue:
  fixes q :: asock_tsqueue and n :: size_t and dst :: block
  assumes q: "byte_queue_ok q"
  defines "m \<equiv> min (unat n) (length (queue_data q))"
  assumes dst: "\<And>buf. dst = Some buf \<Longrightarrow> m \<le> length buf"
  shows "\<exists>q'. asock_tsqueue_dequeue q dst n =
      Inr (of_nat m, map_option (\<lambda>buf. splice buf 0 (take m (queue_data q))) dst, q')
    \<and> byte_queue_ok q' \<and> queue_data q' = drop m (queue_data q) \<and> q_capacity q' = q_capacity q"
proof -
  have w: "q_item_size q = 1" "queue_inv q" "\<not> q_mutex q" using q by (simp_all add: byte_queue_ok_def)
  have len: "unat (q_size q) = length (queue_data q)" using byte_queue_items(2) [OF q] by simp
  show ?thesis
    using asock_tsqueue_dequeue_spec [OF w(2,3), of dst n] dst w byte_queue_items(3,4) [OF q]
    unfolding len m_def [symmetric]
    by (auto simp: byte_queue_ok_def queue_data_def)
qed

lemma byte_head:
  fixes q :: asock_tsqueue
  assumes q: "byte_queue_ok q"
  defines "n \<equiv> unat (asock_tsqueue_head_size q)"
  shows "n \<le> length (queue_data q)" "n = 0 \<longleftrightarrow> queue_data q = []"
    "n \<noteq> 0 \<Longrightarrow> \<exists>off. asock_tsqueue_head q = Some off
       \<and> mem_read (q_data q) off (asock_tsqueue_head_size q) = Inr (take n (queue_data q))"
proof -
  have w: "q_item_size q = 1" "queue_inv q" using q by (simp_all add: byte_queue_ok_def)
  have len: "length (queue_items q) = length (queue_data q)" using byte_queue_items(2) [OF q] by simp
  note head = asock_tsqueue_head_spec [OF w(2), folded n_def]
  show "n \<le> length (queue_data q)" using head(1) len by simp
  show zero: "n = 0 \<longleftrightarrow> queue_data q = []" using head(2) len by (metis length_0_conv)
  show "n \<noteq> 0 \<Longrightarrow> \<exists>off. asock_tsqueue_head q = Some off
       \<and> mem_read (q_data q) off (asock_tsqueue_head_size q) = Inr (take n (queue_data q))"
    using head(2,3) byte_queue_items(3) [OF q] w(1) by auto
qed

section \<open>Operations\<close>

definition ASOCK_MES_BUFFER_SIZE :: size_t where "ASOCK_MES_BUFFER_SIZE = 4096"

text \<open>One queue: two allocations, one mutex.\<close>

definition create_queue :: "kernel \<Rightarrow> (world, asock_tsqueue option) op" where
  "create_queue K =
     bindM (liftR (\<lambda>w. asock_tsqueue_create (allocator_at K w) (k_mutex_init K (w_allocs w))
                         1 ASOCK_MES_BUFFER_SIZE)) (\<lambda>q.
     thenM (bump_allocs 2) (returnM q))"

text \<open>\<open>asock_cons_number++\<close> under its mutex; the counter is unsigned and wraps.\<close>

definition next_connection_id :: "(world, 64 word) op" where
  "next_connection_id =
     bindM (getsM w_cons_number) (\<lambda>n.
     thenM (modifyM (\<lambda>w. w\<lparr>w_cons_number := n + 1\<rparr>)) (returnM n))"

definition asock_fcreate_asock :: "kernel \<Rightarrow> int \<Rightarrow> (world, ptr) op" where
  "asock_fcreate_asock K fd =
     bindM (new_asock K) (\<lambda>new_con.
     if new_con = 0 then returnM 0
     else bindM (create_queue K) (\<lambda>in_queue.
       case in_queue of
         None \<Rightarrow> returnM 0
       | Some q_in \<Rightarrow>
           bindM (create_queue K) (\<lambda>out_queue.
             case out_queue of
               None \<Rightarrow> returnM 0
             | Some q_out \<Rightarrow>
                 bindM next_connection_id (\<lambda>n.
                 thenM (put_asock new_con
                   \<lparr>m_sock_desc = fd, m_connection_id = n, m_master_id = - 1, m_state = Idle,
                    m_disconnect = False, m_in_queue = q_in, m_out_queue = q_out, m_ref_counter = 1,
                    m_peer_addr = None, m_peer_addrlen = 0, m_host_addr = None,
                    m_host_addrlen = 0, m_net_ns = None\<rparr>)
                 (returnM new_con)))))"

definition asock_create_asock :: "kernel \<Rightarrow> int \<Rightarrow> int \<Rightarrow> int \<Rightarrow> (world, ptr) op" where
  "asock_create_asock K domain type protocol =
     bindM (syscall K (Socket domain type protocol)) (\<lambda>r.
       case r of
         Err _ \<Rightarrow> returnM 0
       | Ret fd \<Rightarrow>
           bindM (asock_fcreate_asock K fd) (\<lambda>result.
             if result = 0 then bindM (syscall K (Close fd)) (\<lambda>_. returnM result)
             else returnM result))"

text \<open>Destroying the queues and freeing the addresses goes with freeing the object.\<close>

definition asock_destroy_asock :: "kernel \<Rightarrow> ptr \<Rightarrow> (world, unit) op" where
  "asock_destroy_asock K con =
     (if con = 0 then returnM ()
      else
        thenM (update_asock con (\<lambda>a. a\<lparr>m_disconnect := True\<rparr>)) (
        thenM (update_asock con (\<lambda>a. a\<lparr>m_ref_counter := m_ref_counter a - 1\<rparr>)) (
        bindM (read_asock con) (\<lambda>a.
          if m_ref_counter a = 0
          then thenM (if m_sock_desc a \<noteq> - 1
                      then bindM (syscall K (Close (m_sock_desc a))) (\<lambda>_. returnM ())
                      else returnM ())
                 (free_asock con)
          else returnM ()))))"

definition asock_con_counter_incr :: "ptr \<Rightarrow> (world, unit) op" where
  "asock_con_counter_incr con =
     thenM (assertM (con \<noteq> 0)) (update_asock con (\<lambda>a. a\<lparr>m_ref_counter := m_ref_counter a + 1\<rparr>))"

text \<open>\<open>EXIT_SUCCESS\<close> is 0. A \<open>size_t\<close> returned as \<open>ssize_t\<close> is read as signed.\<close>

definition asock_write :: "kernel \<Rightarrow> ptr \<Rightarrow> block \<Rightarrow> size_t \<Rightarrow> (world, int) op" where
  "asock_write K con src src_sz =
     thenM (assertM (con \<noteq> 0)) (
     bindM (read_asock con) (\<lambda>a.
     bindM (liftR (\<lambda>w. asock_tsqueue_enqueue (allocator_at K w) (m_out_queue a) src src_sz)) (\<lambda>(r, q).
     thenM (bump_allocs 1) (
     thenM (update_asock con (\<lambda>a. a\<lparr>m_out_queue := q\<rparr>)) (
     returnM (if r = 0 then sint src_sz else 0))))))"

text \<open>The result: the count and the memory behind \<open>dst\<close> afterwards.\<close>

definition asock_read :: "ptr \<Rightarrow> block \<Rightarrow> size_t \<Rightarrow> (world, int \<times> block) op" where
  "asock_read con dst dst_sz =
     thenM (assertM (con \<noteq> 0)) (
     bindM (read_asock con) (\<lambda>a.
     bindM (liftR (\<lambda>w. asock_tsqueue_dequeue (m_in_queue a) dst dst_sz)) (\<lambda>(n, dst, q).
     thenM (update_asock con (\<lambda>a. a\<lparr>m_in_queue := q\<rparr>)) (
     returnM (sint n, dst)))))"

definition asock_state :: "ptr \<Rightarrow> (world, AsockConState) op" where
  "asock_state con =
     thenM (assertM (con \<noteq> 0)) (bindM (read_asock con) (\<lambda>a. returnM (m_state a)))"

definition asock_bind :: "kernel \<Rightarrow> ptr \<Rightarrow> block \<Rightarrow> socklen_t \<Rightarrow> (world, AsockReturnCode) op" where
  "asock_bind K con addr addrlen =
     bindM (malloc K (ucast addrlen)) (\<lambda>new_addr.
     if new_addr = None then returnM ASOCK_ERR_NOMEM
     else bindM (read_asock con) (\<lambda>a.
          bindM (syscall K (Bind (m_sock_desc a) (user_bytes addr addrlen))) (\<lambda>r.
            case r of
              Err _ \<Rightarrow> returnM ASOCK_FAILURE
            | Ret _ \<Rightarrow>
                bindM (liftR (\<lambda>_. mem_copy new_addr 0 addr 0 (ucast addrlen))) (\<lambda>new_addr.
                thenM (update_asock con (\<lambda>a. a\<lparr>m_host_addr := new_addr\<rparr>)) (
                thenM (update_asock con (\<lambda>a. a\<lparr>m_host_addrlen := addrlen\<rparr>)) (
                returnM ASOCK_SUCCESS))))))"

definition asock_get_unique_service_id :: "(world, 32 word) op" where
  "asock_get_unique_service_id =
     thenM (modifyM (\<lambda>w. w\<lparr>w_services_created := w_services_created w + 1\<rparr>))
       (getsM w_services_created)"

section \<open>Well-formed connections\<close>

definition asock_ok :: "asock \<Rightarrow> bool" where
  "asock_ok a \<longleftrightarrow> byte_queue_ok (m_in_queue a) \<and> byte_queue_ok (m_out_queue a) \<and> 1 \<le> m_ref_counter a"

lemma asock_ok_updates [simp]:
  "asock_ok (a\<lparr>m_state := s\<rparr>) = asock_ok a"
  "asock_ok (a\<lparr>m_disconnect := d\<rparr>) = asock_ok a"
  "asock_ok (a\<lparr>m_sock_desc := fd\<rparr>) = asock_ok a"
  "asock_ok (a\<lparr>m_master_id := n\<rparr>) = asock_ok a"
  "asock_ok (a\<lparr>m_peer_addr := b\<rparr>) = asock_ok a"
  "asock_ok (a\<lparr>m_peer_addrlen := l\<rparr>) = asock_ok a"
  "asock_ok a \<Longrightarrow> asock_ok (a\<lparr>m_ref_counter := m_ref_counter a + 1\<rparr>)"
  by (simp_all add: asock_ok_def)

lemma create_queue_spec:
  assumes "kernel_ok K"
  shows "wp no_fault (create_queue K) (\<lambda>q w'. w' = w\<lparr>w_allocs := w_allocs w + 2\<rparr>
    \<and> (\<forall>q0. q = Some q0 \<longrightarrow> byte_queue_ok q0 \<and> queue_data q0 = [] \<and> q_capacity q0 = 4096)) w"
proof -
  have n: "unat (4096 :: size_t) = 4096" by simp
  obtain r where r: "asock_tsqueue_create (allocator_at K w) (k_mutex_init K (w_allocs w)) 1 4096 = Inr r"
    "\<forall>q. r = Some q \<longrightarrow> queue_inv q \<and> \<not> q_mutex q \<and> queue_items q = [] \<and> q_item_size q = 1
      \<and> 4096 \<le> unat (q_capacity q) \<and> (\<exists>k. unat (q_capacity q) = 2 ^ k \<and> (\<forall>i < k. 2 ^ i < unat (4096 :: size_t)))"
    using asock_tsqueue_create_spec [OF allocator_at_ok [OF assms, of w], of 1 4096 "k_mutex_init K (w_allocs w)"]
    unfolding n by fastforce
  have "q_capacity q = 4096" if "4096 \<le> unat (q_capacity q)" "unat (q_capacity q) = 2 ^ k"
    "\<forall>i < k. 2 ^ i < unat (4096 :: size_t)" for q and k :: nat
  proof -
    have "\<not> 12 < k" using that(3) n by auto
    moreover have "\<not> k < 12" using that(1,2) power_strict_increasing [of k 12 "2 :: nat"] by auto
    ultimately have "unat (q_capacity q) = unat (4096 :: size_t)" using that(2) by (simp add: not_less)
    then show ?thesis by (simp add: word_unat_eq_iff)
  qed
  with r show ?thesis
    by (auto simp: create_queue_def wp_simps ASOCK_MES_BUFFER_SIZE_def byte_queue_ok_def queue_data_def)
qed

lemma wp_next_connection_id [wp_simps]:
  "wp F next_connection_id Q w = Q (w_cons_number w) (w\<lparr>w_cons_number := w_cons_number w + 1\<rparr>)"
  by (simp add: next_connection_id_def wp_simps)

text \<open>A new connection, or the null pointer and no trace but in the allocation counter.\<close>

definition fresh_asock :: "int \<Rightarrow> 64 word \<Rightarrow> asock \<Rightarrow> bool" where
  "fresh_asock fd n a \<longleftrightarrow> asock_ok a \<and> m_sock_desc a = fd \<and> m_connection_id a = n
     \<and> m_master_id a = - 1 \<and> m_state a = Idle \<and> \<not> m_disconnect a \<and> m_ref_counter a = 1
     \<and> queue_data (m_in_queue a) = [] \<and> queue_data (m_out_queue a) = []
     \<and> q_capacity (m_in_queue a) = 4096 \<and> q_capacity (m_out_queue a) = 4096
     \<and> m_peer_addr a = None \<and> m_host_addr a = None \<and> m_net_ns a = None"

lemma asock_fcreate_asock_spec:
  assumes K: "kernel_ok K"
  shows "wp no_fault (asock_fcreate_asock K fd) (\<lambda>p w'.
      (p = 0 \<and> w' = w\<lparr>w_allocs := w_allocs w'\<rparr>)
    \<or> (p \<noteq> 0 \<and> w_asocks w p = None \<and> fresh_asock fd (w_cons_number w) (the (w_asocks w' p))
         \<and> w' = w\<lparr>w_allocs := w_allocs w', w_asocks := (w_asocks w)(p \<mapsto> the (w_asocks w' p)),
               w_cons_number := w_cons_number w + 1\<rparr>)) w"
proof -
  let ?p = "k_new K (\<lambda>p. w_asocks w p \<noteq> None) (w_allocs w)"
  let ?w1 = "w\<lparr>w_allocs := Suc (w_allocs w)\<rparr>" and ?w3 = "w\<lparr>w_allocs := w_allocs w + 3\<rparr>"
  have fresh: "?p \<noteq> 0 \<Longrightarrow> w_asocks w ?p = None"
    using K unfolding kernel_ok_def by blast
  have q1: "wp no_fault (create_queue K) (\<lambda>q w'. w' = ?w3
      \<and> (\<forall>q0. q = Some q0 \<longrightarrow> byte_queue_ok q0 \<and> queue_data q0 = [] \<and> q_capacity q0 = 4096)) ?w1"
    by (rule wp_mono [OF create_queue_spec [OF K]]) simp
  have q2: "wp no_fault (create_queue K) (\<lambda>q w'. w' = w\<lparr>w_allocs := w_allocs w + 5\<rparr>
      \<and> (\<forall>q0. q = Some q0 \<longrightarrow> byte_queue_ok q0 \<and> queue_data q0 = [] \<and> q_capacity q0 = 4096)) ?w3"
    by (rule wp_mono [OF create_queue_spec [OF K]]) simp
  show ?thesis
    unfolding asock_fcreate_asock_def
    by (auto simp: wp_simps fresh [unfolded not_None_eq] fresh_asock_def asock_ok_def split: option.split
        intro!: wp_mono [OF q1] wp_mono [OF q2])
qed

text \<open>Dropping a reference: the object goes with its last reference, and its descriptor is closed.\<close>

lemma asock_destroy_asock_spec:
  assumes "p \<noteq> 0" "w_asocks w p = Some a"
  shows "wp F (asock_destroy_asock K p) Q w \<longleftrightarrow>
    Q () (if m_ref_counter a = 1
          then w\<lparr>w_log := (if m_sock_desc a = - 1 then w_log w
                           else (Close (m_sock_desc a), k_ret K (w_log w) (Close (m_sock_desc a))) # w_log w),
                 w_asocks := (w_asocks w)(p := None)\<rparr>
          else w\<lparr>w_asocks := (w_asocks w)(p \<mapsto> a\<lparr>m_disconnect := True, m_ref_counter := m_ref_counter a - 1\<rparr>)\<rparr>)"
  using assms by (simp add: asock_destroy_asock_def wp_simps)

end
