(* ===== verification/Asock_Directive.thy ===== *)
theory Asock_Directive
  imports Asock_World
begin

text \<open>
  \<open>src/asock_directive.c\<close> with the enumerations of \<open>src/asock_defs.h\<close>: the one-slot mailbox
  through which the application's threads give orders to a service or server thread. Every
  function is one critical section of the mailbox's mutex, or two with a wait in between; the
  sections are functions on the struct, and a step relation interleaves them.
\<close>

section \<open>The struct and its critical sections\<close>

datatype ServiceStatus = Init | Configuration | Aborted | Running

datatype DirectiveType =
  DirectNone | DirectStart | DirectStop | DirectBind | DirectCreateAsock | DirectSetns

text \<open>
  A \<open>void*\<close> argument points to a variable of the sender, who is blocked while it is used: the
  argument is the value of that variable.
\<close>

datatype direct_arg =
  NullArg | IntArg int | AddrArg block | LenArg socklen_t | StrArg string | AsockArg ptr

record asock_directive =
  m_direct_type :: DirectiveType
  m_direct_result :: AsockReturnCode
  m_arg1 :: direct_arg
  m_arg2 :: direct_arg
  m_arg3 :: direct_arg
  m_arg4 :: direct_arg

definition asock_init_directive :: asock_directive where
  "asock_init_directive =
     \<lparr>m_direct_type = DirectNone, m_direct_result = ASOCK_SUCCESS,
      m_arg1 = NullArg, m_arg2 = NullArg, m_arg3 = NullArg, m_arg4 = NullArg\<rparr>"

text \<open>\<open>asock_send_directive\<close> up to its wait, and from the end of its wait.\<close>

definition directive_post ::
    "DirectiveType \<Rightarrow> direct_arg \<Rightarrow> direct_arg \<Rightarrow> direct_arg \<Rightarrow> direct_arg \<Rightarrow> asock_directive \<Rightarrow> asock_directive" where
  "directive_post type arg1 arg2 arg3 arg4 direct =
     direct\<lparr>m_direct_type := type, m_direct_result := ASOCK_UNDEFINED_CODE,
       m_arg1 := arg1, m_arg2 := arg2, m_arg3 := arg3, m_arg4 := arg4\<rparr>"

definition directive_take :: "asock_directive \<Rightarrow> (AsockReturnCode \<times> asock_directive) option" where
  "directive_take direct =
     (if m_direct_result direct = ASOCK_UNDEFINED_CODE then None
      else Some (m_direct_result direct,
                 direct\<lparr>m_direct_type := DirectNone, m_direct_result := ASOCK_UNDEFINED_CODE\<rparr>))"

text \<open>Whether \<open>asock_wait_for_directive\<close> returns.\<close>

definition asock_wait_for_directive :: "asock_directive \<Rightarrow> bool" where
  "asock_wait_for_directive direct \<longleftrightarrow> m_direct_type direct \<noteq> DirectNone"

definition asock_get_directive_type :: "asock_directive \<Rightarrow> DirectiveType" where
  "asock_get_directive_type direct = m_direct_type direct"

definition asock_set_directive_result :: "asock_directive \<Rightarrow> AsockReturnCode \<Rightarrow> asock_directive" where
  "asock_set_directive_result direct result =
     direct\<lparr>m_direct_type := DirectNone, m_direct_result := result\<rparr>"

lemmas directive_defs =
  asock_init_directive_def directive_post_def directive_take_def asock_wait_for_directive_def
  asock_get_directive_type_def asock_set_directive_result_def return_code_defs

section \<open>Senders and worker\<close>

text \<open>
  Where the threads are: a sender about to send, waiting for the result, or returned with one;
  the worker waiting for a directive or working on the one it fetched. Waking up without a
  signal is allowed, so a signal is not part of the state: a woken thread looks at the slot.
\<close>

datatype sender = Ready DirectiveType | Awaiting DirectiveType | Returned DirectiveType AsockReturnCode
datatype worker = Polling | Serving DirectiveType

record mailbox =
  mb_direct :: asock_directive
  mb_senders :: "nat \<Rightarrow> sender"
  mb_worker :: worker

text \<open>\<open>answer t\<close> is what the worker sets as the result of directive \<open>t\<close>; the threads in \<open>S\<close> send.\<close>

inductive mailbox_step ::
    "(DirectiveType \<Rightarrow> AsockReturnCode) \<Rightarrow> nat set \<Rightarrow> mailbox \<Rightarrow> mailbox \<Rightarrow> bool"
  for answer S where
  call: "i \<in> S \<Longrightarrow> mb_senders s i = Returned t r \<Longrightarrow> t' \<noteq> DirectNone \<Longrightarrow>
    mailbox_step answer S s (s\<lparr>mb_senders := (mb_senders s)(i := Ready t')\<rparr>)"
| post: "i \<in> S \<Longrightarrow> mb_senders s i = Ready t \<Longrightarrow>
    mailbox_step answer S s (s\<lparr>mb_direct := directive_post t a1 a2 a3 a4 (mb_direct s),
      mb_senders := (mb_senders s)(i := Awaiting t)\<rparr>)"
| take: "i \<in> S \<Longrightarrow> mb_senders s i = Awaiting t \<Longrightarrow> directive_take (mb_direct s) = Some (r, d) \<Longrightarrow>
    mailbox_step answer S s (s\<lparr>mb_direct := d, mb_senders := (mb_senders s)(i := Returned t r)\<rparr>)"
| fetch: "mb_worker s = Polling \<Longrightarrow> asock_wait_for_directive (mb_direct s) \<Longrightarrow>
    mailbox_step answer S s (s\<lparr>mb_worker := Serving (asock_get_directive_type (mb_direct s))\<rparr>)"
| serve: "mb_worker s = Serving t \<Longrightarrow>
    mailbox_step answer S s (s\<lparr>mb_direct := asock_set_directive_result (mb_direct s) (answer t),
      mb_worker := Polling\<rparr>)"

inductive_cases mailbox_stepE: "mailbox_step answer S s s'"

inductive mailbox_reach ::
    "(DirectiveType \<Rightarrow> AsockReturnCode) \<Rightarrow> nat set \<Rightarrow> mailbox \<Rightarrow> mailbox \<Rightarrow> bool"
  for answer S s0 where
  start: "mailbox_reach answer S s0 s0"
| step: "mailbox_reach answer S s0 s \<Longrightarrow> mailbox_step answer S s s' \<Longrightarrow> mailbox_reach answer S s0 s'"

definition mailbox_start :: "(nat \<Rightarrow> DirectiveType) \<Rightarrow> mailbox" where
  "mailbox_start first =
     \<lparr>mb_direct = asock_init_directive, mb_senders = (\<lambda>i. Ready (first i)), mb_worker = Polling\<rparr>"

section \<open>One sender at a time\<close>

text \<open>A worker never answers with the code that means no answer.\<close>

definition answers :: "(DirectiveType \<Rightarrow> AsockReturnCode) \<Rightarrow> bool" where
  "answers answer \<longleftrightarrow> (\<forall>t. answer t \<noteq> ASOCK_UNDEFINED_CODE)"

text \<open>What the slot holds at each point of the only sender.\<close>

definition exchange_inv :: "(DirectiveType \<Rightarrow> AsockReturnCode) \<Rightarrow> nat \<Rightarrow> mailbox \<Rightarrow> bool" where
  "exchange_inv answer i s \<longleftrightarrow>
     (case mb_senders s i of
        Ready t \<Rightarrow> t \<noteq> DirectNone \<and> m_direct_type (mb_direct s) = DirectNone \<and> mb_worker s = Polling
      | Awaiting t \<Rightarrow> t \<noteq> DirectNone \<and>
          (m_direct_result (mb_direct s) = ASOCK_UNDEFINED_CODE \<and> m_direct_type (mb_direct s) = t
             \<and> (mb_worker s = Polling \<or> mb_worker s = Serving t)
           \<or> m_direct_result (mb_direct s) = answer t \<and> m_direct_type (mb_direct s) = DirectNone
             \<and> mb_worker s = Polling)
      | Returned t r \<Rightarrow> r = answer t \<and> m_direct_type (mb_direct s) = DirectNone \<and> mb_worker s = Polling)"

lemma exchange_inv_step:
  assumes ans: "answers answer"
  shows "mailbox_step answer {i} s s' \<Longrightarrow> exchange_inv answer i s \<Longrightarrow> exchange_inv answer i s'"
  using ans unfolding answers_def
  by (elim mailbox_stepE) (auto simp: exchange_inv_def directive_defs split: sender.splits if_splits)

lemma exchange_inv_reach:
  assumes ans: "answers answer" and first: "first i \<noteq> DirectNone"
  shows "mailbox_reach answer {i} (mailbox_start first) s \<Longrightarrow> exchange_inv answer i s"
proof (induction rule: mailbox_reach.induct)
  case start
  then show ?case using first by (simp add: exchange_inv_def mailbox_start_def directive_defs)
next
  case (step s s')
  then show ?case using exchange_inv_step [OF ans] by blast
qed

text \<open>How far a call is from its return: post, fetch, serve, take.\<close>

definition exchange_left :: "nat \<Rightarrow> mailbox \<Rightarrow> nat" where
  "exchange_left i s =
     (case mb_senders s i of
        Ready _ \<Rightarrow> 4
      | Returned _ _ \<Rightarrow> 0
      | Awaiting _ \<Rightarrow>
          if m_direct_result (mb_direct s) \<noteq> ASOCK_UNDEFINED_CODE then 1
          else if mb_worker s = Polling then 3 else 2)"

lemma exchange_progress:
  assumes ans: "answers answer" and inv: "exchange_inv answer i s"
    and busy: "\<And>t r. mb_senders s i \<noteq> Returned t r"
  shows "\<exists>s'. mailbox_step answer {i} s s'"
    and "mailbox_step answer {i} s s' \<Longrightarrow> exchange_left i s' < exchange_left i s"
proof -
  show "mailbox_step answer {i} s s' \<Longrightarrow> exchange_left i s' < exchange_left i s"
    using ans inv busy unfolding answers_def
    by (elim mailbox_stepE)
      (auto simp: exchange_inv_def exchange_left_def directive_defs split: sender.splits if_splits)
  show "\<exists>s'. mailbox_step answer {i} s s'"
  proof (cases "mb_senders s i")
    case (Ready t)
    then show ?thesis using mailbox_step.post [of i "{i}"] by blast
  next
    case (Awaiting t)
    with inv consider "mb_worker s = Polling" "m_direct_type (mb_direct s) = t" "t \<noteq> DirectNone"
      | "mb_worker s = Serving t" | "m_direct_result (mb_direct s) = answer t"
      by (auto simp: exchange_inv_def)
    then show ?thesis
    proof cases
      case 1
      then have "asock_wait_for_directive (mb_direct s)" by (simp add: directive_defs)
      with 1(1) show ?thesis by (blast intro: mailbox_step.fetch)
    next
      case 2
      then show ?thesis by (blast intro: mailbox_step.serve)
    next
      case 3
      then have "directive_take (mb_direct s) \<noteq> None" using ans by (simp add: directive_take_def answers_def)
      then show ?thesis using mailbox_step.take [of i "{i}" s t _ _ answer] Awaiting by fastforce
    qed
  next
    case (Returned t r)
    then show ?thesis using busy by blast
  qed
qed

section \<open>Properties\<close>

text \<open>C16. As long as one thread at a time sends directives, a call of \<open>asock_send_directive\<close> that
  has returned has returned the worker's answer to the directive it sent, whatever was sent before
  and however the threads were interleaved.\<close>

theorem directive_own_answer:
  assumes "answers answer" "first i \<noteq> DirectNone"
    and "mailbox_reach answer {i} (mailbox_start first) s" "mb_senders s i = Returned t r"
  shows "r = answer t \<and> asock_get_directive_type (mb_direct s) = DirectNone"
  using exchange_inv_reach [OF assms(1,2,3)] assms(4) by (simp add: exchange_inv_def directive_defs)

text \<open>One complete exchange: posted, fetched, served, taken.\<close>

definition one_exchange :: mailbox where
  "one_exchange =
     (mailbox_start (\<lambda>_. DirectStart))\<lparr>
       mb_direct := (directive_post DirectStart NullArg NullArg NullArg NullArg asock_init_directive)
         \<lparr>m_direct_type := DirectNone, m_direct_result := ASOCK_UNDEFINED_CODE\<rparr>,
       mb_senders := (\<lambda>i. Ready DirectStart)(0 := Awaiting DirectStart, 0 := Returned DirectStart ASOCK_SUCCESS)\<rparr>"

lemma one_exchange_reached:
  "mailbox_reach (\<lambda>_. ASOCK_SUCCESS) {0} (mailbox_start (\<lambda>_. DirectStart)) one_exchange"
proof -
  let ?a = "\<lambda>_. ASOCK_SUCCESS" and ?s0 = "mailbox_start (\<lambda>_. DirectStart)"
  let ?s1 = "?s0\<lparr>mb_direct := directive_post DirectStart NullArg NullArg NullArg NullArg (mb_direct ?s0),
      mb_senders := (mb_senders ?s0)(0 := Awaiting DirectStart)\<rparr>"
  let ?s2 = "?s1\<lparr>mb_worker := Serving (asock_get_directive_type (mb_direct ?s1))\<rparr>"
  let ?s3 = "?s2\<lparr>mb_direct := asock_set_directive_result (mb_direct ?s2) ASOCK_SUCCESS, mb_worker := Polling\<rparr>"
  have "mailbox_step ?a {0} ?s0 ?s1"
    by (rule mailbox_step.post) (simp_all add: mailbox_start_def)
  moreover have "mailbox_step ?a {0} ?s1 ?s2"
    by (rule mailbox_step.fetch) (simp_all add: mailbox_start_def directive_defs)
  moreover have "mailbox_step ?a {0} ?s2 ?s3"
    by (rule mailbox_step.serve) (simp add: mailbox_start_def directive_defs)
  moreover have "mailbox_step ?a {0} ?s3 one_exchange"
  proof -
    have "one_exchange = ?s3\<lparr>mb_direct := (mb_direct ?s3)\<lparr>m_direct_type := DirectNone,
          m_direct_result := ASOCK_UNDEFINED_CODE\<rparr>,
        mb_senders := (mb_senders ?s3)(0 := Returned DirectStart ASOCK_SUCCESS)\<rparr>"
      by (simp add: one_exchange_def mailbox_start_def directive_defs)
    moreover have "mailbox_step ?a {0} ?s3 (?s3\<lparr>mb_direct := (mb_direct ?s3)\<lparr>m_direct_type := DirectNone,
          m_direct_result := ASOCK_UNDEFINED_CODE\<rparr>,
        mb_senders := (mb_senders ?s3)(0 := Returned DirectStart ASOCK_SUCCESS)\<rparr>)"
      by (rule mailbox_step.take) (simp_all add: mailbox_start_def directive_defs)
    ultimately show ?thesis by simp
  qed
  ultimately show ?thesis by (meson mailbox_reach.intros)
qed

theorem directive_own_answer_witness:
  "ASOCK_SUCCESS = (\<lambda>_ :: DirectiveType. ASOCK_SUCCESS) DirectStart
     \<and> asock_get_directive_type (mb_direct one_exchange) = DirectNone"
proof -
  have "answers (\<lambda>_. ASOCK_SUCCESS)" by (simp add: answers_def return_code_defs)
  moreover have "mb_senders one_exchange 0 = Returned DirectStart ASOCK_SUCCESS"
    by (simp add: one_exchange_def)
  ultimately show ?thesis
    using directive_own_answer [of "\<lambda>_. ASOCK_SUCCESS" "\<lambda>_. DirectStart" 0] one_exchange_reached by simp
qed



text \<open>C38. The mailbox has one slot and no protection against a second sender: when two threads send at
  the same time, one directive can overwrite the other before the worker has fetched it. The first
  sender then returns with the answer to the other's directive, its own is never carried out, and
  the second sender waits for a result that no thread will set.\<close>

theorem directive_two_senders_lose_one:
  "let answer = (\<lambda>t. if t = DirectBind then ASOCK_FAILURE else ASOCK_SUCCESS);
       first = (\<lambda>i. if i = 0 then DirectBind else DirectStart)
   in \<exists>s. mailbox_reach answer {0, 1} (mailbox_start first) s
        \<and> mb_senders s 0 = Returned DirectBind (answer DirectStart)
        \<and> mb_senders s 1 = Awaiting DirectStart \<and> \<not> (\<exists>s'. mailbox_step answer {1} s s')"
proof -
  let ?a = "\<lambda>t. if t = DirectBind then ASOCK_FAILURE else ASOCK_SUCCESS"
  let ?f = "\<lambda>i :: nat. if i = 0 then DirectBind else DirectStart"
  let ?s0 = "mailbox_start ?f"
  let ?s1 = "?s0\<lparr>mb_direct := directive_post DirectBind NullArg NullArg NullArg NullArg (mb_direct ?s0),
      mb_senders := (mb_senders ?s0)(0 := Awaiting DirectBind)\<rparr>"
  let ?s2 = "?s1\<lparr>mb_direct := directive_post DirectStart NullArg NullArg NullArg NullArg (mb_direct ?s1),
      mb_senders := (mb_senders ?s1)(1 := Awaiting DirectStart)\<rparr>"
  let ?s3 = "?s2\<lparr>mb_worker := Serving (asock_get_directive_type (mb_direct ?s2))\<rparr>"
  let ?s4 = "?s3\<lparr>mb_direct := asock_set_directive_result (mb_direct ?s3) (?a DirectStart), mb_worker := Polling\<rparr>"
  let ?s5 = "?s4\<lparr>mb_direct := (mb_direct ?s4)\<lparr>m_direct_type := DirectNone,
          m_direct_result := ASOCK_UNDEFINED_CODE\<rparr>,
        mb_senders := (mb_senders ?s4)(0 := Returned DirectBind ASOCK_SUCCESS)\<rparr>"
  have "mailbox_step ?a {0, 1} ?s0 ?s1"
    by (rule mailbox_step.post) (simp_all add: mailbox_start_def)
  moreover have "mailbox_step ?a {0, 1} ?s1 ?s2"
    by (rule mailbox_step.post) (simp_all add: mailbox_start_def)
  moreover have "mailbox_step ?a {0, 1} ?s2 ?s3"
    by (rule mailbox_step.fetch) (simp_all add: mailbox_start_def directive_defs)
  moreover have "mailbox_step ?a {0, 1} ?s3 ?s4"
    by (rule mailbox_step.serve) (simp add: mailbox_start_def directive_defs)
  moreover have "mailbox_step ?a {0, 1} ?s4 ?s5"
    by (rule mailbox_step.take) (simp_all add: mailbox_start_def directive_defs)
  ultimately have "mailbox_reach ?a {0, 1} ?s0 ?s5" by (meson mailbox_reach.intros)
  moreover have "\<not> mailbox_step ?a {1} ?s5 s'" for s'
    by (auto elim!: mailbox_stepE simp: mailbox_start_def directive_defs)
  ultimately show ?thesis by (auto simp: Let_def intro!: exI [of _ ?s5])
qed

end
