(* ===== verification/Asock_Owner.thy ===== *)
theory Asock_Owner
  imports Asock_Impl Asock_Directive
begin

text \<open>
  What \<open>src/asock_service.c\<close> and \<open>src/asock_server.c\<close> have in common. The two files carry the
  same code for the tables of connections, with the names changed; it is modelled once, over a
  record that both structs extend. A step of an owner's thread acts on its struct and on the
  world.
\<close>

section \<open>State\<close>

text \<open>
  \<open>e_thread\<close> is where the owner's thread is in its function: not started, in the configuration
  loop, in the main loop, or returned.
\<close>

datatype thread_phase = Not_Started | Configuring | Looping | Finished

record endpoint =
  e_connections :: asock_vector
  e_new_connections :: asock_vector
  e_new_connections_mutex :: bool
  e_epoll_desc :: int
  e_status :: ServiceStatus
  e_id :: "32 word"
  e_directive :: asock_directive
  e_net_ns :: "string option"
  e_net_ns_fd :: int
  e_thread :: thread_phase

definition liftW :: "(world, 'r) op \<Rightarrow> ('a endpoint_scheme \<times> world, 'r) op" where
  "liftW m = (\<lambda>(e, w). bindR (m w) (\<lambda>(x, w'). Inr (x, (e, w'))))"

lemma wp_liftW [wp_simps]: "wp F (liftW m) Q (e, w) = wp F m (\<lambda>x w'. Q x (e, w')) w"
  by (simp add: wp_def liftW_def bindR_def split: sum.splits prod.splits)

definition updateE :: "('a endpoint_scheme \<Rightarrow> 'a endpoint_scheme) \<Rightarrow> ('a endpoint_scheme \<times> world, unit) op" where
  "updateE f = modifyM (\<lambda>(e, w). (f e, w))"

lemma wp_updateE [wp_simps]: "wp F (updateE f) Q (e, w) = Q () (f e, w)"
  by (simp add: updateE_def wp_simps)

definition getE :: "('a endpoint_scheme \<Rightarrow> 'r) \<Rightarrow> ('a endpoint_scheme \<times> world, 'r) op" where
  "getE f = getsM (\<lambda>(e, w). f e)"

lemma wp_getE [wp_simps]: "wp F (getE f) Q (e, w) = Q (f e) (e, w)"
  by (simp add: getE_def wp_simps)

text \<open>The mutex of the table of new connections.\<close>

definition lock_new :: "('a endpoint_scheme \<times> world, unit) op" where
  "lock_new =
     bindM (getE e_new_connections_mutex) (\<lambda>held.
       if held then failM Self_Deadlock else updateE (\<lambda>e. e\<lparr>e_new_connections_mutex := True\<rparr>))"

definition unlock_new :: "('a endpoint_scheme \<times> world, unit) op" where
  "unlock_new = updateE (\<lambda>e. e\<lparr>e_new_connections_mutex := False\<rparr>)"

lemma wp_lock_new [wp_simps]:
  "wp F lock_new Q (e, w) =
    (if e_new_connections_mutex e then F Self_Deadlock else Q () (e\<lparr>e_new_connections_mutex := True\<rparr>, w))"
  by (simp add: lock_new_def wp_simps)

lemma wp_unlock_new [wp_simps]: "wp F unlock_new Q (e, w) = Q () (e\<lparr>e_new_connections_mutex := False\<rparr>, w)"
  by (simp add: unlock_new_def wp_simps)

text \<open>The connection tables inside the struct.\<close>

definition connection_at :: "('a endpoint_scheme \<Rightarrow> asock_vector) \<Rightarrow> size_t \<Rightarrow> ('a endpoint_scheme \<times> world, ptr) op" where
  "connection_at table i = liftR (\<lambda>(e, w). asock_connections_at (table e) i)"

definition erase_connection :: "size_t \<Rightarrow> ('a endpoint_scheme \<times> world, AsockReturnCode) op" where
  "erase_connection i =
     bindM (liftR (\<lambda>(e, w). asock_connections_erase (e_connections e) i)) (\<lambda>(r, v).
     thenM (updateE (\<lambda>e. e\<lparr>e_connections := v\<rparr>)) (returnM r))"

definition erase_new_connection :: "size_t \<Rightarrow> ('a endpoint_scheme \<times> world, AsockReturnCode) op" where
  "erase_new_connection i =
     bindM (liftR (\<lambda>(e, w). asock_connections_erase (e_new_connections e) i)) (\<lambda>(r, v).
     thenM (updateE (\<lambda>e. e\<lparr>e_new_connections := v\<rparr>)) (returnM r))"

definition push_connection :: "kernel \<Rightarrow> ptr \<Rightarrow> ('a endpoint_scheme \<times> world, AsockReturnCode) op" where
  "push_connection K con =
     bindM (liftR (\<lambda>(e, w). asock_connections_push (allocator_at K w) (e_connections e) con)) (\<lambda>(r, v).
     thenM (liftW (bump_allocs 1)) (thenM (updateE (\<lambda>e. e\<lparr>e_connections := v\<rparr>)) (returnM r)))"

definition push_new_connection :: "kernel \<Rightarrow> ptr \<Rightarrow> ('a endpoint_scheme \<times> world, AsockReturnCode) op" where
  "push_new_connection K con =
     bindM (liftR (\<lambda>(e, w). asock_connections_push (allocator_at K w) (e_new_connections e) con)) (\<lambda>(r, v).
     thenM (liftW (bump_allocs 1)) (thenM (updateE (\<lambda>e. e\<lparr>e_new_connections := v\<rparr>)) (returnM r)))"

text \<open>The search loops: over a table, for the first object that passes a test.\<close>

definition find_connection :: "asock_vector \<Rightarrow> world \<Rightarrow> (asock \<Rightarrow> bool) \<Rightarrow> size_t option res" where
  "find_connection v w test =
     find_from 0 (asock_connections_size v) (\<lambda>i.
       bindR (asock_connections_at v i) (\<lambda>con. bindR (deref w con) (\<lambda>a. Inr (test a))))"

section \<open>Operations\<close>

text \<open>An index returned as \<open>ssize_t\<close>, -1 for none.\<close>

definition index_result :: "size_t option \<Rightarrow> int" where
  "index_result i = (case i of None \<Rightarrow> - 1 | Some i \<Rightarrow> sint i)"

definition asock_service_is_running :: "'a endpoint_scheme \<Rightarrow> bool" where
  "asock_service_is_running e \<longleftrightarrow> e_status e = Running"

definition asock_service_index_of_con :: "ptr \<Rightarrow> ('a endpoint_scheme \<times> world, int) op" where
  "asock_service_index_of_con connection =
     bindM (liftW (read_asock connection)) (\<lambda>c.
     bindM (getE e_id) (\<lambda>n.
       if m_master_id c \<noteq> n then returnM (- 1)
       else bindM (liftR (\<lambda>(e, w). find_connection (e_connections e) w
                      (\<lambda>a. m_connection_id c = m_connection_id a))) (\<lambda>i.
            returnM (index_result i))))"

definition asock_service_index_of_con_by_sock_desc :: "int \<Rightarrow> ('a endpoint_scheme \<times> world, int) op" where
  "asock_service_index_of_con_by_sock_desc sockd =
     bindM (liftR (\<lambda>(e, w). find_connection (e_connections e) w (\<lambda>a. m_sock_desc a = sockd))) (\<lambda>i.
     returnM (index_result i))"

definition asock_service_close_connection ::
    "kernel \<Rightarrow> int \<Rightarrow> ('a endpoint_scheme \<times> world, AsockReturnCode) op" where
  "asock_service_close_connection K sockd =
     thenM (assertM (0 \<le> sockd)) (
     thenM lock_new (
     bindM (liftR (\<lambda>(e, w). find_connection (e_new_connections e) w (\<lambda>a. m_sock_desc a = sockd))) (\<lambda>i.
     thenM (case i of
              None \<Rightarrow> returnM ()
            | Some i \<Rightarrow> bindM (erase_new_connection i) (\<lambda>_. returnM ())) (
     thenM unlock_new (
     bindM (asock_service_index_of_con_by_sock_desc sockd) (\<lambda>index.
       if index = - 1 then returnM ASOCK_ERR_INVAL
       else
         bindM (connection_at e_connections (of_int index)) (\<lambda>con.
         thenM (liftW (update_asock con (\<lambda>a. a\<lparr>m_state := Failed\<rparr>))) (
         bindM (liftW (syscall K (Close sockd))) (\<lambda>_.
         thenM (liftW (asock_destroy_asock K con)) (
         bindM (erase_connection (of_int index)) (\<lambda>_.
         returnM ASOCK_SUCCESS)))))))))))"

text \<open>
  \<open>data\<close> stands for the bytes at the pointer; \<open>send\<close> reads the first \<open>data_size\<close> of them. The
  index is narrowed to \<open>int\<close> before the test.
\<close>

definition asock_service_try_send_data ::
    "kernel \<Rightarrow> ptr \<Rightarrow> byte list \<Rightarrow> 32 word \<Rightarrow> ('a endpoint_scheme \<times> world, int) op" where
  "asock_service_try_send_data K con data data_size =
     bindM (getE asock_service_is_running) (\<lambda>running.
     if \<not> running then returnM (- 1)
     else bindM (asock_service_index_of_con con) (\<lambda>index.
       if signed_take_bit 31 index = - 1 then returnM (- 1)
       else bindM (liftW (read_asock con)) (\<lambda>c.
         case m_state c of
           Idle \<Rightarrow> returnM (- 1)
         | Failed \<Rightarrow> returnM (- 1)
         | InProgress \<Rightarrow> returnM (- 1)
         | Established \<Rightarrow>
             bindM (liftW (syscall K (Send (m_sock_desc c) (take (unat data_size) data)))) (\<lambda>n.
               case n of
                 Ret n \<Rightarrow> returnM n
               | Err errno \<Rightarrow>
                   if errno = EWOULDBLOCK \<or> errno = EAGAIN then returnM 0
                   else bindM (asock_service_close_connection K (m_sock_desc c)) (\<lambda>_.
                          returnM (- 1))))))"

definition out_queue_lock :: "ptr \<Rightarrow> (world, unit) op" where
  "out_queue_lock con =
     bindM (read_asock con) (\<lambda>a. bindM (liftR (\<lambda>_. queue_lock (m_out_queue a))) (\<lambda>q.
     update_asock con (\<lambda>a. a\<lparr>m_out_queue := q\<rparr>)))"

definition out_queue_unlock :: "ptr \<Rightarrow> (world, unit) op" where
  "out_queue_unlock con = update_asock con (\<lambda>a. a\<lparr>m_out_queue := queue_unlock (m_out_queue a)\<rparr>)"

definition out_queue_drop :: "ptr \<Rightarrow> size_t \<Rightarrow> (world, unit) op" where
  "out_queue_drop con n =
     bindM (read_asock con) (\<lambda>a.
     bindM (liftR (\<lambda>_. asock_tsqueue_dequeue (m_out_queue a) None n)) (\<lambda>(_, _, q).
     update_asock con (\<lambda>a. a\<lparr>m_out_queue := q\<rparr>)))"

text \<open>The loop body of \<open>send_unsent_data\<close> (lines 693 to 711), for the connection at index \<open>i\<close>.\<close>

definition send_unsent_from :: "kernel \<Rightarrow> size_t \<Rightarrow> ('a endpoint_scheme \<times> world, unit) op" where
  "send_unsent_from K i =
     bindM (connection_at e_connections i) (\<lambda>con.
     thenM (assertM (con \<noteq> 0)) (
     thenM (liftW (out_queue_lock con)) (
     bindM (liftW (read_asock con)) (\<lambda>c.
     let out_data_sz = asock_tsqueue_head_size (m_out_queue c) in
     if out_data_sz \<noteq> 0
     then
       case asock_tsqueue_head (m_out_queue c) of
         None \<Rightarrow> failM Assert_Failed
       | Some data_to_send \<Rightarrow>
           bindM (liftR (\<lambda>_. mem_read (q_data (m_out_queue c)) data_to_send out_data_sz)) (\<lambda>data.
           bindM (asock_service_try_send_data K con data (ucast out_data_sz)) (\<lambda>send_data_sz.
           thenM (liftW (out_queue_unlock con)) (
           if send_data_sz < 0 then returnM ()
           else
             thenM (assertM ((of_int send_data_sz :: size_t) \<le> out_data_sz))
                   (liftW (out_queue_drop con (of_int send_data_sz))))))
     else liftW (out_queue_unlock con)))))"

definition asock_service_send_unsent_data :: "kernel \<Rightarrow> ('a endpoint_scheme \<times> world, unit) op" where
  "asock_service_send_unsent_data K =
     bindM (getE (\<lambda>e. asock_connections_size (e_connections e))) (\<lambda>con_sz.
     for_down (con_sz - 1) con_sz (send_unsent_from K))"

definition asock_service_check_for_connections_to_close ::
    "kernel \<Rightarrow> ('a endpoint_scheme \<times> world, unit) op" where
  "asock_service_check_for_connections_to_close K =
     bindM (getE (\<lambda>e. asock_connections_size (e_connections e))) (\<lambda>sz.
     for_down (sz - 1) sz (\<lambda>i.
       bindM (connection_at e_connections i) (\<lambda>con.
       bindM (liftW (read_asock con)) (\<lambda>a.
       if m_disconnect a
       then bindM (asock_service_close_connection K (m_sock_desc a)) (\<lambda>_. returnM ())
       else returnM ()))))"

text \<open>The loops that drop the owner's reference to every connection of a table (lines 494 to 498
  and 501 to 505).\<close>

definition destroy_connections ::
    "kernel \<Rightarrow> ('a endpoint_scheme \<Rightarrow> asock_vector) \<Rightarrow> ('a endpoint_scheme \<times> world, unit) op" where
  "destroy_connections K table =
     bindM (getE (\<lambda>e. asock_connections_size (table e))) (\<lambda>sz.
     for_down (sz - 1) sz (\<lambda>i.
       bindM (connection_at table i) (\<lambda>con. liftW (asock_destroy_asock K con))))"

text \<open>
  The draining of a readable descriptor (lines 592 to 612): reads until the kernel has no more,
  each time with a buffer of 4096 bytes. Running out of fuel is \<open>Out_Of_Fuel\<close>.
\<close>

definition BUF_SIZE :: nat where "BUF_SIZE = 4096"

fun read_all_data :: "nat \<Rightarrow> kernel \<Rightarrow> int \<Rightarrow> ('a endpoint_scheme \<times> world, unit) op" where
  "read_all_data 0 K event_fd = failM Out_Of_Fuel"
| "read_all_data (Suc fuel) K event_fd =
     bindM (liftW (getsM (\<lambda>w. k_data K (w_log w) event_fd))) (\<lambda>buf.
     bindM (liftW (syscall K (Read event_fd BUF_SIZE))) (\<lambda>count.
       case count of
         Err errno \<Rightarrow>
           if errno \<noteq> EAGAIN
           then bindM (asock_service_close_connection K event_fd) (\<lambda>_. returnM ())
           else returnM ()
       | Ret n \<Rightarrow>
           if n = 0 then bindM (asock_service_close_connection K event_fd) (\<lambda>_. returnM ())
           else
             bindM (asock_service_index_of_con_by_sock_desc event_fd) (\<lambda>index.
             thenM
               (if index \<noteq> - 1
                then
                  bindM (connection_at e_connections (of_int index)) (\<lambda>con.
                  bindM (liftW (read_asock con)) (\<lambda>a.
                  bindM (liftR (\<lambda>(e, w). asock_tsqueue_enqueue (allocator_at K w) (m_in_queue a)
                                   (Some buf) (of_int n))) (\<lambda>(_, q).
                  thenM (liftW (bump_allocs 1))
                        (liftW (update_asock con (\<lambda>a. a\<lparr>m_in_queue := q\<rparr>))))))
                else returnM ())
               (read_all_data fuel K event_fd))))"

text \<open>The call of an application thread: the directive is posted, the owner's thread serves it
  (\<open>worker\<close>), and the result is taken; without a result the caller waits for ever.\<close>

definition asock_send_directive ::
    "('a endpoint_scheme \<times> world, unit) op \<Rightarrow> DirectiveType \<Rightarrow> direct_arg \<Rightarrow> direct_arg \<Rightarrow> direct_arg \<Rightarrow> direct_arg
     \<Rightarrow> ('a endpoint_scheme \<times> world, AsockReturnCode) op" where
  "asock_send_directive worker type arg1 arg2 arg3 arg4 =
     thenM (updateE (\<lambda>e. e\<lparr>e_directive := directive_post type arg1 arg2 arg3 arg4 (e_directive e)\<rparr>)) (
     thenM worker (
     bindM (getE (\<lambda>e. directive_take (e_directive e))) (\<lambda>r.
       case r of
         None \<Rightarrow> failM Diverges
       | Some (result, direct) \<Rightarrow>
           thenM (updateE (\<lambda>e. e\<lparr>e_directive := direct\<rparr>)) (returnM result))))"

definition set_directive_result :: "AsockReturnCode \<Rightarrow> ('a endpoint_scheme \<times> world, unit) op" where
  "set_directive_result result =
     updateE (\<lambda>e. e\<lparr>e_directive := asock_set_directive_result (e_directive e) result\<rparr>)"

text \<open>The body of an upward loop for each of a list of values.\<close>

primrec foreachM :: "('x \<Rightarrow> ('s, unit) op) \<Rightarrow> 'x list \<Rightarrow> ('s, unit) op" where
  "foreachM f [] = returnM ()"
| "foreachM f (x # xs) = thenM (f x) (foreachM f xs)"

lemma wp_foreachM:
  assumes "I [] s" "\<And>done x todo s. xs = done @ x # todo \<Longrightarrow> I done s \<Longrightarrow> wp F (f x) (\<lambda>_. I (done @ [x])) s"
  shows "wp F (foreachM f xs) (\<lambda>_. I xs) s"
proof -
  have "xs = done @ todo \<Longrightarrow> I done s \<Longrightarrow> wp F (foreachM f todo) (\<lambda>_. I xs) s" for "done" todo s
  proof (induction todo arbitrary: "done" s)
    case Nil
    then show ?case by (simp add: wp_simps)
  next
    case (Cons x todo)
    have "wp F (f x) (\<lambda>_. I (done @ [x])) s" using Cons.prems assms(2) by blast
    then have "wp F (f x) (\<lambda>_. wp F (foreachM f todo) (\<lambda>_. I xs)) s"
      by (rule wp_mono) (use Cons in simp)
    then show ?case by (simp add: wp_simps)
  qed
  from this [of "[]" xs s] assms(1) show ?thesis by simp
qed

text \<open>The first round of a new owner's thread.\<close>

definition start_thread ::
    "('a endpoint_scheme \<times> world, unit) op \<Rightarrow> 'a endpoint_scheme \<Rightarrow> (world, 'a endpoint_scheme) op" where
  "start_thread thread e w = bindR (thread (e, w)) (\<lambda>(_, e', w'). Inr (e', w'))"

lemma wp_start_thread [wp_simps]:
  "wp F (start_thread thread e) Q w = wp F thread (\<lambda>_ (e', w'). Q e' w') (e, w)"
  by (auto simp: wp_def start_thread_def bindR_def split: sum.splits prod.splits)

text \<open>Creating the tables and the mutex of a new owner.\<close>

definition CON_INIT_CAPACITY :: size_t where "CON_INIT_CAPACITY = 10"

definition create_table :: "kernel \<Rightarrow> (world, asock_vector option) op" where
  "create_table K =
     bindM (getsM (\<lambda>w. asock_connections_create (allocator_at K w) CON_INIT_CAPACITY)) (\<lambda>v.
     thenM (bump_allocs 2) (returnM v))"

definition mutex_init :: "kernel \<Rightarrow> (world, bool) op" where
  "mutex_init K = getsM (\<lambda>w. k_mutex_init K (w_allocs w))"

definition strdup_opt :: "kernel \<Rightarrow> string option \<Rightarrow> (world, string option) op" where
  "strdup_opt K s = (case s of None \<Rightarrow> returnM None | Some s \<Rightarrow> strdup K s)"

text \<open>Closing the namespace descriptor and freeing its name, at the end of a thread and in
  \<open>destroy\<close>.\<close>

definition release_namespace :: "kernel \<Rightarrow> ('a endpoint_scheme \<times> world, unit) op" where
  "release_namespace K =
     bindM (getE e_net_ns_fd) (\<lambda>fd.
     thenM (if fd \<noteq> - 1
            then bindM (liftW (syscall K (Close fd))) (\<lambda>_. updateE (\<lambda>e. e\<lparr>e_net_ns_fd := - 1\<rparr>))
            else returnM ())
           (updateE (\<lambda>e. e\<lparr>e_net_ns := None\<rparr>)))"

section \<open>Well-formed owners\<close>

definition fd_of :: "world \<Rightarrow> ptr \<Rightarrow> int" where
  "fd_of w p = m_sock_desc (the (w_asocks w p))"

definition con_ok :: "world \<Rightarrow> ptr \<Rightarrow> bool" where
  "con_ok w p \<longleftrightarrow> p \<noteq> 0 \<and> (\<exists>a. w_asocks w p = Some a
     \<and> 0 \<le> m_sock_desc a \<and> m_sock_desc a < 2 ^ 31 \<and> is_open (m_sock_desc a) (w_log w))"

text \<open>The tables as lists of pointers.\<close>

definition cons_of :: "'a endpoint_scheme \<Rightarrow> ptr list" where
  "cons_of e = con_ptrs (e_connections e)"

definition news_of :: "'a endpoint_scheme \<Rightarrow> ptr list" where
  "news_of e = con_ptrs (e_new_connections e)"

text \<open>
  The tables are well-formed and without repetition, every connection in them is a live object
  with an open descriptor, no two of them share a descriptor, and the mutex is free.
\<close>

definition owner_inv :: "'a endpoint_scheme \<Rightarrow> world \<Rightarrow> bool" where
  "owner_inv e w \<longleftrightarrow>
     con_inv (e_connections e) \<and> con_inv (e_new_connections e) \<and> \<not> e_new_connections_mutex e
     \<and> distinct (cons_of e) \<and> distinct (news_of e)
     \<and> (\<forall>p \<in> set (cons_of e) \<union> set (news_of e). con_ok w p)
     \<and> inj_on (fd_of w) (set (cons_of e) \<union> set (news_of e))"

text \<open>Their queues are well-formed and unlocked, and somebody holds a reference.\<close>

definition owner_ok :: "'a endpoint_scheme \<Rightarrow> world \<Rightarrow> bool" where
  "owner_ok e w \<longleftrightarrow> owner_inv e w
     \<and> (\<forall>p \<in> set (cons_of e) \<union> set (news_of e). asock_ok (the (w_asocks w p)))"

lemma owner_okD: "owner_ok e w \<Longrightarrow> p \<in> set (cons_of e) \<Longrightarrow> w_asocks w p = Some a \<Longrightarrow> asock_ok a"
  by (force simp: owner_ok_def)

text \<open>Steps that neither open nor close a descriptor nor free an object.\<close>

definition same_descs :: "world \<Rightarrow> world \<Rightarrow> bool" where
  "same_descs w w' \<longleftrightarrow>
     (\<forall>p. map_option m_sock_desc (w_asocks w' p) = map_option m_sock_desc (w_asocks w p))
     \<and> (\<forall>fd. is_open fd (w_log w') = is_open fd (w_log w))"

lemma same_descs_con_ok: "same_descs w w' \<Longrightarrow> con_ok w' p = con_ok w p"
  by (cases "w_asocks w p"; cases "w_asocks w' p"; force simp: same_descs_def con_ok_def dest: spec [of _ p])

lemma same_descs_fd_of: "same_descs w w' \<Longrightarrow> con_ok w p \<Longrightarrow> fd_of w' p = fd_of w p"
  by (cases "w_asocks w p"; cases "w_asocks w' p"; force simp: same_descs_def con_ok_def fd_of_def dest: spec [of _ p])

lemma same_descs_inv:
  assumes "same_descs w w'" "owner_inv e w"
  shows "owner_inv e w'"
proof -
  have "inj_on (fd_of w') (set (cons_of e) \<union> set (news_of e))
      = inj_on (fd_of w) (set (cons_of e) \<union> set (news_of e))"
    using assms by (intro inj_on_cong) (auto simp: owner_inv_def same_descs_fd_of)
  then show ?thesis using assms by (simp add: owner_inv_def same_descs_con_ok)
qed

lemma con_okE:
  assumes "con_ok w p"
  obtains a where "p \<noteq> 0" "w_asocks w p = Some a" "fd_of w p = m_sock_desc a"
    "0 \<le> m_sock_desc a" "m_sock_desc a < 2 ^ 31" "is_open (m_sock_desc a) (w_log w)"
  using assms by (auto simp: con_ok_def fd_of_def)

text \<open>There are fewer descriptors than indices of 31 bits.\<close>

lemma table_small:
  assumes ok: "\<And>p. p \<in> set ps \<Longrightarrow> con_ok w p" and "inj_on (fd_of w) (set ps)" "distinct ps"
  shows "length ps \<le> 2 ^ 31"
proof -
  have "fd_of w ` set ps \<subseteq> {0..<2 ^ 31}" using ok by (force simp: con_ok_def fd_of_def)
  then have "card (set ps) \<le> card {0..<2 ^ 31 :: int}"
    using assms(2) by (metis card_inj_on_le finite_atLeastLessThan_int)
  with assms(3) show ?thesis by (simp add: distinct_card)
qed

lemma owner_small:
  assumes "owner_inv e w"
  shows "length (cons_of e) \<le> 2 ^ 31" "length (news_of e) \<le> 2 ^ 31"
proof -
  show "length (cons_of e) \<le> 2 ^ 31"
    using assms by (intro table_small [of "cons_of e" w]) (auto simp: owner_inv_def inj_on_Un)
  show "length (news_of e) \<le> 2 ^ 31"
    using assms by (intro table_small [of "news_of e" w]) (auto simp: owner_inv_def inj_on_Un)
qed

lemma small_index:
  fixes k :: nat assumes "k < 2 ^ 31"
  shows "sint (of_nat k :: size_t) = int k" "signed_take_bit 31 (int k) = int k"
    "unat (of_nat k :: size_t) = k"
proof -
  have "int k < 2 ^ 31" using assms by simp
  then show "signed_take_bit 31 (int k) = int k" by (intro signed_take_bit_int_eq_self) simp_all
  have "int k < 2 ^ 63" using \<open>int k < 2 ^ 31\<close> by simp
  then show "sint (of_nat k :: size_t) = int k"
    by (simp add: signed_of_nat signed_take_bit_int_eq_self)
  show "unat (of_nat k :: size_t) = k" using assms by (intro unat_of_nat_size) simp
qed

lemma find_connection_spec:
  assumes "con_inv v" "\<And>p. p \<in> set (con_ptrs v) \<Longrightarrow> con_ok w p"
  shows "find_connection v w test =
    Inr (map_option of_nat (first_index (\<lambda>p. test (the (w_asocks w p))) (con_ptrs v)))"
  unfolding find_connection_def using assms
  by (intro cons.search) (fastforce simp: deref_def con_ok_def)+

lemma wp_connection_at:
  assumes "con_inv (table e)" "k < length (con_ptrs (table e))"
  shows "wp F (connection_at table (of_nat k)) Q (e, w) = Q (con_ptrs (table e) ! k) (e, w)"
  using cons.get_law [OF assms] by (simp add: connection_at_def wp_simps)

lemma wp_index_by_sock_desc:
  assumes "owner_inv e w"
  shows "wp F (asock_service_index_of_con_by_sock_desc sockd) Q (e, w) =
    Q (case first_index (\<lambda>p. fd_of w p = sockd) (cons_of e) of None \<Rightarrow> - 1 | Some k \<Rightarrow> int k) (e, w)"
proof -
  have "k < 2 ^ 31" if "first_index (\<lambda>p. fd_of w p = sockd) (cons_of e) = Some k" for k
    using first_index_Some [OF that] owner_small(1) [OF assms] by simp
  then have "index_result (map_option of_nat (first_index (\<lambda>p. fd_of w p = sockd) (cons_of e))) =
    (case first_index (\<lambda>p. fd_of w p = sockd) (cons_of e) of None \<Rightarrow> - 1 | Some k \<Rightarrow> int k)"
    by (auto simp: index_result_def small_index split: option.split)
  moreover have "find_connection (e_connections e) w (\<lambda>a. m_sock_desc a = sockd) =
    Inr (map_option of_nat (first_index (\<lambda>p. fd_of w p = sockd) (cons_of e)))"
    using assms by (subst find_connection_spec) (auto simp: owner_inv_def cons_of_def fd_of_def)
  ultimately show ?thesis
    by (simp add: asock_service_index_of_con_by_sock_desc_def wp_simps)
qed

section \<open>Closing a connection\<close>

text \<open>What closing does to the world: the object is marked failed and disconnected, its descriptor is
  closed and the owner's reference dropped; with the last reference the object goes, and its
  descriptor is closed once more.\<close>

definition closed_world :: "kernel \<Rightarrow> world \<Rightarrow> ptr \<Rightarrow> world" where
  "closed_world K w p =
     (let a = the (w_asocks w p); close_it = Close (m_sock_desc a);
          l = (close_it, k_ret K (w_log w) close_it) # w_log w in
      if m_ref_counter a = 1
      then w\<lparr>w_log := (close_it, k_ret K l close_it) # l, w_asocks := (w_asocks w)(p := None)\<rparr>
      else w\<lparr>w_log := l, w_asocks := (w_asocks w)(p \<mapsto>
             a\<lparr>m_state := Failed, m_disconnect := True, m_ref_counter := m_ref_counter a - 1\<rparr>)\<rparr>)"

definition same_but_tables :: "'a endpoint_scheme \<Rightarrow> 'a endpoint_scheme \<Rightarrow> bool" where
  "same_but_tables e e' \<longleftrightarrow>
     e_new_connections_mutex e' = e_new_connections_mutex e \<and> e_epoll_desc e' = e_epoll_desc e
     \<and> e_status e' = e_status e \<and> e_id e' = e_id e \<and> e_directive e' = e_directive e
     \<and> e_net_ns e' = e_net_ns e \<and> e_net_ns_fd e' = e_net_ns_fd e \<and> e_thread e' = e_thread e
     \<and> endpoint.more e' = endpoint.more e"

lemma same_but_tables_refl [simp]: "same_but_tables e e"
  by (simp add: same_but_tables_def)

lemma same_but_tables_trans: "same_but_tables e e' \<Longrightarrow> same_but_tables e' e'' \<Longrightarrow> same_but_tables e e''"
  by (simp add: same_but_tables_def)

text \<open>Entries leave the tables, and the objects that stay keep their descriptors.\<close>

lemma owner_inv_shrink:
  assumes inv: "owner_inv e w"
    and tables: "con_inv (e_connections e')" "con_inv (e_new_connections e')" "\<not> e_new_connections_mutex e'"
    and cs: "cons_of e' = filter P (cons_of e)" and ns: "news_of e' = filter R (news_of e)"
    and keep: "\<And>q. q \<in> set (cons_of e') \<union> set (news_of e') \<Longrightarrow> con_ok w' q \<and> fd_of w' q = fd_of w q"
  shows "owner_inv e' w'"
proof -
  have "set (cons_of e') \<union> set (news_of e') \<subseteq> set (cons_of e) \<union> set (news_of e)" using cs ns by auto
  then have "inj_on (fd_of w) (set (cons_of e') \<union> set (news_of e'))"
    using inv unfolding owner_inv_def by (metis inj_on_subset)
  then have "inj_on (fd_of w') (set (cons_of e') \<union> set (news_of e'))"
    using keep by (subst inj_on_cong [of _ _ "fd_of w"]) auto
  then show ?thesis using inv tables keep cs ns by (simp add: owner_inv_def)
qed

lemma is_open_others: "fd \<noteq> fd' \<Longrightarrow> is_open fd ((Close fd', r) # l) = is_open fd l"
  by simp

lemma closed_world_others:
  assumes "fd_of w q \<noteq> fd_of w p" "q \<noteq> p"
  shows "con_ok (closed_world K w p) q = con_ok w q" "fd_of (closed_world K w p) q = fd_of w q"
  using assms by (auto simp: closed_world_def con_ok_def fd_of_def Let_def)

lemma closed_world_keeps:
  assumes "q \<noteq> p"
  shows "w_asocks (closed_world K w p) q = w_asocks w q" "fd_of (closed_world K w p) q = fd_of w q"
  using assms by (simp_all add: closed_world_def fd_of_def Let_def)

text \<open>The search of the table of new connections and the deletion of what it finds.\<close>

lemma wp_forget_new:
  assumes inv: "owner_inv e w"
    and Q: "\<And>v. con_inv v \<Longrightarrow> con_ptrs v = filter (\<lambda>q. fd_of w q \<noteq> sockd) (news_of e) \<Longrightarrow>
        wp F m Q (e\<lparr>e_new_connections_mutex := True, e_new_connections := v\<rparr>, w)"
  shows "wp F (bindM (liftR (\<lambda>(e, w). find_connection (e_new_connections e) w (\<lambda>a. m_sock_desc a = sockd))) (\<lambda>i.
     thenM (case i of None \<Rightarrow> returnM () | Some i \<Rightarrow> bindM (erase_new_connection i) (\<lambda>_. returnM ())) m))
     Q (e\<lparr>e_new_connections_mutex := True\<rparr>, w)"
proof -
  let ?v = "e_new_connections e" and ?P = "\<lambda>p. fd_of w p = sockd"
  have v: "con_inv ?v" "distinct (news_of e)" "\<And>p. p \<in> set (con_ptrs ?v) \<Longrightarrow> con_ok w p"
    "inj_on (fd_of w) (set (news_of e))"
    using inv by (auto simp: owner_inv_def news_of_def inj_on_Un)
  have find: "find_connection ?v w (\<lambda>a. m_sock_desc a = sockd) =
      Inr (map_option of_nat (first_index ?P (news_of e)))"
    using v by (subst find_connection_spec) (auto simp: news_of_def fd_of_def)
  show ?thesis
  proof (cases "first_index ?P (news_of e)")
    case None
    then have "filter (\<lambda>q. \<not> ?P q) (news_of e) = news_of e" by (simp add: first_index_None filter_id_conv)
    with None find Q [of ?v] v(1) show ?thesis by (simp add: wp_simps news_of_def endpoint.update_convs)
  next
    case (Some k)
    note k = first_index_Some [OF this]
    then have "?P q \<longleftrightarrow> q = news_of e ! k" if "q \<in> set (news_of e)" for q
      using v(4) that by (metis inj_onD nth_mem)
    then have "delete_at k (news_of e) = filter (\<lambda>q. \<not> ?P q) (news_of e)"
      using delete_at_filter [OF v(2), of k] k by (auto cong: filter_cong)
    moreover obtain v' where "asock_connections_erase ?v (of_nat k) = Inr (ASOCK_SUCCESS, v')"
        "con_inv v'" "con_ptrs v' = delete_at k (news_of e)"
      using cons.erase_law [OF v(1), of k] k by (auto simp: news_of_def)
    ultimately show ?thesis
      using Some find Q [of v'] by (simp add: wp_simps erase_new_connection_def)
  qed
qed

lemma wp_close_connection:
  assumes inv: "owner_inv e w" and p: "p \<in> set (cons_of e)" "fd_of w p = sockd"
    and Q: "\<And>e'. owner_inv e' (closed_world K w p) \<Longrightarrow>
        cons_of e' = filter (\<lambda>q. q \<noteq> p) (cons_of e) \<Longrightarrow> news_of e' = filter (\<lambda>q. q \<noteq> p) (news_of e) \<Longrightarrow>
        same_but_tables e e' \<Longrightarrow> Q ASOCK_SUCCESS (e', closed_world K w p)"
  shows "wp F (asock_service_close_connection K sockd) Q (e, w)"
proof -
  have ok: "con_ok w p" and inj: "inj_on (fd_of w) (set (cons_of e) \<union> set (news_of e))"
    and dist: "distinct (cons_of e)" "distinct (news_of e)"
    and live: "\<And>q. q \<in> set (cons_of e) \<union> set (news_of e) \<Longrightarrow> con_ok w q"
    using inv p(1) by (auto simp: owner_inv_def)
  from ok obtain a where a: "p \<noteq> 0" "w_asocks w p = Some a" "m_sock_desc a = sockd" "0 \<le> sockd"
    using p(2) by (auto elim!: con_okE)
  have only: "fd_of w q = sockd \<longleftrightarrow> q = p" if "q \<in> set (cons_of e) \<union> set (news_of e)" for q
    using inj_onD [OF inj _ that, of p] p by auto
  obtain k where k: "first_index (\<lambda>q. fd_of w q = sockd) (cons_of e) = Some k" "k < length (cons_of e)"
      "cons_of e ! k = p" "delete_at k (cons_of e) = filter (\<lambda>q. q \<noteq> p) (cons_of e)"
    using first_index_unique [OF dist(1) p(1), of "\<lambda>q. fd_of w q = sockd"] only p(2) by auto
  have ns: "filter (\<lambda>q. fd_of w q \<noteq> sockd) (news_of e) = filter (\<lambda>q. q \<noteq> p) (news_of e)"
    using only by (auto cong: filter_cong)
  have cinv: "con_inv (e_connections e)" using inv by (simp add: owner_inv_def)
  obtain v where v: "asock_connections_erase (e_connections e) (of_nat k) = Inr (ASOCK_SUCCESS, v)"
      "con_inv v" "con_ptrs v = filter (\<lambda>q. q \<noteq> p) (cons_of e)"
    using cons.erase_law [OF cinv, of k] k by (auto simp: cons_of_def)
  have idx: "int k \<noteq> - 1" "of_int (int k) = (of_nat k :: size_t)" by simp_all
  have body: "wp F (bindM (asock_service_index_of_con_by_sock_desc sockd) (\<lambda>index.
       if index = - 1 then returnM ASOCK_ERR_INVAL
       else
         bindM (connection_at e_connections (of_int index)) (\<lambda>con.
         thenM (liftW (update_asock con (\<lambda>a. a\<lparr>m_state := Failed\<rparr>))) (
         bindM (liftW (syscall K (Close sockd))) (\<lambda>_.
         thenM (liftW (asock_destroy_asock K con)) (
         bindM (erase_connection (of_int index)) (\<lambda>_.
         returnM ASOCK_SUCCESS))))))) Q (e1, w)"
    if e1: "same_but_tables e e1" "e_connections e1 = e_connections e" "con_inv (e_new_connections e1)"
      "news_of e1 = filter (\<lambda>q. fd_of w q \<noteq> sockd) (news_of e)" for e1
  proof -
    have cs: "cons_of e1 = cons_of e" using e1 by (simp add: cons_of_def)
    have unlocked: "\<not> e_new_connections_mutex e1" using e1(1) inv by (simp add: same_but_tables_def owner_inv_def)
    have "owner_inv e1 w"
      by (rule owner_inv_shrink [OF inv, of _ "\<lambda>_. True" "\<lambda>q. fd_of w q \<noteq> sockd"])
        (use cinv e1 cs live unlocked in auto)
    then have idx: "wp F (asock_service_index_of_con_by_sock_desc sockd) R (e1, w) = R (int k) (e1, w)" for R
      using k(1) cs by (simp add: wp_index_by_sock_desc)
    have at: "wp F (connection_at e_connections (of_nat k)) R (e1, w) = R p (e1, w)" for R
      using wp_connection_at [of e_connections e1 k] cinv k e1 by (simp add: cons_of_def)
    have erase: "wp F (erase_connection (of_nat k)) R (e1, w') = R ASOCK_SUCCESS (e1\<lparr>e_connections := v\<rparr>, w')"
      for R w' using v(1) e1(2) by (simp add: erase_connection_def wp_simps)
    let ?e = "e1\<lparr>e_connections := v\<rparr>"
    have "Q ASOCK_SUCCESS (?e, closed_world K w p)"
    proof (rule Q)
      show cs': "cons_of ?e = filter (\<lambda>q. q \<noteq> p) (cons_of e)" "news_of ?e = filter (\<lambda>q. q \<noteq> p) (news_of e)"
        using e1(4) v ns by (simp_all add: cons_of_def news_of_def)
      show "same_but_tables e ?e" using e1(1) by (simp add: same_but_tables_def)
      show "owner_inv ?e (closed_world K w p)"
      proof (rule owner_inv_shrink [OF inv _ _ _ cs'])
        fix q assume "q \<in> set (cons_of ?e) \<union> set (news_of ?e)"
        then have q: "q \<in> set (cons_of e) \<union> set (news_of e)" "q \<noteq> p" using cs' by auto
        then have "fd_of w q \<noteq> fd_of w p" using only [OF q(1)] p(2) by simp
        then show "con_ok (closed_world K w p) q \<and> fd_of (closed_world K w p) q = fd_of w q"
          using closed_world_others [of w q p K] q live by simp
      qed (use v e1 unlocked in simp_all)
    qed
    then show ?thesis
      using a(1,2,4)
      by (cases "m_ref_counter a = 1")
        (simp_all add: a(3) wp_simps idx at erase asock_destroy_asock_spec closed_world_def Let_def)
  qed
  show ?thesis
    unfolding asock_service_close_connection_def wp_then wp_assert wp_lock_new
    using a inv
    by (simp add: owner_inv_def)
      (intro wp_forget_new [OF inv] wp_then [THEN iffD2] wp_unlock_new [THEN iffD2] body,
       simp_all add: same_but_tables_def news_of_def)
qed

text \<open>A descriptor that belongs to no connection of the owner.\<close>

lemma wp_close_absent:
  assumes inv: "owner_inv e w" and sockd: "0 \<le> sockd" "\<And>p. p \<in> set (cons_of e) \<Longrightarrow> fd_of w p \<noteq> sockd"
    and Q: "\<And>e'. owner_inv e' w \<Longrightarrow> cons_of e' = cons_of e \<Longrightarrow>
        news_of e' = filter (\<lambda>q. fd_of w q \<noteq> sockd) (news_of e) \<Longrightarrow>
        same_but_tables e e' \<Longrightarrow> Q ASOCK_ERR_INVAL (e', w)"
  shows "wp F (asock_service_close_connection K sockd) Q (e, w)"
proof -
  have body: "wp F (bindM (asock_service_index_of_con_by_sock_desc sockd) (\<lambda>index.
       if index = - 1 then returnM ASOCK_ERR_INVAL
       else
         bindM (connection_at e_connections (of_int index)) (\<lambda>con.
         thenM (liftW (update_asock con (\<lambda>a. a\<lparr>m_state := Failed\<rparr>))) (
         bindM (liftW (syscall K (Close sockd))) (\<lambda>_.
         thenM (liftW (asock_destroy_asock K con)) (
         bindM (erase_connection (of_int index)) (\<lambda>_.
         returnM ASOCK_SUCCESS))))))) Q (e1, w)"
    if e1: "same_but_tables e e1" "e_connections e1 = e_connections e" "con_inv (e_new_connections e1)"
      "news_of e1 = filter (\<lambda>q. fd_of w q \<noteq> sockd) (news_of e)" for e1
  proof -
    have cs: "cons_of e1 = cons_of e" using e1 by (simp add: cons_of_def)
    have inv1: "owner_inv e1 w"
      by (rule owner_inv_shrink [OF inv, of _ "\<lambda>_. True" "\<lambda>q. fd_of w q \<noteq> sockd"])
        (use inv e1 cs in \<open>auto simp: owner_inv_def same_but_tables_def\<close>)
    have "first_index (\<lambda>p. fd_of w p = sockd) (cons_of e1) = None"
      using sockd(2) cs by (simp add: first_index_None)
    then show ?thesis using Q [OF inv1 cs e1(4,1)] by (simp add: wp_simps wp_index_by_sock_desc [OF inv1])
  qed
  show ?thesis
    unfolding asock_service_close_connection_def wp_then wp_assert wp_lock_new
    using sockd(1) inv
    by (simp add: owner_inv_def)
      (intro wp_forget_new [OF inv] wp_then [THEN iffD2] wp_unlock_new [THEN iffD2] body,
       simp_all add: same_but_tables_def news_of_def)
qed

section \<open>Sending\<close>

text \<open>A connection of the table is found by its identifier.\<close>

lemma wp_index_of_con:
  assumes inv: "owner_inv e w" and p: "p \<in> set (cons_of e)" "w_asocks w p = Some a"
    and Q: "m_master_id a \<noteq> e_id e \<Longrightarrow> Q (- 1) (e, w)"
      "\<And>k. m_master_id a = e_id e \<Longrightarrow> k < 2 ^ 31 \<Longrightarrow> Q (int k) (e, w)"
  shows "wp F (asock_service_index_of_con p) Q (e, w)"
proof -
  let ?P = "\<lambda>q. m_connection_id a = m_connection_id (the (w_asocks w q))"
  have "find_connection (e_connections e) w (\<lambda>b. m_connection_id a = m_connection_id b) =
      Inr (map_option of_nat (first_index ?P (cons_of e)))"
    using inv by (subst find_connection_spec) (auto simp: owner_inv_def cons_of_def)
  moreover have "first_index ?P (cons_of e) \<noteq> None"
    using p by (auto simp: first_index_None intro!: bexI [of _ p])
  then obtain k where k: "first_index ?P (cons_of e) = Some k" by blast
  moreover have "k < 2 ^ 31" using first_index_Some [OF k] owner_small(1) [OF inv] by simp
  moreover have "p \<noteq> 0" using inv p by (auto simp: owner_inv_def con_ok_def)
  ultimately show ?thesis
    using p(2) Q by (simp add: asock_service_index_of_con_def wp_simps index_result_def small_index)
qed

lemma wp_try_send:
  fixes bytes :: "byte list" and len :: "32 word"
  assumes inv: "owner_inv e w" and K: "kernel_ok K"
    and p: "p \<in> set (cons_of e)" "w_asocks w p = Some a"
  defines "req \<equiv> Send (m_sock_desc a) (take (unat len) bytes)"
  assumes idle: "Q (- 1) (e, w)"
    and sent: "\<And>n. 0 \<le> n \<Longrightarrow> n \<le> int (min (unat len) (length bytes)) \<Longrightarrow>
        Q n (e, w\<lparr>w_log := (req, Ret n) # w_log w\<rparr>)"
    and again: "\<And>errno. Q 0 (e, w\<lparr>w_log := (req, Err errno) # w_log w\<rparr>)"
    and closed: "\<And>errno e'. let w1 = w\<lparr>w_log := (req, Err errno) # w_log w\<rparr> in
        owner_inv e' (closed_world K w1 p) \<longrightarrow> cons_of e' = filter (\<lambda>q. q \<noteq> p) (cons_of e) \<longrightarrow>
        news_of e' = filter (\<lambda>q. q \<noteq> p) (news_of e) \<longrightarrow> same_but_tables e e' \<longrightarrow>
        Q (- 1) (e', closed_world K w1 p)"
  shows "wp F (asock_service_try_send_data K p bytes len) Q (e, w)"
proof -
  have p0: "p \<noteq> 0" using inv p by (auto simp: owner_inv_def con_ok_def)
  have minus: "signed_take_bit 31 (- 1 :: int) = - 1" by simp
  let ?w1 = "\<lambda>errno. w\<lparr>w_log := (req, Err errno) # w_log w\<rparr>"
  have inv1: "owner_inv e (?w1 errno)" for errno
    by (rule same_descs_inv [OF _ inv]) (simp add: same_descs_def req_def)
  have close: "wp F (asock_service_close_connection K (m_sock_desc a)) (\<lambda>_. Q (- 1)) (e, ?w1 errno)" for errno
    by (rule wp_close_connection [OF inv1 p(1)])
      (use p(2) closed [of errno] in \<open>simp_all add: fd_of_def Let_def\<close>)
  have send: "wp F (bindM (liftW (syscall K req)) (\<lambda>n.
       case n of
         Ret n \<Rightarrow> returnM n
       | Err errno \<Rightarrow>
           if errno = EWOULDBLOCK \<or> errno = EAGAIN then returnM 0
           else bindM (asock_service_close_connection K (m_sock_desc a)) (\<lambda>_. returnM (- 1)))) Q (e, w)"
  proof (cases "k_ret K (w_log w) req")
    case (Ret n)
    then have "0 \<le> n" "n \<le> int (min (unat len) (length bytes))"
      using kernel_okD(2) [OF K Ret [unfolded req_def]] by (auto simp: min.commute)
    with Ret sent show ?thesis by (simp add: wp_simps)
  next
    case (Err errno)
    then show ?thesis using again close by (simp add: wp_simps)
  qed
  show ?thesis
    unfolding asock_service_try_send_data_def
    by (auto simp: wp_simps p0 p(2) idle minus small_index asock_service_is_running_def
        req_def [symmetric] intro!: wp_index_of_con [OF inv p] send [unfolded wp_bind wp_liftW wp_syscall] split: AsockConState.split)
qed

text \<open>
  What reached the kernel on a connection's descriptor followed by what still waits in its output
  queue.
\<close>

definition stream :: "world \<Rightarrow> ptr \<Rightarrow> byte list" where
  "stream w p = sent (fd_of w p) (w_log w) @ queue_data (m_out_queue (the (w_asocks w p)))"

text \<open>The object stays in use: well-formed, and with no more to send than before.\<close>

definition lasts :: "world \<Rightarrow> ptr \<Rightarrow> world \<Rightarrow> bool" where
  "lasts w p w' \<longleftrightarrow> (\<exists>b. w_asocks w' p = Some b \<and> asock_ok b
     \<and> length (queue_data (m_out_queue b)) \<le> length (queue_data (m_out_queue (the (w_asocks w p)))))"

lemma lasts_live: "lasts w p w' \<Longrightarrow> w_asocks w' p \<noteq> None"
  by (auto simp: lasts_def)

lemma lasts_trans: "lasts w p w1 \<Longrightarrow> lasts w1 p w2 \<Longrightarrow> lasts w p w2"
  by (auto simp: lasts_def)

lemma lasts_same: "w_asocks w1 p = w_asocks w p \<Longrightarrow> w_asocks w2 p = w_asocks w' p \<Longrightarrow> lasts w1 p w2 = lasts w p w'"
  by (simp add: lasts_def)

lemma lasts_refl: "w_asocks w p = Some a \<Longrightarrow> asock_ok a \<Longrightarrow> lasts w p w"
  by (simp add: lasts_def)

lemma owner_lasts:
  assumes ok: "owner_ok e w" and p: "p \<in> set (cons_of e)"
  shows "lasts w p w"
proof -
  have "con_ok w p" using assms by (simp add: owner_ok_def owner_inv_def)
  then obtain a where "w_asocks w p = Some a" by (rule con_okE)
  with owner_okD [OF ok p] show ?thesis by (simp add: lasts_def)
qed

lemma asock_ok_released:
  assumes "asock_ok a" "m_ref_counter a \<noteq> 1"
  shows "asock_ok (a\<lparr>m_state := s, m_disconnect := d, m_ref_counter := m_ref_counter a - 1\<rparr>)"
    and "asock_ok (a\<lparr>m_sock_desc := fd, m_state := s, m_disconnect := d, m_ref_counter := m_ref_counter a - 1\<rparr>)"
proof -
  have "1 \<le> m_ref_counter a - 1" using assms unfolding asock_ok_def by unat_arith
  then show "asock_ok (a\<lparr>m_state := s, m_disconnect := d, m_ref_counter := m_ref_counter a - 1\<rparr>)"
    and "asock_ok (a\<lparr>m_sock_desc := fd, m_state := s, m_disconnect := d, m_ref_counter := m_ref_counter a - 1\<rparr>)"
    using assms(1) by (simp_all add: asock_ok_def)
qed

text \<open>The effect of one round of the sending loop on a connection: its object stays, its stream is
  unchanged, nothing else is touched; it may have left the tables.\<close>

definition sent_step :: "'a endpoint_scheme \<Rightarrow> world \<Rightarrow> ptr \<Rightarrow> 'a endpoint_scheme \<Rightarrow> world \<Rightarrow> bool" where
  "sent_step e w p e' w' \<longleftrightarrow>
     owner_ok e' w' \<and> same_but_tables e e'
     \<and> (cons_of e' = cons_of e \<and> news_of e' = news_of e
        \<or> cons_of e' = filter (\<lambda>q. q \<noteq> p) (cons_of e) \<and> news_of e' = filter (\<lambda>q. q \<noteq> p) (news_of e))
     \<and> m_in_queue (the (w_asocks w' p)) = m_in_queue (the (w_asocks w p))
     \<and> (p \<in> set (cons_of e') \<longrightarrow> m_ref_counter (the (w_asocks w' p)) = m_ref_counter (the (w_asocks w p)))
     \<and> (\<forall>q. q \<noteq> p \<longrightarrow> w_asocks w' q = w_asocks w q)
     \<and> lasts w p w' \<and> fd_of w' p = fd_of w p \<and> stream w' p = stream w p
     \<and> (\<forall>fd. fd \<noteq> fd_of w p \<longrightarrow> sent fd (w_log w') = sent fd (w_log w))
     \<and> (\<forall>K fd. got K fd (w_log w') = got K fd (w_log w))"

lemma owner_ok_same_descs:
  assumes "owner_ok e w" "same_descs w w'" "\<And>q. q \<noteq> p \<Longrightarrow> w_asocks w' q = w_asocks w q"
    "asock_ok (the (w_asocks w' p))"
  shows "owner_ok e w'"
  using assms same_descs_inv [OF assms(2)] unfolding owner_ok_def by metis

text \<open>The queue after the round: what was sent is gone from it.\<close>

lemma sent_step_taken:
  assumes ok: "owner_ok e w" and p: "p \<in> set (cons_of e)" "w_asocks w p = Some a"
    and q: "byte_queue_ok q'" "queue_data q' = drop n (queue_data (m_out_queue a))"
    and l: "\<And>fd. sent fd l = sent fd (w_log w) @ (if fd = fd_of w p then take n (queue_data (m_out_queue a)) else [])"
      "\<And>fd. is_open fd l = is_open fd (w_log w)" "\<And>K fd. got K fd l = got K fd (w_log w)"
    and w': "w_log w' = l" "w_asocks w' = (w_asocks w)(p \<mapsto> a\<lparr>m_out_queue := q'\<rparr>)"
  shows "sent_step e w p e w'"
proof -
  have "asock_ok a" using owner_okD [OF ok p] .
  moreover have "owner_ok e w'"
    by (rule owner_ok_same_descs [OF ok, of _ p])
      (use w' p(2) l(2) q(1) \<open>asock_ok a\<close> in \<open>auto simp: same_descs_def asock_ok_def\<close>)
  ultimately show ?thesis
    using p(2) q l(1,3) w' by (simp add: sent_step_def stream_def fd_of_def lasts_def asock_ok_def)
qed

lemma sent_step_closed:
  assumes ok: "owner_ok e w" and p: "p \<in> set (cons_of e)" "w_asocks w p = Some a"
    and ref: "m_ref_counter a \<noteq> 1"
    and w1: "w_log w1 = (Send fd bs, Err errno) # w_log w"
      "w_asocks w1 = (w_asocks w)(p \<mapsto> a\<lparr>m_out_queue := q\<rparr>)"
    and e': "owner_inv e' (closed_world K w1 p)" "cons_of e' = filter (\<lambda>q. q \<noteq> p) (cons_of e)"
      "news_of e' = filter (\<lambda>q. q \<noteq> p) (news_of e)" "same_but_tables e e'"
    and w': "w_log w' = w_log (closed_world K w1 p)"
      "w_asocks w' = (w_asocks (closed_world K w1 p))(p \<mapsto>
         (the (w_asocks (closed_world K w1 p) p))\<lparr>m_out_queue := m_out_queue a\<rparr>)"
  shows "sent_step e w p e' w'"
proof -
  let ?b = "a\<lparr>m_state := Failed, m_disconnect := True, m_ref_counter := m_ref_counter a - 1\<rparr>"
  let ?c = "Close (m_sock_desc a)"
  have objs: "w_asocks w' = (w_asocks w)(p \<mapsto> ?b)"
    using w'(2) w1(2) ref by (simp add: closed_world_def Let_def)
  have cw: "w_asocks (closed_world K w1 p) = (w_asocks w)(p \<mapsto>
      a\<lparr>m_out_queue := q, m_state := Failed, m_disconnect := True, m_ref_counter := m_ref_counter a - 1\<rparr>)"
    using w1(2) ref by (simp add: closed_world_def Let_def)
  have log: "w_log w' = (?c, k_ret K (w_log w1) ?c) # (Send fd bs, Err errno) # w_log w"
    using w'(1) w1 ref by (simp add: closed_world_def Let_def)
  have "same_descs (closed_world K w1 p) w'" using w'(1) objs cw by (simp add: same_descs_def)
  then have "owner_inv e' w'" using e'(1) by (rule same_descs_inv)
  then have "owner_ok e' w'"
    using ok e'(2,3) objs by (auto simp: owner_ok_def)
  moreover have "asock_ok ?b"
    using asock_ok_released(1) [OF owner_okD [OF ok p] ref] .
  ultimately show ?thesis
    using p(2) e' objs log by (auto simp: sent_step_def stream_def fd_of_def lasts_def)
qed

lemma wp_send_unsent_from:
  assumes ok: "owner_ok e w" and K: "kernel_ok K"
    and k: "k < length (cons_of e)" "cons_of e ! k = p" and a: "w_asocks w p = Some a"
    and ref: "m_ref_counter a = 1 \<Longrightarrow> F Use_After_Free"
  shows "wp F (send_unsent_from K (of_nat k)) (\<lambda>_ (e', w'). sent_step e w p e' w') (e, w)"
proof -
  let ?q = "m_out_queue a" and ?a1 = "a\<lparr>m_out_queue := (m_out_queue a)\<lparr>q_mutex := True\<rparr>\<rparr>"
  let ?w1 = "w\<lparr>w_asocks := (w_asocks w)(p \<mapsto> ?a1)\<rparr>"
  have inv: "owner_inv e w" and p: "p \<in> set (cons_of e)" using ok k by (auto simp: owner_ok_def)
  then have p0: "p \<noteq> 0" and cinv: "con_inv (e_connections e)" by (auto simp: owner_inv_def con_ok_def)
  have q: "byte_queue_ok ?q" using owner_okD [OF ok p a] by (simp add: asock_ok_def)
  then have free: "\<not> q_mutex ?q" by (simp add: byte_queue_ok_def)
  then have unlock: "queue_unlock (?q\<lparr>q_mutex := True\<rparr>) = ?q" by (simp add: queue_unlock_def)
  have inv1: "owner_inv e ?w1"
    by (rule same_descs_inv [OF _ inv]) (simp add: same_descs_def a)
  have at: "wp F (connection_at e_connections (of_nat k)) R (e, w) = R p (e, w)" for R
    using wp_connection_at [of e_connections e k] cinv k by (simp add: cons_of_def)
  let ?n = "asock_tsqueue_head_size ?q"
  have hs: "asock_tsqueue_head_size (?q\<lparr>q_mutex := True\<rparr>) = ?n"
    "asock_tsqueue_head (?q\<lparr>q_mutex := True\<rparr>) = asock_tsqueue_head ?q"
    by (simp_all add: asock_tsqueue_head_size_def asock_tsqueue_head_def)
  note step = sent_step_taken [OF ok p a]
  have drop: "(of_int m :: size_t) \<le> ?n \<and> wp F (out_queue_drop p (of_int m)) (\<lambda>_ w'. sent_step e w p e w')
      (w\<lparr>w_log := l, w_asocks := (w_asocks w)(p \<mapsto> a)\<rparr>)"
    if m: "0 \<le> m" "m \<le> int (unat ?n)"
      and l: "\<And>fd. sent fd l = sent fd (w_log w) @ (if fd = fd_of w p then take (nat m) (queue_data ?q) else [])"
      "\<And>fd. is_open fd l = is_open fd (w_log w)" "\<And>K fd. got K fd l = got K fd (w_log w)" for m l
  proof -
    have "nat m \<le> unat ?n" using m(2) by (simp add: nat_le_iff)
    then have "nat m < 2 ^ 64" by (rule le_less_trans) (use unsigned_less [of ?n, where 'a = nat] in simp)
    moreover have "(of_int m :: size_t) = of_nat (nat m)" using m(1) by simp
    ultimately have um: "unat (of_int m :: size_t) = nat m" by (simp add: unat_of_nat_size)
    moreover have "min (nat m) (length (queue_data ?q)) = nat m"
      using m byte_head(1) [OF q] by linarith
    ultimately obtain q' where "asock_tsqueue_dequeue ?q None (of_int m) = Inr (of_nat (nat m), None, q')"
        "byte_queue_ok q'" "queue_data q' = drop (nat m) (queue_data ?q)"
      using byte_dequeue [OF q, of None "of_int m"] by auto
    then have "wp F (out_queue_drop p (of_int m)) (\<lambda>_ w'. sent_step e w p e w')
      (w\<lparr>w_log := l, w_asocks := (w_asocks w)(p \<mapsto> a)\<rparr>)" using p0 l
      by (simp add: out_queue_drop_def wp_simps) (rule step, simp_all)
    moreover have "(of_int m :: size_t) \<le> ?n" using um \<open>nat m \<le> unat ?n\<close> by (simp add: word_le_nat_alt)
    ultimately show ?thesis by blast
  qed
  show ?thesis
  proof (cases "?n = 0")
    case True
    show ?thesis
      using True p0 a free by (simp add: send_unsent_from_def wp_simps at out_queue_lock_def
          out_queue_unlock_def Let_def hs unlock) (rule step [of ?q 0], simp_all add: q)
  next
    case False
    then have "unat ?n \<noteq> 0" by (simp add: unat_eq_zero)
    then obtain off where off: "asock_tsqueue_head ?q = Some off"
        "mem_read (q_data ?q) off ?n = Inr (take (unat ?n) (queue_data ?q))"
      using byte_head(3) [OF q] by auto
    have round: "wp F (asock_service_try_send_data K p (take (unat ?n) (queue_data ?q)) (ucast ?n))
        (\<lambda>send_data_sz. wp F (thenM (liftW (out_queue_unlock p)) (
           if send_data_sz < 0 then returnM ()
           else thenM (assertM ((of_int send_data_sz :: size_t) \<le> ?n))
                   (liftW (out_queue_drop p (of_int send_data_sz))))) (\<lambda>_ (e', w'). sent_step e w p e' w'))
        (e, ?w1)"
    proof (rule wp_try_send [OF inv1 K p, of ?a1], goal_cases)
      case 1
      then show ?case by simp
    next
      case 2
      show ?case
        using p0 by (simp add: wp_simps out_queue_unlock_def unlock) (rule step [of ?q 0], simp_all add: q)
    next
      case (3 m)
      let ?l = "(Send (m_sock_desc a) (take (unat (ucast ?n :: 32 word)) (take (unat ?n) (queue_data ?q))), Ret m) # w_log w"
      have m: "m \<le> int (unat ?n)" "m \<le> int (unat (ucast ?n :: 32 word))"
        by (rule order_trans [OF 3(2)], rule of_nat_mono, simp)+
      then have "take (nat m) (take (unat (ucast ?n :: 32 word)) (take (unat ?n) (queue_data ?q))) = take (nat m) (queue_data ?q)"
        by (simp add: min_def nat_le_iff)
      then have "sent fd ?l = sent fd (w_log w) @ (if fd = fd_of w p then take (nat m) (queue_data ?q) else [])"
        "is_open fd ?l = is_open fd (w_log w)" "got K' fd ?l = got K' fd (w_log w)" for fd K'
        using a by (simp_all add: fd_of_def)
      from drop [OF 3(1) m(1) this] show ?case
        using p0 3(1) by (simp add: wp_simps out_queue_unlock_def unlock)
    next
      case (4 errno)
      let ?l = "(Send (m_sock_desc a) (take (unat (ucast ?n :: 32 word)) (take (unat ?n) (queue_data ?q))), Err errno) # w_log w"
      from drop [of 0 ?l] show ?case
        using p0 by (simp add: wp_simps out_queue_unlock_def unlock)
    next
      case (5 errno e')
      let ?req = "Send (m_sock_desc ?a1) (take (unat (ucast ?n :: 32 word)) (take (unat ?n) (queue_data ?q)))"
      let ?w2 = "?w1\<lparr>w_log := (?req, Err errno) # w_log ?w1\<rparr>"
      show ?case unfolding Let_def
      proof (intro impI)
        assume e': "owner_inv e' (closed_world K ?w2 p)" "cons_of e' = filter (\<lambda>q. q \<noteq> p) (cons_of e)"
          "news_of e' = filter (\<lambda>q. q \<noteq> p) (news_of e)" "same_but_tables e e'"
        show "wp F (thenM (liftW (out_queue_unlock p)) (
           if (- 1 :: int) < 0 then returnM ()
           else thenM (assertM ((of_int (- 1) :: size_t) \<le> ?n))
                   (liftW (out_queue_drop p (of_int (- 1)))))) (\<lambda>_ (e', w'). sent_step e w p e' w')
          (e', closed_world K ?w2 p)"
        proof (cases "m_ref_counter a = 1")
          case True
          then have "w_asocks (closed_world K ?w2 p) p = None" by (simp add: closed_world_def Let_def)
          with ref True p0 show ?thesis by (simp add: wp_simps out_queue_unlock_def)
        next
          case False
          let ?b = "a\<lparr>m_out_queue := ?q\<lparr>q_mutex := True\<rparr>, m_state := Failed, m_disconnect := True,
            m_ref_counter := m_ref_counter a - 1\<rparr>"
          have b: "w_asocks (closed_world K ?w2 p) p = Some ?b"
            using False by (simp add: closed_world_def Let_def)
          show ?thesis
            using p0 b
            by (simp add: wp_simps out_queue_unlock_def unlock)
              (rule sent_step_closed [OF ok p a False _ _ e'], simp_all add: b)
        qed
      qed
    qed
    show ?thesis
      using False p0 a free off round
      by (simp add: send_unsent_from_def wp_simps at out_queue_lock_def Let_def hs cong: if_cong)
  qed
qed

text \<open>A whole pass over the table, from its end.\<close>

lemma take_filter_nth:
  assumes "distinct xs" "k < length xs"
  shows "take k (filter (\<lambda>x. x \<noteq> xs ! k) xs) = take k xs" "k \<le> length (filter (\<lambda>x. x \<noteq> xs ! k) xs)"
  using assms by (simp_all add: delete_at_filter [symmetric]) (simp_all add: delete_at_def)

lemma nth_not_in_take: "distinct xs \<Longrightarrow> k < length xs \<Longrightarrow> xs ! k \<notin> set (take k xs)"
  using id_take_nth_drop [of k xs] by (metis distinct_append disjoint_iff list.set_intros(1))

definition pass_inv :: "'a endpoint_scheme \<Rightarrow> world \<Rightarrow> nat \<Rightarrow> 'a endpoint_scheme \<Rightarrow> world \<Rightarrow> bool" where
  "pass_inv e w k e' w' \<longleftrightarrow>
     owner_ok e' w' \<and> same_but_tables e e' \<and> set (cons_of e') \<subseteq> set (cons_of e)
     \<and> k \<le> length (cons_of e') \<and> take k (cons_of e') = take k (cons_of e)
     \<and> set (news_of e') \<subseteq> set (news_of e)
     \<and> (set (news_of e) \<subseteq> set (cons_of e) \<longrightarrow> set (news_of e') \<subseteq> set (cons_of e'))
     \<and> (\<forall>p \<in> set (cons_of e). m_in_queue (the (w_asocks w' p)) = m_in_queue (the (w_asocks w p)))
     \<and> (\<forall>p \<in> set (cons_of e). lasts w p w' \<and> fd_of w' p = fd_of w p \<and> stream w' p = stream w p)
     \<and> (\<forall>p \<in> set (take k (cons_of e)). w_asocks w' p = w_asocks w p)
     \<and> (\<forall>p \<in> set (cons_of e'). m_ref_counter (the (w_asocks w' p)) = m_ref_counter (the (w_asocks w p)))
     \<and> (\<forall>p. p \<notin> set (cons_of e) \<longrightarrow> w_asocks w' p = w_asocks w p)
     \<and> (\<forall>K fd. got K fd (w_log w') = got K fd (w_log w))"

lemma pass_inv_step:
  assumes inv: "owner_inv e w" and pass: "pass_inv e w (Suc k) e1 w1" and p: "p = cons_of e1 ! k"
    and step: "sent_step e1 w1 p e2 w2"
  shows "pass_inv e w k e2 w2"
proof -
  have k: "k < length (cons_of e1)" and tk: "take (Suc k) (cons_of e1) = take (Suc k) (cons_of e)"
    and sub: "set (cons_of e1) \<subseteq> set (cons_of e)"
    using pass by (simp_all add: pass_inv_def)
  have dist: "distinct (cons_of e1)" using pass by (simp add: pass_inv_def owner_ok_def owner_inv_def)
  have pc: "p \<in> set (cons_of e)" using p k sub by auto
  have tk': "take k (cons_of e1) = take k (cons_of e)" using tk by (metis take_Suc_conv_app_nth take_take min.absorb1 le_SucI order_refl)
  have pk: "p \<notin> set (take k (cons_of e))"
    using nth_not_in_take [OF dist k] p tk' by simp
  have cs2: "k \<le> length (cons_of e2) \<and> take k (cons_of e2) = take k (cons_of e) \<and> set (cons_of e2) \<subseteq> set (cons_of e)"
    using step take_filter_nth [OF dist k] k sub tk' p by (auto simp: sent_step_def)
  have obj: "lasts w q w2 \<and> fd_of w2 q = fd_of w q \<and> stream w2 q = stream w q"
    if q: "q \<in> set (cons_of e)" for q
  proof (cases "q = p")
    case True
    then show ?thesis using step pass pc by (auto simp: sent_step_def pass_inv_def intro: lasts_trans)
  next
    case False
    have q1: "lasts w q w1" "fd_of w1 q = fd_of w q" "stream w1 q = stream w q"
      and p1: "fd_of w1 p = fd_of w p" using pass q pc by (auto simp: pass_inv_def)
    have "fd_of w q \<noteq> fd_of w p"
      using inv q pc False by (auto simp: owner_inv_def inj_on_def)
    moreover have same: "w_asocks w2 q = w_asocks w1 q"
      "fd \<noteq> fd_of w1 p \<Longrightarrow> sent fd (w_log w2) = sent fd (w_log w1)" for fd
      using step False by (simp_all add: sent_step_def)
    ultimately show ?thesis using q1 p1 by (simp add: stream_def fd_of_def lasts_def)
  qed
  have "w_asocks w2 q = w_asocks w q" if "q \<in> set (take k (cons_of e))" for q
  proof -
    have "q \<noteq> p" using that pk by auto
    moreover have "q \<in> set (take (Suc k) (cons_of e))" using that by (meson set_take_subset_set_take in_mono le_SucI order_refl)
    ultimately show ?thesis using step pass by (simp add: sent_step_def pass_inv_def)
  qed
  moreover have "m_in_queue (the (w_asocks w2 q)) = m_in_queue (the (w_asocks w q))" if "q \<in> set (cons_of e)" for q
    using step pass that by (cases "q = p") (simp_all add: sent_step_def pass_inv_def)
  moreover have "set (news_of e2) \<subseteq> set (news_of e)" "set (news_of e) \<subseteq> set (cons_of e) \<longrightarrow> set (news_of e2) \<subseteq> set (cons_of e2)"
    using step pass unfolding sent_step_def pass_inv_def by auto
  moreover have "same_but_tables e e2" "owner_ok e2 w2"
    using step pass same_but_tables_trans unfolding sent_step_def pass_inv_def by blast+
  moreover have "m_ref_counter (the (w_asocks w2 q)) = m_ref_counter (the (w_asocks w q))" if "q \<in> set (cons_of e2)" for q
  proof -
    have "q \<in> set (cons_of e1)" using step that by (auto simp: sent_step_def)
    then have "m_ref_counter (the (w_asocks w1 q)) = m_ref_counter (the (w_asocks w q))" using pass by (simp add: pass_inv_def)
    then show ?thesis using step that by (cases "q = p") (simp_all add: sent_step_def)
  qed
  moreover have "w_asocks w2 q = w_asocks w q" if "q \<notin> set (cons_of e)" for q
  proof -
    have "q \<noteq> p" using that pc by blast
    then show ?thesis using step pass that by (simp add: sent_step_def pass_inv_def)
  qed
  moreover have "got K fd (w_log w2) = got K fd (w_log w)" for K fd
    using step pass by (simp add: sent_step_def pass_inv_def)
  ultimately show ?thesis using cs2 obj unfolding pass_inv_def by blast
qed

lemma wp_send_unsent_data:
  assumes ok: "owner_ok e w" and K: "kernel_ok K"
    and ref: "\<And>p a. p \<in> set (cons_of e) \<Longrightarrow> w_asocks w p = Some a \<Longrightarrow> m_ref_counter a = 1 \<Longrightarrow> F Use_After_Free"
  shows "wp F (asock_service_send_unsent_data K) (\<lambda>_ (e', w'). pass_inv e w 0 e' w') (e, w)"
proof -
  have inv: "owner_inv e w" using ok by (simp add: owner_ok_def)
  then have sz: "unat (asock_connections_size (e_connections e)) = length (cons_of e)"
    by (simp add: cons.count_law cons_of_def owner_inv_def)
  have "wp F (down_nat (length (cons_of e)) (\<lambda>k. send_unsent_from K (of_nat k)))
    (\<lambda>_ (e', w'). pass_inv e w 0 e' w') (e, w)"
  proof (rule wp_down_nat [where I = "\<lambda>k (e', w'). pass_inv e w k e' w'"])
    show "case (e, w) of (e', w') \<Rightarrow> pass_inv e w (length (cons_of e)) e' w'"
      using ok inv by (auto simp: pass_inv_def owner_lasts)
  next
    fix k s
    assume k: "k < length (cons_of e)" and "case s of (e', w') \<Rightarrow> pass_inv e w (Suc k) e' w'"
    then obtain e1 w1 where s: "s = (e1, w1)" and pass: "pass_inv e w (Suc k) e1 w1" by (cases s) auto
    let ?p = "cons_of e1 ! k"
    have k1: "k < length (cons_of e1)" and ok1: "owner_ok e1 w1" using pass by (auto simp: pass_inv_def)
    have p: "?p \<in> set (take (Suc k) (cons_of e))"
      using pass k1 unfolding pass_inv_def by (metis in_set_conv_nth length_take lessI min.absorb2 nth_take Suc_leI)
    then have pe: "?p \<in> set (cons_of e)" by (rule in_set_takeD)
    have same: "w_asocks w1 ?p = w_asocks w ?p" using pass p by (simp add: pass_inv_def)
    obtain a where a: "w_asocks w1 ?p = Some a" using pass pe by (auto simp: pass_inv_def lasts_def)
    have "wp F (send_unsent_from K (of_nat k)) (\<lambda>_ (e2, w2). sent_step e1 w1 ?p e2 w2) (e1, w1)"
      by (rule wp_send_unsent_from [OF ok1 K k1 refl a]) (use ref [OF pe] a same in simp)
    then show "wp F (send_unsent_from K (of_nat k)) (\<lambda>_ s. case s of (e', w') \<Rightarrow> pass_inv e w k e' w') s"
      unfolding s by (rule wp_mono) (auto dest: pass_inv_step [OF inv pass refl])
  qed
  then show ?thesis
    by (simp add: asock_service_send_unsent_data_def wp_simps for_down_eq sz)
qed

section \<open>Connections given up by the application\<close>

definition given_up :: "world \<Rightarrow> ptr \<Rightarrow> bool" where
  "given_up w p \<longleftrightarrow> m_disconnect (the (w_asocks w p))"

text \<open>The end of a connection that the owner closes: freed with the last reference, otherwise failed.
  Its descriptor is closed once, or twice if the object went with it.\<close>

definition ended :: "world \<Rightarrow> ptr \<Rightarrow> world \<Rightarrow> bool" where
  "ended w p w' \<longleftrightarrow>
     (let a = the (w_asocks w p); n = m_ref_counter a in
      w_asocks w' p = (if n = 1 then None
        else Some (a\<lparr>m_state := Failed, m_disconnect := True, m_ref_counter := n - 1\<rparr>))
      \<and> closes (m_sock_desc a) (w_log w') = closes (m_sock_desc a) (w_log w) + (if n = 1 then 2 else 1))"

lemma ended_closed_world: "ended w p (closed_world K w p)"
  by (simp add: ended_def closed_world_def Let_def)

definition untouched :: "world \<Rightarrow> ptr \<Rightarrow> world \<Rightarrow> bool" where
  "untouched w p w' \<longleftrightarrow> w_asocks w' p = w_asocks w p
     \<and> closes (fd_of w p) (w_log w') = closes (fd_of w p) (w_log w)"

lemma closed_world_frame:
  shows "q \<noteq> p \<Longrightarrow> w_asocks (closed_world K w p) q = w_asocks w q"
    "fd \<noteq> fd_of w p \<Longrightarrow> closes fd (w_log (closed_world K w p)) = closes fd (w_log w)"
    "traffic d (w_log (closed_world K w p)) = traffic d (w_log w)"
  by (simp_all add: closed_world_def Let_def fd_of_def)

definition close_pass_inv :: "'a endpoint_scheme \<Rightarrow> world \<Rightarrow> nat \<Rightarrow> 'a endpoint_scheme \<Rightarrow> world \<Rightarrow> bool" where
  "close_pass_inv e w k e' w' \<longleftrightarrow>
     owner_inv e' w' \<and> same_but_tables e e'
     \<and> cons_of e' = take k (cons_of e) @ filter (\<lambda>p. \<not> given_up w p) (drop k (cons_of e))
     \<and> news_of e' = filter (\<lambda>p. \<not> (p \<in> set (drop k (cons_of e)) \<and> given_up w p)) (news_of e)
     \<and> (\<forall>p \<in> set (cons_of e).
          if p \<in> set (drop k (cons_of e)) \<and> given_up w p then ended w p w' else untouched w p w')
     \<and> (\<forall>p. p \<notin> set (cons_of e) \<longrightarrow> w_asocks w' p = w_asocks w p)
     \<and> (\<forall>fd. traffic fd (w_log w') = traffic fd (w_log w))"

lemma close_pass_step:
  assumes inv: "owner_inv e w" and pass: "close_pass_inv e w (Suc k) e1 w1"
    and k: "k < length (cons_of e)" and p: "p = cons_of e ! k"
  shows "\<not> given_up w p \<Longrightarrow> close_pass_inv e w k e1 w1"
    and "given_up w p \<Longrightarrow> owner_inv e2 (closed_world K w1 p) \<Longrightarrow> cons_of e2 = filter (\<lambda>q. q \<noteq> p) (cons_of e1) \<Longrightarrow>
      news_of e2 = filter (\<lambda>q. q \<noteq> p) (news_of e1) \<Longrightarrow> same_but_tables e1 e2 \<Longrightarrow>
      close_pass_inv e w k e2 (closed_world K w1 p)"
proof -
  let ?cs = "cons_of e" and ?keep = "filter (\<lambda>p. \<not> given_up w p) (drop (Suc k) (cons_of e))"
  have dist: "distinct ?cs" and inj: "inj_on (fd_of w) (set ?cs)"
    using inv by (auto simp: owner_inv_def inj_on_Un)
  have dk: "drop k ?cs = p # drop (Suc k) ?cs" and tk: "take (Suc k) ?cs = take k ?cs @ [p]"
    using k p by (simp_all add: Cons_nth_drop_Suc take_Suc_conv_app_nth)
  have "distinct (take k ?cs @ drop k ?cs)" using dist by simp
  then have pn: "p \<notin> set (drop (Suc k) ?cs)" "p \<notin> set (take k ?cs)" unfolding dk by auto
  have pc: "p \<in> set ?cs" using k p by simp
  have cs1: "cons_of e1 = take k ?cs @ p # ?keep" using pass tk by (simp add: close_pass_inv_def)
  show "close_pass_inv e w k e1 w1" if "\<not> given_up w p"
  proof -
    have "(q \<in> set (drop k ?cs) \<and> given_up w q) \<longleftrightarrow> (q \<in> set (drop (Suc k) ?cs) \<and> given_up w q)" for q
      using that dk by auto
    moreover have "take k ?cs @ filter (\<lambda>p. \<not> given_up w p) (drop k ?cs) = cons_of e1"
      using that dk cs1 by simp
    ultimately show ?thesis using pass unfolding close_pass_inv_def by simp
  qed
  show "close_pass_inv e w k e2 (closed_world K w1 p)"
    if g: "given_up w p" and e2: "owner_inv e2 (closed_world K w1 p)"
      "cons_of e2 = filter (\<lambda>q. q \<noteq> p) (cons_of e1)" "news_of e2 = filter (\<lambda>q. q \<noteq> p) (news_of e1)"
      "same_but_tables e1 e2"
  proof -
    have "filter (\<lambda>q. q \<noteq> p) (take k ?cs) = take k ?cs" "filter (\<lambda>q. q \<noteq> p) ?keep = ?keep"
      using pn by (auto simp: filter_id_conv intro!: filter_cong)
    then have cs2: "cons_of e2 = take k ?cs @ filter (\<lambda>p. \<not> given_up w p) (drop k ?cs)"
      using e2(2) cs1 dk g by (simp del: filter_filter)
    have ns2: "news_of e2 = filter (\<lambda>q. \<not> (q \<in> set (drop k ?cs) \<and> given_up w q)) (news_of e)"
      using e2(3) pass dk g by (auto simp: close_pass_inv_def intro!: filter_cong)
    have at: "untouched w p w1" using pass pc pn by (auto simp: close_pass_inv_def)
    have fdp: "fd_of w1 p = fd_of w p" using at by (simp add: untouched_def fd_of_def)
    have end_p: "ended w p (closed_world K w1 p)"
      using at ended_closed_world [of w1 p K] by (simp add: untouched_def ended_def fd_of_def Let_def)
    have others: "if q \<in> set (drop (Suc k) ?cs) \<and> given_up w q then ended w q (closed_world K w1 p)
        else untouched w q (closed_world K w1 p)" if q: "q \<in> set ?cs" "q \<noteq> p" for q
    proof -
      have "fd_of w q \<noteq> fd_of w1 p" using inj q pc fdp by (auto simp: inj_on_def)
      then have "w_asocks (closed_world K w1 p) q = w_asocks w1 q"
        "closes (fd_of w q) (w_log (closed_world K w1 p)) = closes (fd_of w q) (w_log w1)"
        using closed_world_frame q(2) by auto
      then show ?thesis
        using pass q by (auto simp: close_pass_inv_def ended_def untouched_def fd_of_def Let_def)
    qed
    have "if q \<in> set (drop k ?cs) \<and> given_up w q then ended w q (closed_world K w1 p)
        else untouched w q (closed_world K w1 p)" if q: "q \<in> set ?cs" for q
    proof (cases "q = p")
      case True
      with g dk end_p show ?thesis by simp
    next
      case False
      with others [OF q False] dk show ?thesis by simp
    qed
    moreover have "same_but_tables e e2"
      using pass e2(4) by (auto simp: close_pass_inv_def intro: same_but_tables_trans)
    moreover have "w_asocks (closed_world K w1 p) q = w_asocks w q" if "q \<notin> set ?cs" for q
    proof -
      have "q \<noteq> p" using that pc by blast
      with pass that show ?thesis by (simp add: close_pass_inv_def closed_world_frame)
    qed
    moreover have "traffic fd (w_log (closed_world K w1 p)) = traffic fd (w_log w)" for fd
      using pass by (simp add: close_pass_inv_def closed_world_frame)
    ultimately show ?thesis using cs2 ns2 e2(1) by (simp add: close_pass_inv_def)
  qed
qed

lemma wp_check_for_connections_to_close:
  assumes inv: "owner_inv e w"
  shows "wp F (asock_service_check_for_connections_to_close K) (\<lambda>_ (e', w'). close_pass_inv e w 0 e' w') (e, w)"
proof -
  have sz: "unat (asock_connections_size (e_connections e)) = length (cons_of e)"
    using inv by (simp add: cons.count_law cons_of_def owner_inv_def)
  let ?body = "\<lambda>i. bindM (connection_at e_connections i) (\<lambda>con.
       bindM (liftW (read_asock con)) (\<lambda>a.
       if m_disconnect a
       then bindM (asock_service_close_connection K (m_sock_desc a)) (\<lambda>_. returnM ())
       else returnM ()))"
  have "wp F (down_nat (length (cons_of e)) (\<lambda>k. ?body (of_nat k)))
    (\<lambda>_ (e', w'). close_pass_inv e w 0 e' w') (e, w)"
  proof (rule wp_down_nat [where I = "\<lambda>k (e', w'). close_pass_inv e w k e' w'"])
    show "case (e, w) of (e', w') \<Rightarrow> close_pass_inv e w (length (cons_of e)) e' w'"
      using inv by (simp add: close_pass_inv_def untouched_def)
  next
    fix k s
    assume k: "k < length (cons_of e)" and "case s of (e', w') \<Rightarrow> close_pass_inv e w (Suc k) e' w'"
    then obtain e1 w1 where s: "s = (e1, w1)" and pass: "close_pass_inv e w (Suc k) e1 w1" by (cases s) auto
    define p where "p = cons_of e ! k"
    have inv1: "owner_inv e1 w1" and tk: "take (Suc k) (cons_of e) = take k (cons_of e) @ [p]"
      using pass k by (simp_all add: close_pass_inv_def p_def take_Suc_conv_app_nth)
    then have at: "cons_of e1 ! k = p" "k < length (cons_of e1)"
      using pass k by (simp_all add: close_pass_inv_def nth_append)
    have c: "con_inv (e_connections e1)" using inv1 by (simp add: owner_inv_def)
    have conn: "wp F (connection_at e_connections (of_nat k)) R (e1, w1) = R p (e1, w1)" for R
      using wp_connection_at [of e_connections e1 k] at c by (simp add: cons_of_def)
    have p1: "p \<in> set (cons_of e1)" using at by (metis nth_mem)
    obtain a where a: "p \<noteq> 0" "w_asocks w1 p = Some a" "fd_of w1 p = m_sock_desc a"
      using inv1 p1 by (auto simp: owner_inv_def elim!: con_okE)
    have "p \<notin> set (drop (Suc k) (cons_of e))"
      using inv k by (auto simp: p_def owner_inv_def in_set_conv_nth nth_eq_iff_index_eq)
    moreover have "p \<in> set (cons_of e)" using k by (simp add: p_def)
    ultimately have "untouched w p w1" using pass by (auto simp: close_pass_inv_def)
    then have g: "m_disconnect a = given_up w p" using a(2) by (metis untouched_def given_up_def option.sel)
    show "wp F (?body (of_nat k)) (\<lambda>_ s. case s of (e', w') \<Rightarrow> close_pass_inv e w k e' w') s"
      unfolding s using a close_pass_step [OF inv pass k p_def]
      by (auto simp: wp_simps conn g intro!: wp_close_connection [OF inv1 p1])
  qed
  then show ?thesis
    by (simp add: asock_service_check_for_connections_to_close_def wp_simps for_down_eq sz)
qed

end
