(* ===== verification/Asock_Server.thy ===== *)
theory Asock_Server
  imports Asock_Owner
begin

text \<open>
  \<open>src/asock_server.c\<close>: the owner of a listening socket and of the connections accepted on it.
  The struct extends the record \<open>endpoint\<close>; of the configuration the fields that are used are
  kept. Its functions for the tables are textual copies of the service's and are defined as the
  same operations. Interface functions take the server pointer, 0 for null.
\<close>

record asock_server = endpoint +
  m_server_socket :: int
  m_domain :: int
  m_type :: int
  m_protocol :: int

definition SERVER_SIZE :: size_t where "SERVER_SIZE = 12600"

section \<open>The tables\<close>

definition asock_server_is_running :: "'a endpoint_scheme \<Rightarrow> bool" where
  "asock_server_is_running e \<longleftrightarrow> e_status e = Running"

definition asock_server_index_of_con :: "ptr \<Rightarrow> (asock_server \<times> world, int) op" where
  "asock_server_index_of_con = asock_service_index_of_con"

definition asock_server_index_of_con_by_sock_desc :: "int \<Rightarrow> (asock_server \<times> world, int) op" where
  "asock_server_index_of_con_by_sock_desc = asock_service_index_of_con_by_sock_desc"

definition asock_server_close_connection :: "kernel \<Rightarrow> int \<Rightarrow> (asock_server \<times> world, AsockReturnCode) op" where
  "asock_server_close_connection = asock_service_close_connection"

definition asock_server_try_send_data ::
    "kernel \<Rightarrow> ptr \<Rightarrow> byte list \<Rightarrow> 32 word \<Rightarrow> (asock_server \<times> world, int) op" where
  "asock_server_try_send_data = asock_service_try_send_data"

definition asock_server_send_unsent_data :: "kernel \<Rightarrow> (asock_server \<times> world, unit) op" where
  "asock_server_send_unsent_data = asock_service_send_unsent_data"

definition asock_server_check_for_connections_to_close :: "kernel \<Rightarrow> (asock_server \<times> world, unit) op" where
  "asock_server_check_for_connections_to_close = asock_service_check_for_connections_to_close"

lemmas server_copies =
  asock_server_index_of_con_def asock_server_index_of_con_by_sock_desc_def
  asock_server_close_connection_def asock_server_try_send_data_def
  asock_server_send_unsent_data_def asock_server_check_for_connections_to_close_def

section \<open>The thread: configuration\<close>

text \<open>The name is that of a file under \<open>/var/run/netns\<close> or the like; \<open>setns\<close> enters it.\<close>

definition asock_server_change_namespace :: "kernel \<Rightarrow> (asock_server \<times> world, AsockReturnCode) op" where
  "asock_server_change_namespace K =
     bindM (getE e_net_ns) (\<lambda>net_ns.
       case net_ns of
         None \<Rightarrow> failM Assert_Failed
       | Some name \<Rightarrow>
           if name \<noteq> [] then
             bindM (liftW (syscall K (Open name))) (\<lambda>r.
               case r of
                 Err _ \<Rightarrow> thenM (updateE (\<lambda>e. e\<lparr>e_net_ns := None\<rparr>)) (returnM ASOCK_FAILURE)
               | Ret fd_nms \<Rightarrow>
                   bindM (liftW (syscall K (Setns fd_nms))) (\<lambda>r.
                     case r of
                       Err _ \<Rightarrow>
                         bindM (liftW (syscall K (Close fd_nms))) (\<lambda>_.
                         thenM (updateE (\<lambda>e. e\<lparr>e_net_ns := None\<rparr>)) (returnM ASOCK_FAILURE))
                     | Ret _ \<Rightarrow>
                         thenM (updateE (\<lambda>e. e\<lparr>e_net_ns_fd := fd_nms\<rparr>)) (returnM ASOCK_SUCCESS)))
           else thenM (updateE (\<lambda>e. e\<lparr>e_net_ns_fd := - 1\<rparr>)) (returnM ASOCK_SUCCESS))"

text \<open>Lines 537 to 559: the namespace, whose result is not looked at, and the socket.\<close>

definition server_basic_configuration :: "kernel \<Rightarrow> (asock_server \<times> world, unit) op" where
  "server_basic_configuration K =
     bindM (getE e_net_ns) (\<lambda>net_ns.
     thenM (if net_ns \<noteq> None
            then bindM (asock_server_change_namespace K) (\<lambda>_. returnM ())
            else returnM ()) (
     bindM (getE (\<lambda>e. Socket (m_domain e) (m_type e) (m_protocol e))) (\<lambda>socket.
     bindM (liftW (syscall K socket)) (\<lambda>r.
       case r of
         Err _ \<Rightarrow> updateE (\<lambda>e. e\<lparr>e_status := Aborted, e_thread := Finished\<rparr>)
       | Ret sock_d \<Rightarrow>
           bindM (liftW (syscall K (Setsockopt sock_d))) (\<lambda>r.
             case r of
               Err _ \<Rightarrow>
                 bindM (liftW (syscall K (Close sock_d))) (\<lambda>_.
                 updateE (\<lambda>e. e\<lparr>e_status := Aborted, e_thread := Finished\<rparr>))
             | Ret _ \<Rightarrow>
                 updateE (\<lambda>e. e\<lparr>e_status := Configuration, e_thread := Configuring,
                   m_server_socket := sock_d\<rparr>))))))"

definition asock_server_process_bind_directive :: "kernel \<Rightarrow> (asock_server \<times> world, AsockReturnCode) op" where
  "asock_server_process_bind_directive K =
     bindM (getE (\<lambda>e. (m_server_socket e, m_arg1 (e_directive e), m_arg2 (e_directive e)))) (\<lambda>args.
       case args of
         (sock_d, AddrArg addr, LenArg addr_len) \<Rightarrow>
           bindM (liftW (syscall K (Bind sock_d (user_bytes addr addr_len)))) (\<lambda>r.
             case r of Err _ \<Rightarrow> returnM ASOCK_FAILURE | Ret _ \<Rightarrow> returnM ASOCK_SUCCESS)
       | _ \<Rightarrow> failM Null_Deref)"

definition asock_server_start_server :: "kernel \<Rightarrow> (asock_server \<times> world, AsockReturnCode) op" where
  "asock_server_start_server K =
     bindM (getE m_server_socket) (\<lambda>sock_d.
     bindM (liftW (make_socket_non_blocking K sock_d)) (\<lambda>s.
     if s \<noteq> ASOCK_SUCCESS then returnM ASOCK_FAILURE
     else bindM (liftW (syscall K (Listen sock_d))) (\<lambda>r.
       case r of
         Err _ \<Rightarrow> returnM ASOCK_FAILURE
       | Ret _ \<Rightarrow>
           bindM (getE e_epoll_desc) (\<lambda>epolld.
           bindM (liftW (add_socket_to_epoll_server K epolld sock_d)) (\<lambda>s.
           if s = - 1 then returnM ASOCK_FAILURE else returnM ASOCK_SUCCESS)))))"

text \<open>The configuration loop after its wait, lines 569 to 598, and lines 620 to 631.\<close>

definition server_configure :: "kernel \<Rightarrow> (asock_server \<times> world, unit) op" where
  "server_configure K =
     bindM (getE (\<lambda>e. asock_get_directive_type (e_directive e))) (\<lambda>type.
       case type of
         DirectStart \<Rightarrow>
           bindM (asock_server_start_server K) (\<lambda>r.
           if r = ASOCK_FAILURE
           then thenM (updateE (\<lambda>e. e\<lparr>e_status := Aborted, e_thread := Finished\<rparr>))
                      (set_directive_result ASOCK_FAILURE)
           else thenM (updateE (\<lambda>e. e\<lparr>e_status := Running, e_thread := Looping\<rparr>))
                      (set_directive_result ASOCK_SUCCESS))
       | DirectStop \<Rightarrow>
           thenM (updateE (\<lambda>e. e\<lparr>e_status := Aborted, e_thread := Finished\<rparr>))
                 (set_directive_result ASOCK_SUCCESS)
       | DirectBind \<Rightarrow> bindM (asock_server_process_bind_directive K) set_directive_result
       | _ \<Rightarrow> failM Assert_Failed)"

section \<open>The thread: accepting\<close>

text \<open>Lines 788 to 790.\<close>

definition clearing_after_failure :: "kernel \<Rightarrow> ptr \<Rightarrow> int \<Rightarrow> (asock_server \<times> world, unit) op" where
  "clearing_after_failure K new_con infd =
     thenM (liftW (asock_destroy_asock K new_con))
           (bindM (liftW (syscall K (Close infd))) (\<lambda>_. returnM ()))"

text \<open>
  Lines 746 to 793: what is done with a descriptor \<open>accept\<close> returned. The kernel stores what fits of
  the peer's address into the 16 bytes of \<open>in_addr\<close> and sets \<open>in_len\<close> to its full length. The \<open>goto\<close> after a refused push into the table of new connections leaves with
  the mutex held.
\<close>

definition SOCKADDR_SIZE :: nat where "SOCKADDR_SIZE = 16"

text \<open>Lines 770 to 785: into both tables.\<close>

definition server_publish_connection :: "kernel \<Rightarrow> ptr \<Rightarrow> int \<Rightarrow> (asock_server \<times> world, unit) op" where
  "server_publish_connection K new_con infd =
     bindM (push_connection K new_con) (\<lambda>r.
     if r = ASOCK_FAILURE then clearing_after_failure K new_con infd
     else thenM lock_new (
     bindM (push_new_connection K new_con) (\<lambda>r.
     if r = ASOCK_FAILURE
     then bindM (getE (\<lambda>e. asock_connections_size (e_connections e))) (\<lambda>sz.
          bindM (erase_connection (sz - 1)) (\<lambda>_.
          clearing_after_failure K new_con infd))
     else thenM unlock_new (liftW (asock_con_counter_incr new_con)))))"

text \<open>Lines 754 to 768: the object and the peer's address.\<close>

definition server_make_connection :: "kernel \<Rightarrow> int \<Rightarrow> byte list \<Rightarrow> (asock_server \<times> world, unit) op" where
  "server_make_connection K infd peer =
     (let in_len = of_nat (length peer) :: socklen_t; in_addr = take SOCKADDR_SIZE peer in
      bindM (liftW (asock_fcreate_asock K infd)) (\<lambda>new_con.
      if new_con = 0 then clearing_after_failure K new_con infd
      else bindM (getE e_id) (\<lambda>n.
      thenM (liftW (update_asock new_con (\<lambda>a. a\<lparr>m_master_id := n, m_state := Established\<rparr>))) (
      bindM (liftW (malloc K (ucast in_len))) (\<lambda>peer_addr.
      thenM (liftW (update_asock new_con (\<lambda>a. a\<lparr>m_peer_addr := peer_addr\<rparr>))) (
      if peer_addr = None then clearing_after_failure K new_con infd
      else bindM (liftR (\<lambda>_. mem_copy peer_addr 0 (Some in_addr) 0 (ucast in_len))) (\<lambda>peer_addr.
      thenM (liftW (update_asock new_con (\<lambda>a. a\<lparr>m_peer_addr := peer_addr, m_peer_addrlen := in_len\<rparr>)))
            (server_publish_connection K new_con infd))))))))"

definition server_add_connection ::
    "kernel \<Rightarrow> int \<Rightarrow> byte list \<Rightarrow> (asock_server \<times> world, unit) op" where
  "server_add_connection K infd peer =
     bindM (liftW (make_socket_non_blocking K infd)) (\<lambda>s.
     if s = - 1 then failM Aborted_Process
     else bindM (getE e_epoll_desc) (\<lambda>epolld.
     bindM (liftW (add_socket_to_epoll_server K epolld infd)) (\<lambda>s.
     if s = - 1 then failM Aborted_Process else server_make_connection K infd peer)))"

text \<open>The accept loop, lines 723 to 795.\<close>

fun server_accept_all :: "nat \<Rightarrow> kernel \<Rightarrow> (asock_server \<times> world, unit) op" where
  "server_accept_all 0 K = failM Out_Of_Fuel"
| "server_accept_all (Suc fuel) K =
     bindM (getE m_server_socket) (\<lambda>sock_d.
     bindM (liftW (getsM (\<lambda>w. k_peer K (w_log w) sock_d))) (\<lambda>peer.
     bindM (liftW (syscall K (Accept sock_d))) (\<lambda>r.
       case r of
         Err _ \<Rightarrow> returnM ()
       | Ret infd \<Rightarrow> thenM (server_add_connection K infd peer) (server_accept_all fuel K))))"

text \<open>The body of the loop over the events, lines 715 to 824.\<close>

definition server_handle_event :: "nat \<Rightarrow> kernel \<Rightarrow> int \<times> 32 word \<Rightarrow> (asock_server \<times> world, unit) op" where
  "server_handle_event fuel K = (\<lambda>(event_fd, event).
     bindM (getE m_server_socket) (\<lambda>sock_d.
     if and event EPOLLERR \<noteq> 0 \<or> and event EPOLLHUP \<noteq> 0 \<or> and event EPOLLIN = 0
     then bindM (asock_server_close_connection K event_fd) (\<lambda>_. returnM ())
     else if sock_d = event_fd then server_accept_all fuel K
     else read_all_data fuel K event_fd))"

definition asock_server_update_state :: "nat \<Rightarrow> kernel \<Rightarrow> (asock_server \<times> world, unit) op" where
  "asock_server_update_state fuel K =
     thenM (asock_server_send_unsent_data K) (
     thenM (asock_server_check_for_connections_to_close K) (
     bindM (getE e_epoll_desc) (\<lambda>epolld.
     bindM (liftW (getsM (\<lambda>w. k_events K (w_log w)))) (\<lambda>events.
     bindM (liftW (syscall K (Epoll_Wait epolld))) (\<lambda>r.
     let n = (case r of Ret n \<Rightarrow> nat n | Err _ \<Rightarrow> 0) in
     foreachM (server_handle_event fuel K) (take n events))))))"

section \<open>The thread: main loop\<close>

text \<open>After the main loop, lines 678 to 702.\<close>

definition server_shutdown :: "kernel \<Rightarrow> (asock_server \<times> world, unit) op" where
  "server_shutdown K =
     thenM (destroy_connections K e_connections) (
     bindM (getE m_server_socket) (\<lambda>sock_d.
     bindM (liftW (syscall K (Close sock_d))) (\<lambda>_.
     thenM (release_namespace K) (
     thenM (updateE (\<lambda>e. e\<lparr>e_thread := Finished\<rparr>))
           (set_directive_result ASOCK_SUCCESS)))))"

text \<open>One round of the main loop, lines 637 to 665. The directive to create a connection is not known
  to servers.\<close>

definition server_main_round :: "nat \<Rightarrow> kernel \<Rightarrow> (asock_server \<times> world, unit) op" where
  "server_main_round fuel K =
     bindM (getE (\<lambda>e. asock_get_directive_type (e_directive e))) (\<lambda>type.
       case type of
         DirectNone \<Rightarrow> asock_server_update_state fuel K
       | DirectStop \<Rightarrow> server_shutdown K
       | DirectCreateAsock \<Rightarrow> failM Assert_Failed
       | _ \<Rightarrow> thenM (set_directive_result ASOCK_ERR_BADSTATE) (asock_server_update_state fuel K))"

definition asock_server_thread_loop :: "nat \<Rightarrow> kernel \<Rightarrow> (asock_server \<times> world, unit) op" where
  "asock_server_thread_loop fuel K =
     bindM (getE e_thread) (\<lambda>phase.
       case phase of
         Not_Started \<Rightarrow> server_basic_configuration K
       | Configuring \<Rightarrow>
           bindM (getE (\<lambda>e. asock_wait_for_directive (e_directive e))) (\<lambda>woken.
           if woken then server_configure K else returnM ())
       | Looping \<Rightarrow> server_main_round fuel K
       | Finished \<Rightarrow> returnM ())"

section \<open>The application's interface\<close>

definition asock_server_create_ns ::
    "nat \<Rightarrow> kernel \<Rightarrow> int \<Rightarrow> int \<Rightarrow> int \<Rightarrow> string option \<Rightarrow> (world, asock_server option) op" where
  "asock_server_create_ns fuel K domain type protocol net_ns =
     bindM (malloc K SERVER_SIZE) (\<lambda>server.
     if server = None then returnM None
     else bindM (mutex_init K) (\<lambda>ok.
     if \<not> ok then returnM None
     else bindM (syscall K Epoll_Create) (\<lambda>r.
     case r of
       Err _ \<Rightarrow> returnM None
     | Ret epolld \<Rightarrow>
         bindM (create_table K) (\<lambda>connections.
         case connections of
           None \<Rightarrow> returnM None
         | Some cs \<Rightarrow>
             bindM (create_table K) (\<lambda>new_connections.
             case new_connections of
               None \<Rightarrow> returnM None
             | Some ns \<Rightarrow>
                 bindM (strdup_opt K net_ns) (\<lambda>name.
                 if net_ns \<noteq> None \<and> name = None
                 then bindM (syscall K (Close epolld)) (\<lambda>_. returnM None)
                 else bindM asock_get_unique_service_id (\<lambda>n.
                 bindM (syscall K Thread_Create) (\<lambda>r.
                 case r of
                   Err _ \<Rightarrow> bindM (syscall K (Close epolld)) (\<lambda>_. returnM None)
                 | Ret _ \<Rightarrow>
                     bindM (start_thread (asock_server_thread_loop fuel K)
                       \<lparr>e_connections = cs, e_new_connections = ns, e_new_connections_mutex = False,
                        e_epoll_desc = epolld, e_status = Init, e_id = n,
                        e_directive = asock_init_directive, e_net_ns = name, e_net_ns_fd = - 1,
                        e_thread = Not_Started, m_server_socket = - 1,
                        m_domain = domain, m_type = type, m_protocol = protocol\<rparr>) (\<lambda>e.
                     if e_status e = Aborted
                     then bindM (syscall K (Close epolld)) (\<lambda>_. returnM None)
                     else returnM (Some e))))))))))"

definition asock_server_create ::
    "nat \<Rightarrow> kernel \<Rightarrow> int \<Rightarrow> int \<Rightarrow> int \<Rightarrow> (world, asock_server option) op" where
  "asock_server_create fuel K domain type protocol =
     asock_server_create_ns fuel K domain type protocol (Some [])"

text \<open>Calls that are refused while the server is running, and otherwise send a directive.\<close>

definition server_configuration_call ::
    "nat \<Rightarrow> kernel \<Rightarrow> ptr \<Rightarrow> DirectiveType \<Rightarrow> direct_arg \<Rightarrow> direct_arg \<Rightarrow> (asock_server \<times> world, AsockReturnCode) op" where
  "server_configuration_call fuel K server type arg1 arg2 =
     (if server = 0 then returnM ASOCK_ERR_INVAL
      else bindM (getE e_status) (\<lambda>status.
      if status = Running then returnM ASOCK_ERR_BADSTATE
      else asock_send_directive (asock_server_thread_loop fuel K) type arg1 arg2 NullArg NullArg))"

definition asock_server_bind ::
    "nat \<Rightarrow> kernel \<Rightarrow> ptr \<Rightarrow> block \<Rightarrow> socklen_t \<Rightarrow> (asock_server \<times> world, AsockReturnCode) op" where
  "asock_server_bind fuel K server addr addrlen =
     server_configuration_call fuel K server DirectBind (AddrArg addr) (LenArg addrlen)"

definition asock_server_setns ::
    "nat \<Rightarrow> kernel \<Rightarrow> ptr \<Rightarrow> string \<Rightarrow> (asock_server \<times> world, AsockReturnCode) op" where
  "asock_server_setns fuel K server net_ns =
     server_configuration_call fuel K server DirectSetns (StrArg net_ns) NullArg"

definition asock_server_listen ::
    "nat \<Rightarrow> kernel \<Rightarrow> ptr \<Rightarrow> (asock_server \<times> world, AsockReturnCode) op" where
  "asock_server_listen fuel K server =
     server_configuration_call fuel K server DirectStart NullArg NullArg"

text \<open>\<open>pthread_join\<close> returns when the thread has; otherwise it waits for ever.\<close>

definition asock_server_stop :: "nat \<Rightarrow> kernel \<Rightarrow> (asock_server \<times> world, unit) op" where
  "asock_server_stop fuel K =
     bindM (getE asock_server_is_running) (\<lambda>running.
     if \<not> running then returnM ()
     else
       bindM (asock_send_directive (asock_server_thread_loop fuel K) DirectStop NullArg NullArg NullArg NullArg) (\<lambda>_.
       bindM (getE e_thread) (\<lambda>phase.
       if phase \<noteq> Finished then failM Diverges
       else updateE (\<lambda>e. e\<lparr>e_status := Aborted\<rparr>))))"

definition asock_server_destroy :: "nat \<Rightarrow> kernel \<Rightarrow> ptr \<Rightarrow> (asock_server \<times> world, unit) op" where
  "asock_server_destroy fuel K server =
     thenM (assertM (server \<noteq> 0)) (
     bindM (getE asock_server_is_running) (\<lambda>running.
     thenM (if running then asock_server_stop fuel K else returnM ()) (
     bindM (getE e_epoll_desc) (\<lambda>epolld.
     bindM (liftW (syscall K (Close epolld))) (\<lambda>_.
     release_namespace K)))))"

definition asock_server_accept :: "ptr \<Rightarrow> (asock_server \<times> world, ptr) op" where
  "asock_server_accept server =
     thenM (assertM (server \<noteq> 0)) (
     thenM lock_new (
     bindM (getE (\<lambda>e. asock_connections_size (e_new_connections e))) (\<lambda>sz.
     if sz = 0 then thenM unlock_new (returnM 0)
     else
       bindM (connection_at e_new_connections 0) (\<lambda>con.
       bindM (erase_new_connection 0) (\<lambda>_.
       thenM unlock_new (returnM con))))))"

end
