(* ===== verification/Asock_Service.thy ===== *)
theory Asock_Service
  imports Asock_Owner
begin

text \<open>
  \<open>src/asock_service.c\<close>: the owner of the application's outgoing connections. The struct is the
  record \<open>endpoint\<close> (\<open>m_created_connections\<close> is never used, and \<open>m_events\<close> is only the buffer of
  \<open>epoll_wait\<close>). The functions of the application's interface take the service pointer, 0 for
  null, and act on the service's struct and the world; those that send a directive run the
  service's thread (\<open>asock_service_thread_loop\<close>, one round) while they wait. The code for the
  tables is in theory Asock_Owner.
\<close>

type_synonym asock_service = endpoint

definition SERVICE_SIZE :: size_t where "SERVICE_SIZE = 12568"

section \<open>The thread: connecting\<close>

text \<open>The three failures after the socket was created end alike (lines 782 to 786, 793 to 797, 805 to
  809).\<close>

definition connect_give_up :: "kernel \<Rightarrow> ptr \<Rightarrow> int \<Rightarrow> (asock_service \<times> world, unit) op" where
  "connect_give_up K con fd =
     bindM (liftW (syscall K (Close fd))) (\<lambda>_.
     liftW (update_asock con (\<lambda>a. a\<lparr>m_sock_desc := - 1, m_state := Failed\<rparr>)))"

definition connect_register :: "kernel \<Rightarrow> ptr \<Rightarrow> int \<Rightarrow> (asock_service \<times> world, unit) op" where
  "connect_register K con fd =
     bindM (getE e_epoll_desc) (\<lambda>epolld.
     bindM (liftW (add_socket_to_epoll K epolld fd)) (\<lambda>s.
     if s = - 1 then connect_give_up K con fd else returnM ()))"

definition connect_socket :: "kernel \<Rightarrow> ptr \<Rightarrow> int \<Rightarrow> byte list \<Rightarrow> (asock_service \<times> world, unit) op" where
  "connect_socket K con fd addr =
     bindM (liftW (syscall K (Connect fd addr))) (\<lambda>r.
       case r of
         Ret _ \<Rightarrow>
           thenM (liftW (update_asock con (\<lambda>a. a\<lparr>m_state := Established\<rparr>)))
                 (connect_register K con fd)
       | Err errno \<Rightarrow>
           if errno \<noteq> EINPROGRESS then connect_give_up K con fd else connect_register K con fd)"

definition asock_service_try_connect_to_peer :: "kernel \<Rightarrow> ptr \<Rightarrow> (asock_service \<times> world, unit) op" where
  "asock_service_try_connect_to_peer K con =
     thenM (assertM (con \<noteq> 0)) (
     bindM (liftW (read_asock con)) (\<lambda>c.
     thenM (assertM (m_peer_addr c \<noteq> None)) (
     thenM (liftW (update_asock con (\<lambda>a. a\<lparr>m_state := InProgress\<rparr>))) (
     bindM (liftW (syscall K (Socket 2 1 0))) (\<lambda>r.
       case r of
         Err _ \<Rightarrow> liftW (update_asock con (\<lambda>a. a\<lparr>m_sock_desc := - 1, m_state := Failed\<rparr>))
       | Ret fd \<Rightarrow>
           thenM (liftW (update_asock con (\<lambda>a. a\<lparr>m_sock_desc := fd\<rparr>))) (
           bindM (liftW (make_socket_non_blocking K fd)) (\<lambda>s.
           if s \<noteq> 0 then connect_give_up K con fd
           else connect_socket K con fd (user_bytes (m_peer_addr c) (m_peer_addrlen c)))))))))"

text \<open>Lines 534 to 547: the new connections move to the table.\<close>

definition service_adopt_connection :: "kernel \<Rightarrow> size_t \<Rightarrow> (asock_service \<times> world, unit) op" where
  "service_adopt_connection K i =
     bindM (connection_at e_new_connections i) (\<lambda>con.
     thenM (asock_service_try_connect_to_peer K con) (
     bindM (liftW (read_asock con)) (\<lambda>c.
     if m_state c = Failed then liftW (asock_destroy_asock K con)
     else bindM (push_connection K con) (\<lambda>_. returnM ()))))"

definition service_adopt_new_connections :: "kernel \<Rightarrow> (asock_service \<times> world, unit) op" where
  "service_adopt_new_connections K =
     thenM lock_new (
     bindM (getE (\<lambda>e. asock_connections_size (e_new_connections e))) (\<lambda>sz.
     thenM (foreachM (\<lambda>i. service_adopt_connection K (of_nat i)) [0..<unat sz]) (
     thenM (updateE (\<lambda>e. e\<lparr>e_new_connections := asock_vector_clear (e_new_connections e)\<rparr>))
           unlock_new)))"

section \<open>The thread: events\<close>

text \<open>Lines 561 to 578; the result says whether the event is done with.\<close>

definition service_event_out :: "kernel \<Rightarrow> int \<Rightarrow> 32 word \<Rightarrow> (asock_service \<times> world, bool) op" where
  "service_event_out K event_fd event =
     (if and event EPOLLOUT = 0 then returnM False
      else
        bindM (asock_service_index_of_con_by_sock_desc event_fd) (\<lambda>n.
        let index = signed_take_bit 31 n in
        if index = - 1 then returnM False
        else
          bindM (liftW (syscall K (Getsockopt_Error event_fd))) (\<lambda>r.
            case r of
              Err _ \<Rightarrow> bindM (asock_service_close_connection K event_fd) (\<lambda>_. returnM False)
            | Ret error \<Rightarrow>
                if error = 0
                then
                  bindM (connection_at e_connections (of_int index)) (\<lambda>con.
                  thenM (liftW (update_asock con (\<lambda>a. a\<lparr>m_state := Established\<rparr>))) (returnM False))
                else bindM (asock_service_close_connection K event_fd) (\<lambda>_. returnM True))))"

text \<open>The body of the loop over the events, lines 558 to 613.\<close>

definition service_handle_event :: "nat \<Rightarrow> kernel \<Rightarrow> int \<times> 32 word \<Rightarrow> (asock_service \<times> world, unit) op" where
  "service_handle_event fuel K = (\<lambda>(event_fd, event).
     bindM (service_event_out K event_fd event) (\<lambda>continue.
     if continue then returnM ()
     else if and event EPOLLERR \<noteq> 0 \<or> and event EPOLLHUP \<noteq> 0
     then bindM (asock_service_close_connection K event_fd) (\<lambda>_. returnM ())
     else if and event EPOLLIN \<noteq> 0 \<or> and event EPOLLPRI \<noteq> 0
     then read_all_data fuel K event_fd
     else returnM ()))"

definition asock_service_update_state :: "nat \<Rightarrow> kernel \<Rightarrow> (asock_service \<times> world, unit) op" where
  "asock_service_update_state fuel K =
     thenM (service_adopt_new_connections K) (
     thenM (asock_service_send_unsent_data K) (
     thenM (asock_service_check_for_connections_to_close K) (
     bindM (getE e_epoll_desc) (\<lambda>epolld.
     bindM (liftW (getsM (\<lambda>w. k_events K (w_log w)))) (\<lambda>events.
     bindM (liftW (syscall K (Epoll_Wait epolld))) (\<lambda>r.
     let events_number = (case r of Ret n \<Rightarrow> nat n | Err _ \<Rightarrow> 0) in
     foreachM (service_handle_event fuel K) (take events_number events)))))))"

section \<open>The thread: directives\<close>

text \<open>Line 379 writes through the sender's pointer \<open>m_arg4\<close>; arguments of another kind do not occur
  and would be wild pointers.\<close>

definition asock_service_process_create_asock_directive ::
    "kernel \<Rightarrow> (asock_service \<times> world, AsockReturnCode) op" where
  "asock_service_process_create_asock_directive K =
     bindM (getE e_directive) (\<lambda>direct.
       case (m_arg1 direct, m_arg2 direct, m_arg3 direct) of
         (IntArg domain, IntArg type, IntArg protocol) \<Rightarrow>
           bindM (liftW (asock_create_asock K domain type protocol)) (\<lambda>con.
           thenM (updateE (\<lambda>e. e\<lparr>e_directive := (e_directive e)\<lparr>m_arg4 := AsockArg con\<rparr>\<rparr>))
                 (returnM (if con = 0 then ASOCK_FAILURE else ASOCK_SUCCESS)))
       | _ \<Rightarrow> failM Null_Deref)"

text \<open>The configuration loop after its wait, lines 399 to 424, and lines 446 and 447.\<close>

definition service_configure :: "kernel \<Rightarrow> (asock_service \<times> world, unit) op" where
  "service_configure K =
     bindM (getE (\<lambda>e. asock_get_directive_type (e_directive e))) (\<lambda>type.
       case type of
         DirectStart \<Rightarrow>
           thenM (updateE (\<lambda>e. e\<lparr>e_status := Running, e_thread := Looping\<rparr>))
                 (set_directive_result ASOCK_SUCCESS)
       | DirectStop \<Rightarrow>
           thenM (updateE (\<lambda>e. e\<lparr>e_status := Aborted, e_thread := Finished\<rparr>))
                 (set_directive_result ASOCK_SUCCESS)
       | DirectCreateAsock \<Rightarrow>
           bindM (asock_service_process_create_asock_directive K) set_directive_result
       | DirectSetns \<Rightarrow> returnM ()
       | _ \<Rightarrow> failM Assert_Failed)"

text \<open>After the main loop, lines 492 to 527.\<close>

definition service_shutdown :: "kernel \<Rightarrow> (asock_service \<times> world, unit) op" where
  "service_shutdown K =
     thenM lock_new (
     thenM (destroy_connections K e_new_connections) (
     thenM unlock_new (
     thenM (destroy_connections K e_connections) (
     thenM (release_namespace K) (
     thenM (updateE (\<lambda>e. e\<lparr>e_thread := Finished\<rparr>))
           (set_directive_result ASOCK_SUCCESS))))))"

text \<open>One round of the main loop, lines 451 to 488.\<close>

definition service_main_round :: "nat \<Rightarrow> kernel \<Rightarrow> (asock_service \<times> world, unit) op" where
  "service_main_round fuel K =
     bindM (getE (\<lambda>e. asock_get_directive_type (e_directive e))) (\<lambda>type.
       case type of
         DirectNone \<Rightarrow> asock_service_update_state fuel K
       | DirectStop \<Rightarrow> service_shutdown K
       | DirectCreateAsock \<Rightarrow>
           thenM (bindM (asock_service_process_create_asock_directive K) set_directive_result)
                 (asock_service_update_state fuel K)
       | DirectStart \<Rightarrow>
           thenM (set_directive_result ASOCK_ERR_BADSTATE) (asock_service_update_state fuel K)
       | DirectSetns \<Rightarrow>
           thenM (set_directive_result ASOCK_ERR_BADSTATE) (asock_service_update_state fuel K)
       | DirectBind \<Rightarrow> failM Assert_Failed)"

text \<open>The thread function, one round at a time. In the configuration loop it waits as long as there
  is no directive.\<close>

definition asock_service_thread_loop :: "nat \<Rightarrow> kernel \<Rightarrow> (asock_service \<times> world, unit) op" where
  "asock_service_thread_loop fuel K =
     bindM (getE e_thread) (\<lambda>phase.
       case phase of
         Not_Started \<Rightarrow> updateE (\<lambda>e. e\<lparr>e_status := Configuration, e_thread := Configuring\<rparr>)
       | Configuring \<Rightarrow>
           bindM (getE (\<lambda>e. asock_wait_for_directive (e_directive e))) (\<lambda>woken.
           if woken then service_configure K else returnM ())
       | Looping \<Rightarrow> service_main_round fuel K
       | Finished \<Rightarrow> returnM ())"

section \<open>The application's interface\<close>

text \<open>The thread's first round ends the wait of lines 159 to 161.\<close>

definition asock_service_create_ns :: "nat \<Rightarrow> kernel \<Rightarrow> string option \<Rightarrow> (world, asock_service option) op" where
  "asock_service_create_ns fuel K net_ns =
     bindM (malloc K SERVICE_SIZE) (\<lambda>service.
     if service = None then returnM None
     else bindM (mutex_init K) (\<lambda>ok.
     if \<not> ok then returnM None
     else bindM (syscall K Epoll_Create) (\<lambda>r.
     case r of
       Err _ \<Rightarrow> returnM None
     | Ret epolld \<Rightarrow>
         bindM (create_table K) (\<lambda>connections.
         case connections of
           None \<Rightarrow> returnM None
         | Some cs \<Rightarrow>
             bindM (create_table K) (\<lambda>new_connections.
             case new_connections of
               None \<Rightarrow> returnM None
             | Some ns \<Rightarrow>
                 bindM (strdup_opt K net_ns) (\<lambda>name.
                 if net_ns \<noteq> None \<and> name = None then returnM None
                 else bindM asock_get_unique_service_id (\<lambda>n.
                 bindM (syscall K Thread_Create) (\<lambda>r.
                 case r of
                   Err _ \<Rightarrow> bindM (syscall K (Close epolld)) (\<lambda>_. returnM None)
                 | Ret _ \<Rightarrow>
                     bindM (start_thread (asock_service_thread_loop fuel K)
                       \<lparr>e_connections = cs, e_new_connections = ns, e_new_connections_mutex = False,
                         e_epoll_desc = epolld, e_status = Init, e_id = n,
                         e_directive = asock_init_directive, e_net_ns = name, e_net_ns_fd = - 1,
                         e_thread = Not_Started\<rparr>) (\<lambda>e.
                     if e_status e = Aborted
                     then bindM (syscall K (Close epolld)) (\<lambda>_. returnM None)
                     else returnM (Some e))))))))))"

definition asock_service_create :: "nat \<Rightarrow> kernel \<Rightarrow> (world, asock_service option) op" where
  "asock_service_create fuel K = asock_service_create_ns fuel K (Some '''')"

definition asock_service_start :: "nat \<Rightarrow> kernel \<Rightarrow> ptr \<Rightarrow> (asock_service \<times> world, AsockReturnCode) op" where
  "asock_service_start fuel K service =
     (if service = 0 then returnM ASOCK_ERR_INVAL
      else bindM (getE asock_service_is_running) (\<lambda>running.
      if running then returnM ASOCK_ERR_BADSTATE
      else asock_send_directive (asock_service_thread_loop fuel K) DirectStart NullArg NullArg NullArg NullArg))"

text \<open>\<open>pthread_join\<close> returns when the thread has; otherwise it waits for ever.\<close>

definition join_thread :: "('a endpoint_scheme \<times> world, unit) op" where
  "join_thread = bindM (getE e_thread) (\<lambda>phase. if phase = Finished then returnM () else failM Diverges)"

definition asock_service_stop :: "nat \<Rightarrow> kernel \<Rightarrow> (asock_service \<times> world, unit) op" where
  "asock_service_stop fuel K =
     bindM (getE asock_service_is_running) (\<lambda>running.
     if \<not> running then returnM ()
     else
       bindM (asock_send_directive (asock_service_thread_loop fuel K) DirectStop NullArg NullArg NullArg NullArg) (\<lambda>_.
       thenM join_thread (updateE (\<lambda>e. e\<lparr>e_status := Aborted\<rparr>))))"

text \<open>The tables and the struct are freed; what is left is the effect on the world and on the
  thread.\<close>

definition asock_service_destroy :: "nat \<Rightarrow> kernel \<Rightarrow> ptr \<Rightarrow> (asock_service \<times> world, unit) op" where
  "asock_service_destroy fuel K service =
     thenM (assertM (service \<noteq> 0)) (
     bindM (getE asock_service_is_running) (\<lambda>running.
     thenM (if running then asock_service_stop fuel K else returnM ()) (
     bindM (getE e_epoll_desc) (\<lambda>epolld.
     bindM (liftW (syscall K (Close epolld))) (\<lambda>_.
     release_namespace K)))))"

definition asock_service_connect ::
    "kernel \<Rightarrow> ptr \<Rightarrow> block \<Rightarrow> socklen_t \<Rightarrow> (asock_service \<times> world, AsockReturnCode) op" where
  "asock_service_connect K socket addr addrlen =
     (if addr = None then returnM ASOCK_ERR_INVAL
      else if socket = 0 then returnM ASOCK_ERR_INVAL
      else bindM (liftW (malloc K (ucast addrlen))) (\<lambda>peer_addr.
      if peer_addr = None then returnM ASOCK_ERR_NOMEM
      else
        bindM (liftR (\<lambda>_. mem_copy peer_addr 0 addr 0 (ucast addrlen))) (\<lambda>peer_addr.
        thenM (liftW (update_asock socket (\<lambda>a. a\<lparr>m_peer_addr := peer_addr\<rparr>))) (
        thenM (liftW (update_asock socket (\<lambda>a. a\<lparr>m_peer_addrlen := addrlen\<rparr>))) (
        bindM (getE e_id) (\<lambda>n.
        thenM (liftW (update_asock socket (\<lambda>a. a\<lparr>m_master_id := n, m_state := InProgress\<rparr>))) (
        thenM (liftW (asock_con_counter_incr socket)) (
        thenM lock_new (
        bindM (push_new_connection K socket) (\<lambda>_.
        thenM unlock_new (returnM ASOCK_SUCCESS)))))))))))"

text \<open>The local variable \<open>result\<close> is the fourth argument of the directive.\<close>

definition asock_service_create_asock ::
    "nat \<Rightarrow> kernel \<Rightarrow> ptr \<Rightarrow> int \<Rightarrow> int \<Rightarrow> int \<Rightarrow> (asock_service \<times> world, ptr) op" where
  "asock_service_create_asock fuel K service domain type protocol =
     (if service = 0 then returnM 0
      else bindM (getE e_status) (\<lambda>status.
      if status = Aborted \<or> status = Init then returnM 0
      else
        bindM (asock_send_directive (asock_service_thread_loop fuel K) DirectCreateAsock
                 (IntArg domain) (IntArg type) (IntArg protocol) (AsockArg 0)) (\<lambda>_.
        bindM (getE (\<lambda>e. m_arg4 (e_directive e))) (\<lambda>result.
        case result of AsockArg con \<Rightarrow> returnM con | _ \<Rightarrow> failM Null_Deref))))"

end
