(* ===== verification/Asock_Impl_Facts.thy ===== *)
theory Asock_Impl_Facts
  imports Asock_Impl Asock_Containers
begin

text \<open>
  The properties of single connections: creation, reference counting, and the application's reads
  and writes.
\<close>

section \<open>A sample connection\<close>

text \<open>Two bytes in every queue.\<close>

definition sample_con :: "int \<Rightarrow> 64 word \<Rightarrow> int \<Rightarrow> bool \<Rightarrow> asock" where
  "sample_con fd n ref gone =
     \<lparr>m_sock_desc = fd, m_connection_id = n, m_master_id = 1, m_state = Established,
      m_disconnect = gone, m_in_queue = sample_queue, m_out_queue = sample_queue, m_ref_counter = ref,
      m_peer_addr = None, m_peer_addrlen = 0, m_host_addr = None, m_host_addrlen = 0, m_net_ns = None\<rparr>"

lemma sample_con_simps [simp]:
  "m_sock_desc (sample_con fd n ref gone) = fd" "m_ref_counter (sample_con fd n ref gone) = ref"
  "m_disconnect (sample_con fd n ref gone) = gone" "m_out_queue (sample_con fd n ref gone) = sample_queue"
  "m_in_queue (sample_con fd n ref gone) = sample_queue"
  "m_master_id (sample_con fd n ref gone) = 1" "m_state (sample_con fd n ref gone) = Established"
  by (simp_all add: sample_con_def)

lemma sample_byte_queue [simp]: "byte_queue_ok sample_queue" "queue_data sample_queue = [11, 22]"
  by (simp_all add: byte_queue_ok_def sample_queue_inv queue_data_def)

lemma sample_con_ok [simp]: "1 \<le> ref \<Longrightarrow> asock_ok (sample_con fd n ref gone)"
  by (simp add: asock_ok_def)

definition one_con_world :: "int \<Rightarrow> world" where
  "one_con_world ref =
     \<lparr>w_log = [(Socket 2 1 0, Ret 6)], w_allocs = 0, w_asocks = [4096 \<mapsto> sample_con 6 0 ref False],
      w_cons_number = 1, w_services_created = 1\<rparr>"

lemma one_con_world_simps [simp]:
  "w_asocks (one_con_world ref) 4096 = Some (sample_con 6 0 ref False)"
  "closes fd (w_log (one_con_world ref)) = 0" "w_cons_number (one_con_world ref) = 1"
  by (simp_all add: one_con_world_def)

section \<open>Creation\<close>

text \<open>C23. \<open>asock_create_asock\<close> never faults. It returns either a new object at an address that was
  not in use, idle, with one reference, empty queues of 4096 bytes, an open descriptor of its own
  and the next connection number; or the null pointer, and then no object was added and the
  descriptor it may have opened is closed again.\<close>

theorem create_asock_outcome:
  assumes "kernel_ok K"
  shows "\<exists>p w'. asock_create_asock K domain type protocol w = Inr (p, w') \<and>
    (if p = 0
     then w_asocks w' = w_asocks w \<and> (\<forall>fd. is_open fd (w_log w') = is_open fd (w_log w))
     else \<exists>a. w_asocks w p = None \<and> w_asocks w' = (w_asocks w)(p \<mapsto> a)
        \<and> fresh_asock (m_sock_desc a) (w_cons_number w) a \<and> w_cons_number w' = w_cons_number w + 1
        \<and> \<not> is_open (m_sock_desc a) (w_log w) \<and> is_open (m_sock_desc a) (w_log w'))"
proof -
  let ?c = "Socket domain type protocol"
  let ?P = "\<lambda>p w'. if p = 0
     then w_asocks w' = w_asocks w \<and> (\<forall>fd. is_open fd (w_log w') = is_open fd (w_log w))
     else \<exists>a. w_asocks w p = None \<and> w_asocks w' = (w_asocks w)(p \<mapsto> a)
        \<and> fresh_asock (m_sock_desc a) (w_cons_number w) a \<and> w_cons_number w' = w_cons_number w + 1
        \<and> \<not> is_open (m_sock_desc a) (w_log w) \<and> is_open (m_sock_desc a) (w_log w')"
  have "wp no_fault (asock_create_asock K domain type protocol) ?P w"
  proof (cases "k_ret K (w_log w) ?c")
    case (Err errno)
    then show ?thesis by (simp add: asock_create_asock_def wp_simps)
  next
    case (Ret fd)
    have new: "\<not> is_open fd (w_log w)" using kernel_okD(1) [OF assms _ Ret] by simp
    let ?w1 = "w\<lparr>w_log := (?c, Ret fd) # w_log w\<rparr>"
    have "wp no_fault (asock_fcreate_asock K fd) (\<lambda>p w'. wp no_fault
        (if p = 0 then bindM (syscall K (Close fd)) (\<lambda>_. returnM p) else returnM p) ?P w') ?w1"
    proof (rule wp_mono [OF asock_fcreate_asock_spec [OF assms]])
      fix p w'
      assume "(p = 0 \<and> w' = ?w1\<lparr>w_allocs := w_allocs w'\<rparr>) \<or> (p \<noteq> 0 \<and> w_asocks ?w1 p = None
         \<and> fresh_asock fd (w_cons_number ?w1) (the (w_asocks w' p))
         \<and> w' = ?w1\<lparr>w_allocs := w_allocs w', w_asocks := (w_asocks ?w1)(p \<mapsto> the (w_asocks w' p)),
               w_cons_number := w_cons_number ?w1 + 1\<rparr>)"
      then show "wp no_fault (if p = 0 then bindM (syscall K (Close fd)) (\<lambda>_. returnM p) else returnM p) ?P w'"
      proof (elim disjE conjE)
        assume "p = 0" and w': "w' = ?w1\<lparr>w_allocs := w_allocs w'\<rparr>"
        have "w_log w' = (?c, Ret fd) # w_log w" "w_asocks w' = w_asocks w" by (subst w', simp)+
        with \<open>p = 0\<close> new show ?thesis by (auto simp: wp_simps)
      next
        assume p: "p \<noteq> 0" "w_asocks ?w1 p = None" "fresh_asock fd (w_cons_number ?w1) (the (w_asocks w' p))"
          and w': "w' = ?w1\<lparr>w_allocs := w_allocs w', w_asocks := (w_asocks ?w1)(p \<mapsto> the (w_asocks w' p)),
               w_cons_number := w_cons_number ?w1 + 1\<rparr>"
        have f: "w_log w' = (?c, Ret fd) # w_log w" "w_cons_number w' = w_cons_number w + 1"
          "w_asocks w' = (w_asocks w)(p \<mapsto> the (w_asocks w' p))" by (subst w', simp)+
        have fd: "m_sock_desc (the (w_asocks w' p)) = fd" using p(3) by (simp add: fresh_asock_def)
        show ?thesis
          using p new f fd by (auto simp: wp_simps intro!: exI [of _ "the (w_asocks w' p)"])
      qed
    qed
    then show ?thesis unfolding asock_create_asock_def by (simp only: wp_bind wp_syscall Ret sysres.case)
  qed
  then show ?thesis by (rule wp_no_faultD)
qed

theorem create_asock_outcome_witness:
  "\<exists>p w'. asock_create_asock calm_kernel 2 1 0 empty_world = Inr (p, w')
    \<and> (p = 0 \<longrightarrow> (\<forall>q. w_asocks w' q = None))"
  using create_asock_outcome [OF calm_kernel_ok, of 2 1 0 empty_world]
  by (auto simp: empty_world_def split: if_splits)

section \<open>Reference counting\<close>

primrec destroy_times :: "nat \<Rightarrow> kernel \<Rightarrow> ptr \<Rightarrow> (world, unit) op" where
  "destroy_times 0 K p = returnM ()"
| "destroy_times (Suc n) K p = thenM (asock_destroy_asock K p) (destroy_times n K p)"

lemma destroy_times_spec:
  "p \<noteq> 0 \<Longrightarrow> w_asocks w p = Some a \<Longrightarrow> m_ref_counter a = int (Suc n) \<Longrightarrow>
   wp no_fault (destroy_times n K p) (\<lambda>_ w'. w_log w' = w_log w \<and> (\<exists>b. w_asocks w' p = Some b
     \<and> m_ref_counter b = 1 \<and> m_sock_desc b = m_sock_desc a
     \<and> m_in_queue b = m_in_queue a \<and> m_out_queue b = m_out_queue a)) w"
proof (induction n arbitrary: w a)
  case 0
  then show ?case by (simp add: wp_simps)
next
  case (Suc n)
  let ?b = "a\<lparr>m_disconnect := True, m_ref_counter := m_ref_counter a - 1\<rparr>"
  let ?w = "w\<lparr>w_asocks := (w_asocks w)(p \<mapsto> ?b)\<rparr>"
  have "wp no_fault (destroy_times n K p) (\<lambda>_ w'. w_log w' = w_log ?w \<and> (\<exists>b. w_asocks w' p = Some b
     \<and> m_ref_counter b = 1 \<and> m_sock_desc b = m_sock_desc ?b
     \<and> m_in_queue b = m_in_queue ?b \<and> m_out_queue b = m_out_queue ?b)) ?w"
    by (rule Suc.IH [OF Suc.prems(1)]) (use Suc.prems in simp_all)
  with Suc.prems show ?case by (simp add: wp_simps asock_destroy_asock_spec)
qed

text \<open>C22. An object with \<open>n + 1\<close> references survives \<open>n\<close> calls of \<open>asock_destroy_asock\<close>, with its
  queues as they were and its descriptor open, and goes with the next, which closes the
  descriptor; one more call works on freed memory.\<close>

theorem destroy_frees_with_last_reference:
  assumes "p \<noteq> 0" "w_asocks w p = Some a" "m_ref_counter a = int (Suc n)" "m_sock_desc a \<noteq> - 1"
  shows "\<exists>w' w''. destroy_times n K p w = Inr ((), w') \<and> w_log w' = w_log w
    \<and> (\<exists>b. w_asocks w' p = Some b \<and> m_in_queue b = m_in_queue a \<and> m_out_queue b = m_out_queue a)
    \<and> asock_destroy_asock K p w' = Inr ((), w'') \<and> w_asocks w'' p = None
    \<and> closes (m_sock_desc a) (w_log w'') = closes (m_sock_desc a) (w_log w) + 1
    \<and> asock_destroy_asock K p w'' = Inl Use_After_Free"
proof -
  obtain w' b where w': "destroy_times n K p w = Inr ((), w')" "w_log w' = w_log w"
      "w_asocks w' p = Some b" "m_ref_counter b = 1" "m_sock_desc b = m_sock_desc a"
      "m_in_queue b = m_in_queue a" "m_out_queue b = m_out_queue a"
    using destroy_times_spec [OF assms(1-3), of K] by (auto dest!: wp_no_faultD)
  have "wp no_fault (asock_destroy_asock K p) (\<lambda>_ w''. w_asocks w'' p = None
      \<and> closes (m_sock_desc a) (w_log w'') = closes (m_sock_desc a) (w_log w) + 1) w'"
    using asock_destroy_asock_spec [OF assms(1) w'(3)] w' assms(4) by simp
  then obtain w'' where w'': "asock_destroy_asock K p w' = Inr ((), w'')" "w_asocks w'' p = None"
      "closes (m_sock_desc a) (w_log w'') = closes (m_sock_desc a) (w_log w) + 1"
    by (auto dest!: wp_no_faultD)
  have "wp (\<lambda>f. f = Use_After_Free) (asock_destroy_asock K p) (\<lambda>_ _. False) w''"
    using assms(1) w''(2) by (simp add: asock_destroy_asock_def wp_simps)
  then have "asock_destroy_asock K p w'' = Inl Use_After_Free" by (auto simp: wp_def split: sum.splits)
  with w' w'' show ?thesis by blast
qed

theorem destroy_frees_with_last_reference_witness:
  "\<exists>w' w''. destroy_times 1 calm_kernel 4096 (one_con_world 2) = Inr ((), w')
    \<and> asock_destroy_asock calm_kernel 4096 w' = Inr ((), w'') \<and> w_asocks w'' 4096 = None"
  using destroy_frees_with_last_reference [of 4096 "one_con_world 2" "sample_con 6 0 2 False" 1 calm_kernel]
  by auto

section \<open>Reading and writing\<close>



text \<open>What a call leaves in the world.\<close>

lemma wp_write_granted:
  assumes "p \<noteq> 0" "w_asocks w p = Some a" "asock_ok a" "alloc_grants (allocator_at K w)"
    and n: "unat n = length bs" and bound: "length (queue_data (m_out_queue a)) + length bs \<le> 2 ^ 62"
  shows "wp F (asock_write K p (Some bs) n) (\<lambda>r w'. r = int (length bs) \<and> (\<exists>q. byte_queue_ok q
    \<and> queue_data q = queue_data (m_out_queue a) @ bs
    \<and> w' = w\<lparr>w_allocs := w_allocs w', w_asocks := (w_asocks w)(p \<mapsto> a\<lparr>m_out_queue := q\<rparr>)\<rparr>)) w"
proof -
  have q: "byte_queue_ok (m_out_queue a)" using assms(3) by (simp add: asock_ok_def)
  obtain q' where "asock_tsqueue_enqueue (allocator_at K w) (m_out_queue a) (Some bs) n = Inr (ASOCK_SUCCESS, q')"
      "byte_queue_ok q'" "queue_data q' = queue_data (m_out_queue a) @ bs"
    using byte_enqueue_granted [OF q assms(4) n bound] by blast
  moreover have "sint n = int (length bs)"
  proof -
    have "int (length bs) < 2 ^ 63" using bound by simp
    moreover have "n = of_nat (length bs)" using n by (metis of_nat_unat_size)
    ultimately show ?thesis by (simp add: signed_of_nat signed_take_bit_int_eq_self)
  qed
  ultimately show ?thesis
    using assms(1,2) by (simp add: asock_write_def wp_simps return_code_defs) blast
qed

lemma wp_read_prefix:
  assumes "p \<noteq> 0" "w_asocks w p = Some a" "asock_ok a" "length buf = unat n"
    and "queue_data (m_in_queue a) = received"
  shows "wp F (asock_read p (Some buf) n) (\<lambda>r w'. r = (int (min (unat n) (length received)),
        Some (take (unat n) received @ drop (length received) buf))
      \<and> (\<exists>q. byte_queue_ok q \<and> queue_data q = drop (unat n) received
          \<and> w' = w\<lparr>w_asocks := (w_asocks w)(p \<mapsto> a\<lparr>m_in_queue := q\<rparr>)\<rparr>)) w"
proof -
  let ?m = "min (unat n) (length received)"
  have q: "byte_queue_ok (m_in_queue a)" using assms(3) by (simp add: asock_ok_def)
  then have inv: "queue_inv (m_in_queue a)" by (simp add: byte_queue_ok_def)
  obtain q' where q': "asock_tsqueue_dequeue (m_in_queue a) (Some buf) n =
      Inr (of_nat ?m, Some (splice buf 0 (take ?m received)), q')" "byte_queue_ok q'"
      "queue_data q' = drop ?m received"
    using byte_dequeue [OF q, of "Some buf" n] assms(4,5) by auto
  have sp: "splice buf 0 (take ?m received) = take (unat n) received @ drop (length received) buf"
    using assms(4) by (auto simp: splice_def min_def)
  have "length received < 2 ^ 63"
    using byte_queue_items(2) [OF q] queue_inv_numbers(3,5) [OF inv] assms(5) by simp
  then have "int ?m < 2 ^ 63" by simp
  then have "sint (of_nat ?m :: size_t) = int ?m" by (simp add: signed_of_nat signed_take_bit_int_eq_self)
  moreover have "queue_data q' = drop (unat n) received" using q'(3) by (simp add: min_def)
  ultimately show ?thesis
    using assms(1-3) q'(1,2) sp by (simp add: asock_read_def wp_simps) (intro exI [of _ q'], simp)
qed

text \<open>C25. \<open>asock_read\<close> into a buffer of \<open>n\<close> bytes delivers the first \<open>n\<close> received bytes, or as many
  as there are, takes exactly them out of the input queue and leaves the rest of the buffer alone.\<close>

theorem read_takes_prefix:
  assumes "p \<noteq> 0" "w_asocks w p = Some a" "asock_ok a" "length buf = unat n"
    and "queue_data (m_in_queue a) = received"
  shows "\<exists>w' b. asock_read p (Some buf) n w = Inr ((int (min (unat n) (length received)),
        Some (take (unat n) received @ drop (length received) buf)), w')
    \<and> w_asocks w' p = Some b \<and> asock_ok b \<and> queue_data (m_in_queue b) = drop (unat n) received
    \<and> m_out_queue b = m_out_queue a"
proof -
  obtain w' q where r: "asock_read p (Some buf) n w = Inr ((int (min (unat n) (length received)),
        Some (take (unat n) received @ drop (length received) buf)), w')"
      "byte_queue_ok q" "queue_data q = drop (unat n) received"
      "w' = w\<lparr>w_asocks := (w_asocks w)(p \<mapsto> a\<lparr>m_in_queue := q\<rparr>)\<rparr>"
    using wp_no_faultD [OF wp_read_prefix [OF assms]] by blast
  have "asock_ok (a\<lparr>m_in_queue := q\<rparr>)" using assms(3) r(2) by (simp add: asock_ok_def)
  with r show ?thesis by (intro exI [of _ w'] exI [of _ "a\<lparr>m_in_queue := q\<rparr>"]) simp
qed

theorem read_takes_prefix_witness:
  "\<exists>w' b. asock_read 4096 (Some [0, 0, 0]) 3 (one_con_world 2) = Inr ((2, Some [11, 22, 0]), w')
    \<and> w_asocks w' 4096 = Some b \<and> queue_data (m_in_queue b) = []"
  using read_takes_prefix [of 4096 "one_con_world 2" "sample_con 6 0 2 False" "[0, 0, 0]" 3 "[11, 22]"]
  by auto

end
