(* ===== verification/Asock_Owner_Facts.thy ===== *)
theory Asock_Owner_Facts
  imports Asock_Owner Asock_Impl_Facts
begin

text \<open>
  The properties of the code that services and servers share: closing connections, dropping those
  the application gave up, and sending what waits in the output queues. The names are those of
  \<open>src/asock_service.c\<close>; the copies of \<open>src/asock_server.c\<close> are the same definitions.
\<close>

section \<open>A small owner\<close>

text \<open>Two established connections with descriptors 6 and 7 and two bytes in every queue.\<close>

definition sample_owner :: endpoint where
  "sample_owner =
     \<lparr>e_connections = sample_table, e_new_connections = sample_table\<lparr>v_size := 0\<rparr>,
      e_new_connections_mutex = False, e_epoll_desc = 5, e_status = Running, e_id = 1,
      e_directive = asock_init_directive, e_net_ns = None, e_net_ns_fd = - 1,
      e_thread = Looping\<rparr>"

definition sample_world :: "int \<Rightarrow> bool \<Rightarrow> world" where
  "sample_world ref gone =
     \<lparr>w_log = [(Socket 2 1 0, Ret 7), (Socket 2 1 0, Ret 6)], w_allocs = 0,
      w_asocks = [4096 \<mapsto> sample_con 6 0 ref gone, 8192 \<mapsto> sample_con 7 1 2 False],
      w_cons_number = 2, w_services_created = 1\<rparr>"

lemma sample_tables [simp]: "cons_of sample_owner = [4096, 8192]" "news_of sample_owner = []"
proof -
  show "cons_of sample_owner = [4096, 8192]"
    by (simp add: cons_of_def sample_owner_def sample_table_inv(2))
  show "news_of sample_owner = []"
    by (simp add: news_of_def sample_owner_def con_ptrs_def vector_items_def chunks_def)
qed

lemma sample_fds [simp]: "fd_of (sample_world ref gone) 4096 = 6" "fd_of (sample_world ref gone) 8192 = 7"
  by (simp_all add: fd_of_def sample_world_def sample_con_def)

lemma sample_objects [simp]:
  "w_asocks (sample_world ref gone) 4096 = Some (sample_con 6 0 ref gone)"
  "w_asocks (sample_world ref gone) 8192 = Some (sample_con 7 1 2 False)"
  "closes fd (w_log (sample_world ref gone)) = 0" "sent fd (w_log (sample_world ref gone)) = []"
  by (simp_all add: sample_world_def)

lemma sample_owner_ok [simp]:
  assumes "1 \<le> ref"
  shows "owner_ok sample_owner (sample_world ref gone)" "owner_inv sample_owner (sample_world ref gone)"
proof -
  have "con_inv (sample_table\<lparr>v_size := 0\<rparr>)"
    by (simp add: con_inv_def sample_table_def CON_PTR_SIZE_def vector_inv_def vector_bytes_def PTRDIFF_MAX_def)
  then show inv: "owner_inv sample_owner (sample_world ref gone)"
    unfolding owner_inv_def
    by (simp add: sample_table_inv(1) con_ok_def sample_world_def sample_con_def fd_of_def)
      (simp add: sample_owner_def sample_table_inv(1))
  then show "owner_ok sample_owner (sample_world ref gone)"
    using assms by (simp add: owner_ok_def sample_world_def sample_con_def asock_ok_def)
qed

section \<open>Closing\<close>

lemma close_connection_helper:
  assumes "owner_inv e w" "p \<in> set (cons_of e)" "fd_of w p = sockd"
  shows "\<exists>e' w'. asock_service_close_connection K sockd (e, w) = Inr (ASOCK_SUCCESS, (e', w'))
    \<and> owner_inv e' w' \<and> cons_of e' = filter (\<lambda>q. q \<noteq> p) (cons_of e)
    \<and> news_of e' = filter (\<lambda>q. q \<noteq> p) (news_of e) \<and> w' = closed_world K w p"
proof -
  have "wp no_fault (asock_service_close_connection K sockd) (\<lambda>r (e', w'). r = ASOCK_SUCCESS
    \<and> owner_inv e' w' \<and> cons_of e' = filter (\<lambda>q. q \<noteq> p) (cons_of e)
    \<and> news_of e' = filter (\<lambda>q. q \<noteq> p) (news_of e) \<and> w' = closed_world K w p) (e, w)"
    using assms by (intro wp_close_connection) simp_all
  then show ?thesis by (auto dest: wp_no_faultD)
qed

text \<open>C13. \<open>asock_service_close_connection\<close> on the descriptor of a connection in the table always
  succeeds, takes exactly that connection out of both tables and keeps them well-formed; the
  object loses the owner's reference, is marked failed and disconnected or freed with its last
  reference, and no other object and no other descriptor is touched.\<close>

theorem close_connection_exact:
  assumes "owner_inv e w" "p \<in> set (cons_of e)" "fd_of w p = sockd"
  shows "\<exists>e' w'. asock_service_close_connection K sockd (e, w) = Inr (ASOCK_SUCCESS, (e', w'))
    \<and> owner_inv e' w' \<and> cons_of e' = filter (\<lambda>q. q \<noteq> p) (cons_of e)
    \<and> news_of e' = filter (\<lambda>q. q \<noteq> p) (news_of e) \<and> ended w p w'
    \<and> (\<forall>q. q \<noteq> p \<longrightarrow> w_asocks w' q = w_asocks w q)
    \<and> (\<forall>fd. fd \<noteq> sockd \<longrightarrow> closes fd (w_log w') = closes fd (w_log w))"
  using close_connection_helper [OF assms, of K] assms(3)
  by (auto simp: ended_closed_world closed_world_frame)

theorem close_connection_exact_witness:
  "\<exists>e' w'. asock_service_close_connection calm_kernel 6 (sample_owner, sample_world 2 False)
      = Inr (ASOCK_SUCCESS, (e', w')) \<and> cons_of e' = [8192]"
  using close_connection_exact [of sample_owner "sample_world 2 False" 4096 6 calm_kernel]
  by auto

text \<open>C33. The owner closes the descriptor and leaves it in the object: when the application later
  destroys a connection that its owner has already closed, the same descriptor number is closed
  a second time, although the kernel may have given it to another connection by then.\<close>

theorem closed_descriptor_closed_again:
  assumes "owner_inv e w" "p \<in> set (cons_of e)" "w_asocks w p = Some a" "m_ref_counter a = 2"
  shows "\<exists>e' w' w''. asock_service_close_connection K (m_sock_desc a) (e, w) = Inr (ASOCK_SUCCESS, (e', w'))
    \<and> asock_destroy_asock K p w' = Inr ((), w'') \<and> w_asocks w'' p = None
    \<and> closes (m_sock_desc a) (w_log w') = closes (m_sock_desc a) (w_log w) + 1
    \<and> closes (m_sock_desc a) (w_log w'') = closes (m_sock_desc a) (w_log w) + 2"
proof -
  have fd: "fd_of w p = m_sock_desc a" using assms(3) by (simp add: fd_of_def)
  have "con_ok w p" using assms(1,2) by (simp add: owner_inv_def)
  then have p: "p \<noteq> 0" "0 \<le> m_sock_desc a" using assms(3) by (auto simp: con_ok_def)
  let ?b = "a\<lparr>m_state := Failed, m_disconnect := True, m_ref_counter := 1\<rparr>"
  obtain e' w' where c: "asock_service_close_connection K (m_sock_desc a) (e, w) = Inr (ASOCK_SUCCESS, (e', w'))"
      "w_asocks w' p = Some ?b" "closes (m_sock_desc a) (w_log w') = closes (m_sock_desc a) (w_log w) + 1"
    using close_connection_helper [OF assms(1,2) fd, of K] ended_closed_world [of w p K] assms(3,4)
    by (auto simp: ended_def Let_def)
  have "wp no_fault (asock_destroy_asock K p) (\<lambda>_ w''. w_asocks w'' p = None
      \<and> closes (m_sock_desc a) (w_log w'') = closes (m_sock_desc a) (w_log w) + 2) w'"
    using asock_destroy_asock_spec [of p w' ?b] p c by simp
  with c show ?thesis by (auto dest!: wp_no_faultD)
qed

theorem closed_descriptor_closed_again_witness:
  "\<exists>e' w' w''. asock_service_close_connection calm_kernel 6 (sample_owner, sample_world 2 False)
      = Inr (ASOCK_SUCCESS, (e', w'))
    \<and> asock_destroy_asock calm_kernel 4096 w' = Inr ((), w'') \<and> closes 6 (w_log w'') = 2"
  using closed_descriptor_closed_again [of sample_owner "sample_world 2 False" 4096 "sample_con 6 0 2 False" calm_kernel]
  by fastforce

text \<open>C14. \<open>asock_service_check_for_connections_to_close\<close> closes exactly the connections that the
  application has destroyed, in one pass, whatever their places in the table: the others stay in
  their order and untouched. A connection whose last reference is the owner's is freed, and its
  descriptor is closed twice in a row.\<close>

theorem check_for_connections_to_close_exact:
  assumes "owner_inv e w"
  shows "\<exists>e' w'. asock_service_check_for_connections_to_close K (e, w) = Inr ((), (e', w'))
    \<and> owner_inv e' w' \<and> cons_of e' = filter (\<lambda>p. \<not> given_up w p) (cons_of e)
    \<and> news_of e' = filter (\<lambda>p. \<not> (p \<in> set (cons_of e) \<and> given_up w p)) (news_of e)
    \<and> (\<forall>p \<in> set (cons_of e). if given_up w p then ended w p w' else untouched w p w')"
proof -
  obtain r e' w' where "asock_service_check_for_connections_to_close K (e, w) = Inr (r, (e', w'))"
      "close_pass_inv e w 0 e' w'"
    using wp_check_for_connections_to_close [OF assms, of no_fault K] by (auto dest!: wp_no_faultD)
  then show ?thesis by (auto simp: close_pass_inv_def)
qed

theorem check_for_connections_to_close_exact_witness:
  "\<exists>e' w'. asock_service_check_for_connections_to_close calm_kernel (sample_owner, sample_world 1 True)
      = Inr ((), (e', w')) \<and> cons_of e' = [8192] \<and> w_asocks w' 4096 = None \<and> closes 6 (w_log w') = 2"
  using check_for_connections_to_close_exact [of sample_owner "sample_world 1 True" calm_kernel]
  by (auto simp: ended_def given_up_def)

section \<open>Sending\<close>

text \<open>C12. One pass of \<open>asock_service_send_unsent_data\<close> loses, repeats and reorders nothing: for every
  connection in the table, what the kernel has accepted on its descriptor followed by what is
  still queued is the same byte sequence before and after, however much each \<open>send\<close> takes and
  whether it succeeds, would block or fails. This needs a second reference to every connection,
  and then no fault occurs.\<close>

theorem send_unsent_data_keeps_streams:
  assumes "owner_ok e w" "kernel_ok K"
    and "\<forall>p \<in> set (cons_of e). m_ref_counter (the (w_asocks w p)) \<noteq> 1"
  shows "\<exists>e' w'. asock_service_send_unsent_data K (e, w) = Inr ((), (e', w')) \<and> owner_ok e' w'
    \<and> set (cons_of e') \<subseteq> set (cons_of e)
    \<and> (\<forall>p \<in> set (cons_of e). w_asocks w' p \<noteq> None \<and> stream w' p = stream w p)"
proof -
  obtain r e' w' where "asock_service_send_unsent_data K (e, w) = Inr (r, (e', w'))" "pass_inv e w 0 e' w'"
    using wp_send_unsent_data [OF assms(1,2), of no_fault] assms(3) by (force dest!: wp_no_faultD)
  then show ?thesis by (auto simp: pass_inv_def dest: lasts_live)
qed

theorem send_unsent_data_keeps_streams_witness:
  "\<exists>e' w'. asock_service_send_unsent_data calm_kernel (sample_owner, sample_world 2 False) = Inr ((), (e', w'))
    \<and> stream w' 4096 = [11, 22] \<and> stream w' 8192 = [11, 22]"
proof -
  have "stream (sample_world 2 False) p = [11, 22]" "m_ref_counter (the (w_asocks (sample_world 2 False) p)) \<noteq> 1"
    if "p \<in> {4096, 8192}" for p
    using that by (auto simp: stream_def)
  then show ?thesis
    using send_unsent_data_keeps_streams [of sample_owner "sample_world 2 False" calm_kernel] by fastforce
qed

text \<open>C31. The pass works on an object it may just have freed: when the application has already
  destroyed an established connection and the \<open>send\<close> of its waiting data fails for another reason
  than a full socket buffer, closing the connection frees the object, queue and mutex included,
  and the next statement unlocks that mutex.\<close>

theorem send_unsent_data_use_after_free:
  assumes "owner_inv e w" "cons_of e = [p]" "w_asocks w p = Some a" "asock_ok a"
    and "e_status e = Running" "m_master_id a = e_id e" "m_state a = Established" "m_ref_counter a = 1"
    and "queue_data (m_out_queue a) \<noteq> []"
    and "\<And>bs. k_ret K (w_log w) (Send (m_sock_desc a) bs) = Err errno" "errno \<noteq> EAGAIN" "errno \<noteq> EWOULDBLOCK"
  shows "asock_service_send_unsent_data K (e, w) = Inl Use_After_Free"
proof -
  let ?q = "m_out_queue a" and ?a1 = "a\<lparr>m_out_queue := (m_out_queue a)\<lparr>q_mutex := True\<rparr>\<rparr>"
  let ?w1 = "w\<lparr>w_asocks := (w_asocks w)(p \<mapsto> ?a1)\<rparr>" and ?n = "asock_tsqueue_head_size ?q"
  have p: "p \<in> set (cons_of e)" and p0: "p \<noteq> 0" and c: "con_inv (e_connections e)"
    using assms(1,2) by (auto simp: owner_inv_def con_ok_def)
  have q: "byte_queue_ok ?q" using assms(4) by (simp add: asock_ok_def)
  then have free: "\<not> q_mutex ?q" by (simp add: byte_queue_ok_def)
  have "unat ?n \<noteq> 0" using byte_head(2) [OF q] assms(9) by simp
  moreover from this have "?n \<noteq> 0" by auto
  ultimately obtain off where off: "asock_tsqueue_head ?q = Some off"
      "mem_read (q_data ?q) off ?n = Inr (take (unat ?n) (queue_data ?q))" "?n \<noteq> 0"
    using byte_head(3) [OF q] by auto
  have hs: "asock_tsqueue_head_size (?q\<lparr>q_mutex := True\<rparr>) = ?n"
    "asock_tsqueue_head (?q\<lparr>q_mutex := True\<rparr>) = asock_tsqueue_head ?q"
    by (simp_all add: asock_tsqueue_head_size_def asock_tsqueue_head_def)
  have inv1: "owner_inv e ?w1" by (rule same_descs_inv [OF _ assms(1)]) (simp add: same_descs_def assms(3))
  let ?w2 = "\<lambda>bs. ?w1\<lparr>w_log := (Send (m_sock_desc a) bs, Err errno) # w_log ?w1\<rparr>"
  have inv2: "owner_inv e (?w2 bs)" for bs
    by (rule same_descs_inv [OF _ inv1]) (simp add: same_descs_def)
  have freed: "w_asocks (closed_world K (?w2 bs) p) p = None" for bs
    using assms(8) by (simp add: closed_world_def Let_def)
  let ?F = "\<lambda>f. f = Use_After_Free" and ?Q = "\<lambda>_ _. False"
  have "0 < unat (v_size (e_connections e))"
    using assms(2) length_con_ptrs [of "e_connections e"] by (simp add: cons_of_def)
  then have at: "wp ?F (connection_at e_connections 0) R (e, w) = R p (e, w)" for R
    using wp_connection_at [of e_connections e 0] c assms(2) by (simp add: cons_of_def)
  have unlock: "wp ?F (liftW (out_queue_unlock p)) R (e', closed_world K (?w2 bs) p)" for R e' bs
    using p0 freed by (simp add: wp_simps out_queue_unlock_def)
  have close: "wp ?F (asock_service_close_connection K (m_sock_desc a))
      (\<lambda>_. wp ?F (liftW (out_queue_unlock p)) R) (e, ?w2 bs)" for R bs
    by (rule wp_close_connection [OF inv2 p]) (use unlock in \<open>simp_all add: fd_of_def\<close>)
  have minus: "signed_take_bit 31 (- 1 :: int) = - 1" by simp
  have round: "wp ?F (asock_service_try_send_data K p bs len) (\<lambda>r. wp ?F (thenM (liftW (out_queue_unlock p)) (m r)) R) (e, ?w1)"
    for bs len m R
    unfolding asock_service_try_send_data_def
    using p0 assms close
    by (auto simp: wp_simps minus small_index asock_service_is_running_def
        intro!: wp_index_of_con [OF inv1 p])
  have "wp ?F (send_unsent_from K 0) ?Q (e, w)"
    using p0 assms(3) free off round
    by (simp add: send_unsent_from_def wp_simps at out_queue_lock_def Let_def hs cong: if_cong)
  moreover have "unat (asock_connections_size (e_connections e)) = Suc 0"
    using assms(2) c by (simp add: cons.count_law cons_of_def)
  ultimately have "wp ?F (asock_service_send_unsent_data K) ?Q (e, w)"
    by (simp add: asock_service_send_unsent_data_def wp_simps for_down_eq)
  then show ?thesis by (auto simp: wp_def split: sum.splits)
qed

text \<open>A kernel on which \<open>send\<close> fails with \<open>EPIPE\<close>, and an owner of one connection only.\<close>

definition broken_pipe :: kernel where
  "broken_pipe = calm_kernel\<lparr>k_ret := (\<lambda>l c. case c of Send fd bs \<Rightarrow> Err 32 | _ \<Rightarrow> calm_ret l c)\<rparr>"

definition lonely_owner :: endpoint where
  "lonely_owner = sample_owner\<lparr>e_connections := sample_table\<lparr>v_size := 1\<rparr>\<rparr>"

lemma lonely_owner_ok:
  "owner_inv lonely_owner (sample_world 1 True)" "cons_of lonely_owner = [4096]"
proof -
  have v: "con_inv (sample_table\<lparr>v_size := n\<rparr>)" if "n \<le> 2" for n
    using that by (simp add: con_inv_def sample_table_def CON_PTR_SIZE_def vector_inv_def vector_bytes_def PTRDIFF_MAX_def)
  show cs: "cons_of lonely_owner = [4096]"
    by (simp add: cons_of_def lonely_owner_def sample_table_def con_ptrs_def vector_items_def chunks_def chunk_def
        vector_bytes_def CON_PTR_SIZE_def)
  have ns: "news_of lonely_owner = []"
    by (simp add: news_of_def lonely_owner_def sample_owner_def con_ptrs_def vector_items_def chunks_def)
  show "owner_inv lonely_owner (sample_world 1 True)"
    unfolding owner_inv_def cs ns
    by (simp add: lonely_owner_def sample_owner_def v con_ok_def sample_world_def)
qed

theorem send_unsent_data_use_after_free_witness:
  "asock_service_send_unsent_data broken_pipe (lonely_owner, sample_world 1 True) = Inl Use_After_Free"
proof -
  have "asock_ok (sample_con 6 0 1 True)" by (simp add: asock_ok_def sample_con_def)
  then show ?thesis
    using send_unsent_data_use_after_free [of lonely_owner "sample_world 1 True" 4096 "sample_con 6 0 1 True" broken_pipe 32]
      lonely_owner_ok
    by (simp add: broken_pipe_def EAGAIN_def EWOULDBLOCK_def lonely_owner_def sample_owner_def)
qed

section \<open>Receiving\<close>

text \<open>What the kernel delivers on a descriptor until it has no more (\<open>True\<close>: for now, \<open>False\<close>: the
  stream ended or failed); \<open>None\<close> when it does not stop within so many reads.\<close>

fun incoming :: "nat \<Rightarrow> kernel \<Rightarrow> int \<Rightarrow> syslog \<Rightarrow> (byte list \<times> bool) option" where
  "incoming 0 K fd l = None"
| "incoming (Suc n) K fd l =
     (case k_ret K l (Read fd BUF_SIZE) of
        Err errno \<Rightarrow> Some ([], errno = EAGAIN)
      | Ret c \<Rightarrow>
          if c = 0 then Some ([], False)
          else map_option (\<lambda>(bs, b). (k_data K l fd @ bs, b))
                 (incoming n K fd ((Read fd BUF_SIZE, Ret c) # l)))"

definition received ::
    "'a endpoint_scheme \<Rightarrow> world \<Rightarrow> kernel \<Rightarrow> ptr \<Rightarrow> asock \<Rightarrow> byte list \<Rightarrow> bool \<Rightarrow> 'a endpoint_scheme \<Rightarrow> world \<Rightarrow> bool" where
  "received e w K p a bs goes_on e' w' \<longleftrightarrow>
     (\<exists>q w1. byte_queue_ok q \<and> queue_data q = queue_data (m_in_queue a) @ bs
        \<and> w_asocks w1 = (w_asocks w)(p \<mapsto> a\<lparr>m_in_queue := q\<rparr>)
        \<and> reading K (m_sock_desc a) bs (w_log w) (w_log w1)
        \<and> (if goes_on then e' = e \<and> w' = w1
           else cons_of e' = filter (\<lambda>q. q \<noteq> p) (cons_of e) \<and> news_of e' = filter (\<lambda>q. q \<noteq> p) (news_of e)
             \<and> same_but_tables e e' \<and> owner_inv e' w' \<and> w' = closed_world K w1 p))"

lemma wp_read_all_data:
  assumes K: "kernel_ok K" "alloc_grants (k_malloc K)"
  shows "owner_inv e w \<Longrightarrow> p \<in> set (cons_of e) \<Longrightarrow> w_asocks w p = Some a \<Longrightarrow> byte_queue_ok (m_in_queue a) \<Longrightarrow>
    incoming fuel K (m_sock_desc a) (w_log w) = Some (bs, goes_on) \<Longrightarrow>
    length (queue_data (m_in_queue a)) + length bs \<le> 2 ^ 62 \<Longrightarrow>
    wp no_fault (read_all_data fuel K (m_sock_desc a)) (\<lambda>_ (e', w'). received e w K p a bs goes_on e' w') (e, w)"
proof (induction fuel arbitrary: w a bs)
  case 0
  then show ?case by simp
next
  case (Suc fuel)
  let ?fd = "m_sock_desc a" and ?c = "Read (m_sock_desc a) BUF_SIZE"
  let ?w1 = "\<lambda>r. w\<lparr>w_log := (?c, r) # w_log w\<rparr>"
  note inv = Suc.prems(1) and p = Suc.prems(2) and a = Suc.prems(3)
  have p0: "p \<noteq> 0" using inv p by (auto simp: owner_inv_def con_ok_def)
  have inv1: "owner_inv e (?w1 r)" for r
    by (rule same_descs_inv [OF _ inv]) (simp add: same_descs_def)
  have close: "wp no_fault (asock_service_close_connection K ?fd)
      (\<lambda>_ (e', w'). received e w K p a [] False e' w') (e, ?w1 r)"
    if "reading K ?fd [] (w_log w) ((?c, r) # w_log w)" for r
    by (rule wp_close_connection [OF inv1 p])
      (use a Suc.prems(4) that in \<open>auto simp: fd_of_def received_def intro!: exI [of _ "m_in_queue a"] exI [of _ "?w1 r"]\<close>)
  show ?case
  proof (cases "k_ret K (w_log w) ?c")
    case (Err errno)
    with Suc.prems have "bs = []" "goes_on = (errno = EAGAIN)" by auto
    then show ?thesis using Err close Suc.prems(3,4)
      by (auto simp: wp_simps received_def reading_read intro!: exI [of _ "m_in_queue a"])
  next
    case (Ret c)
    show ?thesis
    proof (cases "c = 0")
      case True
      with Ret Suc.prems have "bs = []" "goes_on = False" by auto
      then show ?thesis using Ret True close by (simp add: wp_simps reading_read)
    next
      case False
      let ?new = "k_data K (w_log w) ?fd"
      obtain bs' where bs': "incoming fuel K ?fd (w_log (?w1 (Ret c))) = Some (bs', goes_on)" "bs = ?new @ bs'"
        using Suc.prems(5) Ret False by auto
      have c: "0 \<le> c" "c \<le> int BUF_SIZE" "int (length ?new) = c" using kernel_okD(3) [OF K(1) Ret] by auto
      have n: "unat (of_int c :: size_t) = length ?new"
      proof -
        have "of_int c = (of_nat (length ?new) :: size_t)" using c(3) by (metis of_int_of_nat_eq)
        moreover have "length ?new < 2 ^ 64" using c(2,3) by (simp add: BUF_SIZE_def)
        ultimately show ?thesis by (simp add: unat_of_nat_size)
      qed
      let ?w2 = "?w1 (Ret c)"
      have "alloc_grants (allocator_at K ?w2)"
        by (rule allocator_at_grants [OF K(2)])
      moreover have "length (queue_data (m_in_queue a)) + length ?new \<le> 2 ^ 62" using Suc.prems(6) bs' by simp
      ultimately obtain q where q: "asock_tsqueue_enqueue (allocator_at K ?w2) (m_in_queue a) (Some ?new) (of_int c)
          = Inr (ASOCK_SUCCESS, q)" "byte_queue_ok q" "queue_data q = queue_data (m_in_queue a) @ ?new"
        using byte_enqueue_granted [OF Suc.prems(4) _ n] by blast
      let ?a3 = "a\<lparr>m_in_queue := q\<rparr>"
      let ?w3 = "?w2\<lparr>w_allocs := w_allocs w + 1, w_asocks := (w_asocks w)(p \<mapsto> ?a3)\<rparr>"
      have inv3: "owner_inv e ?w3" by (rule same_descs_inv [OF _ inv]) (simp add: same_descs_def a)
      have rest: "wp no_fault (read_all_data fuel K ?fd) (\<lambda>_ (e', w'). received e w K p a bs goes_on e' w') (e, ?w3)"
      proof -
        have run: "wp no_fault (read_all_data fuel K ?fd)
            (\<lambda>_ (e', w'). received e ?w3 K p ?a3 bs' goes_on e' w') (e, ?w3)"
          using Suc.IH [OF inv3 p, of ?a3 bs'] bs' q Suc.prems(6) by simp
        have "reading K ?fd bs (w_log w) l" if "reading K ?fd bs' (w_log ?w3) l" for l
          using reading_trans [OF reading_read(3) [of K ?fd c "w_log w" BUF_SIZE], of bs' l] that c bs'(2) by simp
        then have "received e w K p a bs goes_on e' w'" if "received e ?w3 K p ?a3 bs' goes_on e' w'" for e' w'
          using that q(3) bs'(2) unfolding received_def
          by (elim exE) (intro exI conjI, auto)
        then show ?thesis by (intro wp_mono [OF run]) auto
      qed
      have fd: "fd_of ?w2 p = ?fd" using a by (simp add: fd_of_def)
      have inv2: "owner_inv e ?w2" by (rule inv1)
      obtain k where k: "first_index (\<lambda>q. fd_of ?w2 q = ?fd) (cons_of e) = Some k" "k < length (cons_of e)"
          "cons_of e ! k = p"
        using first_index_unique [of "cons_of e" p "\<lambda>q. fd_of ?w2 q = ?fd"] inv2 p fd
        unfolding owner_inv_def by (metis (no_types, lifting) Un_iff inj_onD)
      have at: "wp no_fault (connection_at e_connections (of_nat k)) R (e, ?w2) = R p (e, ?w2)" for R
        using wp_connection_at [of e_connections e k] k inv by (simp add: cons_of_def owner_inv_def)
      show ?thesis
        using Ret False rest p0 a q(1) k(1)
        by (simp add: wp_simps wp_index_by_sock_desc [OF inv2] at)
    qed
  qed
qed

text \<open>C15. Draining a readable descriptor (lines 592 to 612 of \<open>src/asock_service.c\<close>, 803 to 823 of
  \<open>src/asock_server.c\<close>) appends everything the kernel delivers, in order and whatever the sizes of
  the reads, to the input queue of the connection that owns the descriptor, and touches nothing
  else; when the kernel reports the end of the stream or an error, the connection is then closed.
  The loop returns as soon as the kernel stops delivering. Memory must be granted: the result of
  the enqueue is not looked at.\<close>

theorem read_all_data_appends:
  assumes "kernel_ok K" "alloc_grants (k_malloc K)" "owner_ok e w" "p \<in> set (cons_of e)" "w_asocks w p = Some a"
    and "incoming fuel K (m_sock_desc a) (w_log w) = Some (bs, goes_on)"
    and "length (queue_data (m_in_queue a)) + length bs \<le> 2 ^ 62"
  shows "\<exists>e' w'. read_all_data fuel K (m_sock_desc a) (e, w) = Inr ((), (e', w'))
    \<and> received e w K p a bs goes_on e' w'"
proof -
  have "asock_ok a" using owner_okD [OF assms(3-5)] .
  then have "wp no_fault (read_all_data fuel K (m_sock_desc a)) (\<lambda>_ (e', w'). received e w K p a bs goes_on e' w') (e, w)"
    using assms by (intro wp_read_all_data) (auto simp: owner_ok_def asock_ok_def)
  then show ?thesis by (auto dest!: wp_no_faultD)
qed

text \<open>A kernel that delivers two bytes once.\<close>

fun is_read :: "call \<Rightarrow> bool" where
  "is_read (Read fd n) = (2 \<le> n)"
| "is_read c = False"

definition two_bytes :: kernel where
  "two_bytes = calm_kernel\<lparr>k_ret := (\<lambda>l c. if is_read c \<and> \<not> list_ex (\<lambda>(c, r). is_read c) l then Ret 2 else calm_ret l c),
     k_data := (\<lambda>l fd. [33, 44])\<rparr>"

lemma two_bytes_ok: "kernel_ok two_bytes" "alloc_grants (k_malloc two_bytes)"
proof -
  have r: "0 \<le> r \<and> r < 2 ^ 31 \<and> \<not> is_open r l" if "opens c" "k_ret two_bytes l c = Ret r" for l c r
    using that kernel_okD(1) [OF calm_kernel_ok, of c l r]
    by (cases c) (simp_all add: two_bytes_def calm_kernel_def)
  then show "kernel_ok two_bytes"
    unfolding kernel_ok_def
    by (intro conjI allI impI) (use calm_kernel_ok in \<open>auto simp: two_bytes_def calm_kernel_def kernel_ok_def split: if_splits\<close>)
  show "alloc_grants (k_malloc two_bytes)" by (simp add: two_bytes_def calm_kernel_def)
qed

theorem read_all_data_appends_witness:
  "\<exists>w' q. read_all_data 3 two_bytes 6 (sample_owner, sample_world 2 False) = Inr ((), (sample_owner, w'))
    \<and> w_asocks w' 4096 = Some ((sample_con 6 0 2 False)\<lparr>m_in_queue := q\<rparr>) \<and> queue_data q = [11, 22, 33, 44]"
proof -
  have "incoming 3 two_bytes 6 (w_log (sample_world 2 False)) = Some ([33, 44], True)"
    by (simp add: eval_nat_numeral two_bytes_def sample_world_def BUF_SIZE_def)
  then show ?thesis
    using read_all_data_appends [OF two_bytes_ok, of sample_owner "sample_world 2 False" 4096 "sample_con 6 0 2 False" 3 "[33, 44]" True]
    by (auto simp: received_def)
qed

end
