(* ===== verification/Asock_Service_Facts.thy ===== *)
theory Asock_Service_Facts
  imports Asock_Service Asock_Owner_Facts
begin

text \<open>
  The properties of the service: connecting to peers, taking over new connections, and its life
  from creation to the end of its thread.
\<close>

section \<open>Connecting\<close>

text \<open>How an attempt to connect ends for the object and its descriptor.\<close>

definition connect_outcome :: "world \<Rightarrow> ptr \<Rightarrow> asock \<Rightarrow> world \<Rightarrow> bool" where
  "connect_outcome w p a w' \<longleftrightarrow>
     (\<forall>d. traffic d (w_log w') = traffic d (w_log w))
     \<and> (\<exists>fd s. w_asocks w' = (w_asocks w)(p \<mapsto> a\<lparr>m_sock_desc := fd, m_state := s\<rparr>)
      \<and> (if fd = - 1
         then s = Failed \<and> (\<forall>d. is_open d (w_log w') = is_open d (w_log w))
         else (s = InProgress \<or> s = Established) \<and> 0 \<le> fd \<and> fd < 2 ^ 31 \<and> \<not> is_open fd (w_log w)
            \<and> (\<forall>d. is_open d (w_log w') = (d = fd \<or> is_open d (w_log w)))))"

lemma asock_update_order:
  "a\<lparr>m_state := s, m_sock_desc := fd\<rparr> = a\<lparr>m_sock_desc := fd, m_state := s\<rparr>"
  by (cases a) simp

text \<open>In between: the object has the new descriptor, and nothing else was opened or closed.\<close>

definition connecting :: "world \<Rightarrow> ptr \<Rightarrow> asock \<Rightarrow> int \<Rightarrow> AsockConState \<Rightarrow> world \<Rightarrow> bool" where
  "connecting w p a fd s w' \<longleftrightarrow>
     p \<noteq> 0 \<and> 0 \<le> fd \<and> fd < 2 ^ 31 \<and> \<not> is_open fd (w_log w)
     \<and> (\<forall>d. traffic d (w_log w') = traffic d (w_log w))
     \<and> w_asocks w' = (w_asocks w)(p \<mapsto> a\<lparr>m_sock_desc := fd, m_state := s\<rparr>)
     \<and> (\<forall>d. is_open d (w_log w') = (d = fd \<or> is_open d (w_log w)))"

lemma connecting_quiet:
  assumes "connecting w p a fd s w1" "quiet (w_log w1) (w_log w2)" "w2 = w1\<lparr>w_log := w_log w2\<rparr>"
  shows "connecting w p a fd s w2"
proof -
  have "w_asocks w2 = w_asocks w1" by (subst assms(3)) simp
  with assms(1,2) show ?thesis by (simp add: connecting_def quiet_def)
qed

lemma connecting_done: "connecting w p a fd s w' \<Longrightarrow> s = InProgress \<or> s = Established \<Longrightarrow> connect_outcome w p a w'"
  unfolding connecting_def connect_outcome_def by (intro conjI exI [of _ fd] exI [of _ s]) auto

lemma wp_connect_give_up:
  "connecting w p a fd s w1 \<Longrightarrow>
    wp F (connect_give_up K p fd) (\<lambda>_ (e', w'). e' = e \<and> connect_outcome w p a w') (e, w1)"
  by (auto simp: connecting_def connect_outcome_def connect_give_up_def wp_simps)

lemma wp_connect_register:
  assumes "connecting w p a fd s w1" "s = InProgress \<or> s = Established"
  shows "wp F (connect_register K p fd) (\<lambda>_ (e', w'). e' = e \<and> connect_outcome w p a w') (e, w1)"
proof -
  have "wp F (add_socket_to_epoll K epolld fd) (\<lambda>r w2. wp F
      (if r = - 1 then connect_give_up K p fd else returnM ()) (\<lambda>_ (e', w'). e' = e \<and> connect_outcome w p a w') (e, w2)) w1"
    for epolld
  proof (rule wp_mono [OF wp_add_socket_to_epoll], elim conjE)
    fix r w2
    assume "quiet (w_log w1) (w_log w2)" "w2 = w1\<lparr>w_log := w_log w2\<rparr>"
    note mid = connecting_quiet [OF assms(1) this]
    show "wp F (if r = - 1 then connect_give_up K p fd else returnM ())
        (\<lambda>_ (e', w'). e' = e \<and> connect_outcome w p a w') (e, w2)"
      using wp_connect_give_up [OF mid] connecting_done [OF mid assms(2)] by (simp add: wp_return)
  qed
  then show ?thesis by (simp only: connect_register_def wp_bind wp_getE wp_liftW)
qed

lemma wp_connect_socket:
  assumes mid: "connecting w p a fd InProgress w1"
  shows "wp F (connect_socket K p fd addr) (\<lambda>_ (e', w'). e' = e \<and> connect_outcome w p a w') (e, w1)"
proof (cases "k_ret K (w_log w1) (Connect fd addr)")
  case (Ret n)
  let ?w2 = "w1\<lparr>w_log := (Connect fd addr, Ret n) # w_log w1, w_asocks := (w_asocks w)(p \<mapsto> a\<lparr>m_sock_desc := fd, m_state := Established\<rparr>)\<rparr>"
  have "connecting w p a fd Established ?w2" using mid by (simp add: connecting_def)
  from wp_connect_register [OF this] show ?thesis
    using Ret mid by (simp add: connect_socket_def connecting_def wp_then wp_bind wp_liftW wp_syscall wp_update_asock)
next
  case (Err errno)
  let ?w2 = "w1\<lparr>w_log := (Connect fd addr, Err errno) # w_log w1\<rparr>"
  have "connecting w p a fd InProgress ?w2" using mid by (simp add: connecting_def)
  from wp_connect_register [OF this] wp_connect_give_up [OF this] show ?thesis
    using Err by (cases "errno = EINPROGRESS") (simp_all add: connect_socket_def wp_bind wp_liftW wp_syscall)
qed

lemma wp_try_connect:
  assumes K: "kernel_ok K" and p: "p \<noteq> 0" "w_asocks w p = Some a" "m_peer_addr a \<noteq> None"
  shows "wp F (asock_service_try_connect_to_peer K p) (\<lambda>_ (e', w'). e' = e \<and> connect_outcome w p a w') (e, w)"
proof (cases "k_ret K (w_log w) (Socket 2 1 0)")
  case (Err errno)
  then show ?thesis
    using p by (simp add: asock_service_try_connect_to_peer_def wp_simps connect_outcome_def) force
next
  case (Ret fd)
  let ?post = "\<lambda>_ (e', w'). e' = e \<and> connect_outcome w p a w'"
  let ?w1 = "w\<lparr>w_log := (Socket 2 1 0, Ret fd) # w_log w, w_asocks := (w_asocks w)(p \<mapsto> a\<lparr>m_sock_desc := fd, m_state := InProgress\<rparr>)\<rparr>"
  have "connecting w p a fd InProgress ?w1"
    using kernel_okD(1) [OF K _ Ret] p(1) by (auto simp: connecting_def)
  note mid = connecting_quiet [OF this]
  have "wp F (make_socket_non_blocking K fd) (\<lambda>r w2. wp F
      (if r \<noteq> 0 then connect_give_up K p fd else connect_socket K p fd (user_bytes (m_peer_addr a) (m_peer_addrlen a)))
      ?post (e, w2)) ?w1"
  proof (rule wp_mono [OF wp_make_socket_non_blocking], elim conjE)
    fix r w2
    assume "quiet (w_log ?w1) (w_log w2)" "w2 = ?w1\<lparr>w_log := w_log w2\<rparr>"
    then have "connecting w p a fd InProgress w2" by (rule mid)
    from wp_connect_give_up [OF this] wp_connect_socket [OF this]
    show "wp F (if r \<noteq> 0 then connect_give_up K p fd
        else connect_socket K p fd (user_bytes (m_peer_addr a) (m_peer_addrlen a))) ?post (e, w2)" by simp
  qed
  then show ?thesis
    using p Ret
    by (simp add: asock_service_try_connect_to_peer_def wp_then wp_bind wp_assert wp_liftW
        wp_read_asock wp_update_asock wp_syscall asock_update_order)
qed

section \<open>Taking over new connections\<close>

text \<open>A set of live, well-formed connections with open descriptors of their own.\<close>

definition good_set :: "world \<Rightarrow> ptr set \<Rightarrow> bool" where
  "good_set w S \<longleftrightarrow>
     (\<forall>q \<in> S. con_ok w q \<and> asock_ok (the (w_asocks w q))) \<and> inj_on (fd_of w) S"

lemma owner_ok_good_set:
  "owner_ok e w \<longleftrightarrow> good_set w (set (cons_of e) \<union> set (news_of e)) \<and>
     con_inv (e_connections e) \<and> con_inv (e_new_connections e) \<and> \<not> e_new_connections_mutex e
     \<and> distinct (cons_of e) \<and> distinct (news_of e)"
  unfolding owner_ok_def owner_inv_def good_set_def by blast

lemma good_set_subset: "good_set w S \<Longrightarrow> T \<subseteq> S \<Longrightarrow> good_set w T"
  by (auto simp: good_set_def intro: inj_on_subset)

text \<open>A step that changes one object outside the set, or gives one object a new descriptor.\<close>

lemma good_set_frame:
  assumes "good_set w S" "p \<notin> S"
    and "\<forall>q. q \<noteq> p \<longrightarrow> w_asocks w' q = w_asocks w q" "\<forall>d. is_open d (w_log w) \<longrightarrow> is_open d (w_log w')"
  shows "good_set w' S"
proof -
  have same: "w_asocks w' q = w_asocks w q" if "q \<in> S" for q using assms(2,3) that by metis
  then have "inj_on (fd_of w') S = inj_on (fd_of w) S" by (intro inj_on_cong) (simp add: fd_of_def)
  then show ?thesis using assms(1,4) same by (force simp: good_set_def con_ok_def)
qed

lemma good_set_insert:
  assumes "good_set w S" "con_ok w p" "asock_ok (the (w_asocks w p))" "\<forall>q \<in> S. fd_of w q \<noteq> fd_of w p"
  shows "good_set w (insert p S)"
  using assms by (auto simp: good_set_def inj_on_def)

text \<open>What becomes of a new connection: it has a descriptor that was not in use and is connected or
  connecting, or it has failed and lost the service's reference.\<close>

definition adopted :: "world \<Rightarrow> ptr \<Rightarrow> world \<Rightarrow> bool" where
  "adopted w p w' \<longleftrightarrow> (\<exists>a fd s. w_asocks w p = Some a \<and> (s = InProgress \<or> s = Established)
     \<and> w_asocks w' p = Some (a\<lparr>m_sock_desc := fd, m_state := s\<rparr>)
     \<and> \<not> is_open fd (w_log w) \<and> is_open fd (w_log w'))"

definition refused :: "world \<Rightarrow> ptr \<Rightarrow> world \<Rightarrow> bool" where
  "refused w p w' \<longleftrightarrow> (\<exists>a. w_asocks w p = Some a \<and> w_asocks w' p =
     (if m_ref_counter a = 1 then None
      else Some (a\<lparr>m_sock_desc := - 1, m_state := Failed, m_disconnect := True,
                   m_ref_counter := m_ref_counter a - 1\<rparr>)))"

definition kept :: "world \<Rightarrow> ptr \<Rightarrow> bool" where
  "kept w p \<longleftrightarrow> (case w_asocks w p of None \<Rightarrow> False | Some a \<Rightarrow> m_state a \<noteq> Failed)"

definition adopt_inv ::
    "asock_service \<Rightarrow> world \<Rightarrow> ptr list \<Rightarrow> asock_service \<Rightarrow> world \<Rightarrow> bool" where
  "adopt_inv e w taken e' w' \<longleftrightarrow>
     same_but_tables (e\<lparr>e_new_connections_mutex := True\<rparr>) e' \<and> e_new_connections e' = e_new_connections e
     \<and> con_inv (e_connections e') \<and> cons_of e' = cons_of e @ filter (kept w') taken
     \<and> (\<forall>q. q \<notin> set taken \<longrightarrow> w_asocks w' q = w_asocks w q)
     \<and> (\<forall>fd. is_open fd (w_log w) \<longrightarrow> is_open fd (w_log w'))
     \<and> (\<forall>fd. traffic fd (w_log w') = traffic fd (w_log w))
     \<and> (\<forall>q \<in> set taken. adopted w q w' \<and> kept w' q \<or> refused w q w' \<and> \<not> kept w' q)
     \<and> good_set w' (set (cons_of e) \<union> {q \<in> set (news_of e). q \<notin> set taken \<or> kept w' q})"

lemma adopt_frame:
  assumes "w_asocks w2 q = w_asocks w1 q" "\<forall>d. is_open d (w_log w1) \<longrightarrow> is_open d (w_log w2)"
  shows "kept w2 q = kept w1 q" "adopted w q w1 \<Longrightarrow> adopted w q w2" "refused w q w2 = refused w q w1"
  using assms by (auto simp: kept_def adopted_def refused_def)

lemma adopt_step:
  assumes inv: "adopt_inv e w taken e1 w1"
    and p: "p \<in> set (news_of e)" "p \<notin> set taken" "p \<notin> set (cons_of e)"
    and w2: "\<forall>q. q \<noteq> p \<longrightarrow> w_asocks w2 q = w_asocks w1 q" "\<forall>d. is_open d (w_log w1) \<longrightarrow> is_open d (w_log w2)"
      "\<forall>d. traffic d (w_log w2) = traffic d (w_log w1)"
    and fate: "adopted w p w2 \<and> kept w2 p \<or> refused w p w2 \<and> \<not> kept w2 p"
    and good: "kept w2 p \<Longrightarrow> con_ok w2 p \<and> asock_ok (the (w_asocks w2 p)) \<and> \<not> is_open (fd_of w2 p) (w_log w1)"
    and e2: "e2 = e1\<lparr>e_connections := v\<rparr>" "con_inv v"
      "con_ptrs v = (if kept w2 p then cons_of e1 @ [p] else cons_of e1)"
  shows "adopt_inv e w (taken @ [p]) e2 w2"
proof -
  have same: "kept w2 q = kept w1 q" "adopted w q w1 \<Longrightarrow> adopted w q w2" "refused w q w2 = refused w q w1"
    if "q \<noteq> p" for q
    using adopt_frame [OF _ w2(2), of q] w2(1) that by simp_all
  have tk: "kept w2 q = kept w1 q" if "q \<in> set taken" for q using same(1) p(2) that by metis
  let ?S = "set (cons_of e) \<union> {q \<in> set (news_of e). q \<notin> set taken \<or> kept w1 q}"
  have g1: "good_set w1 (?S - {p})" using inv unfolding adopt_inv_def by (meson Diff_subset good_set_subset)
  then have g2: "good_set w2 (?S - {p})" by (rule good_set_frame) (use w2 in auto)
  have S2: "set (cons_of e) \<union> {q \<in> set (news_of e). q \<notin> set (taken @ [p]) \<or> kept w2 q}
      = (if kept w2 p then insert p (?S - {p}) else ?S - {p})"
    using p by (auto simp: tk)
  have "good_set w2 (insert p (?S - {p}))" if k: "kept w2 p"
  proof (rule good_set_insert [OF g2])
    have "is_open (fd_of w2 q) (w_log w1)" if "q \<in> ?S - {p}" for q
    proof -
      have "con_ok w1 q" "fd_of w2 q = fd_of w1 q" using g1 w2(1) that by (auto simp: good_set_def fd_of_def)
      then show ?thesis by (auto elim: con_okE)
    qed
    moreover have "\<not> is_open (fd_of w2 p) (w_log w1)" using good [OF k] by (elim conjE)
    ultimately show "\<forall>q \<in> ?S - {p}. fd_of w2 q \<noteq> fd_of w2 p" by force
    show "con_ok w2 p" "asock_ok (the (w_asocks w2 p))" using good [OF k] by simp_all
  qed
  with g2 have g: "good_set w2 (set (cons_of e) \<union> {q \<in> set (news_of e). q \<notin> set (taken @ [p]) \<or> kept w2 q})"
    unfolding S2 by simp
  have f: "filter (kept w2) taken = filter (kept w1) taken"
    by (intro filter_cong refl tk)
  have c: "cons_of e1 = cons_of e @ filter (kept w1) taken" using inv by (simp add: adopt_inv_def)
  have cs: "cons_of e2 = cons_of e @ filter (kept w2) (taken @ [p])"
    using e2 f c by (simp add: cons_of_def)
  have fates: "\<forall>q \<in> set (taken @ [p]). adopted w q w2 \<and> kept w2 q \<or> refused w q w2 \<and> \<not> kept w2 q"
  proof
    fix q assume "q \<in> set (taken @ [p])"
    then consider "q = p" | "q \<in> set taken" "q \<noteq> p" using p(2) by auto
    then show "adopted w q w2 \<and> kept w2 q \<or> refused w q w2 \<and> \<not> kept w2 q"
    proof cases
      case 2
      then have "adopted w q w1 \<and> kept w1 q \<or> refused w q w1 \<and> \<not> kept w1 q"
        using inv unfolding adopt_inv_def by blast
      with same [OF 2(2)] show ?thesis by blast
    qed (use fate in simp)
  qed
  from inv e2 w2 cs fates g show ?thesis
    unfolding adopt_inv_def same_but_tables_def by simp
qed

lemma wp_push_connection:
  assumes c: "con_inv (e_connections e)" and mem: "alloc_grants (k_malloc K)" and room: "length (cons_of e) \<le> 2 ^ 32"
    and Q: "\<And>v. con_inv v \<Longrightarrow> con_ptrs v = cons_of e @ [p] \<Longrightarrow>
      Q ASOCK_SUCCESS (e\<lparr>e_connections := v\<rparr>, w\<lparr>w_allocs := w_allocs w + 1\<rparr>)"
  shows "wp F (push_connection K p) Q (e, w)"
proof -
  have "alloc_grants (allocator_at K w)" by (rule allocator_at_grants [OF mem])
  then obtain v where v: "asock_connections_push (allocator_at K w) (e_connections e) p = Inr (ASOCK_SUCCESS, v)"
      "con_inv v" "con_ptrs v = cons_of e @ [p]"
    using connections_push_granted [OF c] room unfolding cons_of_def by blast
  from v(1) Q [OF v(2,3)] show ?thesis by (simp add: push_connection_def wp_simps)
qed

text \<open>The table push of the other table.\<close>

lemma wp_push_new_connection:
  assumes c: "con_inv (e_new_connections e)" and mem: "alloc_grants (k_malloc K)" and room: "length (news_of e) \<le> 2 ^ 32"
    and Q: "\<And>v. con_inv v \<Longrightarrow> con_ptrs v = news_of e @ [p] \<Longrightarrow>
      Q ASOCK_SUCCESS (e\<lparr>e_new_connections := v\<rparr>, w\<lparr>w_allocs := w_allocs w + 1\<rparr>)"
  shows "wp F (push_new_connection K p) Q (e, w)"
proof -
  have "alloc_grants (allocator_at K w)" by (rule allocator_at_grants [OF mem])
  then obtain v where v: "asock_connections_push (allocator_at K w) (e_new_connections e) p = Inr (ASOCK_SUCCESS, v)"
      "con_inv v" "con_ptrs v = news_of e @ [p]"
    using connections_push_granted [OF c] room unfolding news_of_def by blast
  from v(1) Q [OF v(2,3)] show ?thesis by (simp add: push_new_connection_def wp_simps)
qed

text \<open>Copying a whole address into the block that was allocated for it.\<close>

lemma mem_copy_address:
  assumes "alloc_grants mem" "length bs = unat n" "unat n \<le> PTRDIFF_MAX"
  shows "\<exists>d. mem i n = Some d \<and> mem_copy (Some d) 0 (Some bs) 0 n = Inr (Some bs)"
proof -
  obtain d where d: "mem i n = Some d" using assms(1,3) unfolding alloc_grants_def by blast
  moreover have "length d = unat n" using assms(1) d alloc_okD unfolding alloc_grants_def by blast
  ultimately show ?thesis
    using assms(2) by (simp add: mem_copy_def mem_read_def mem_write_def splice_def)
qed

lemma adopt_finish_failed:
  assumes inv: "adopt_inv e w taken e1 w1"
    and p: "p \<in> set (news_of e)" "p \<notin> set taken" "p \<notin> set (cons_of e)" "p \<noteq> 0"
    and a: "w_asocks w p = Some a"
    and w2: "w_asocks w2 = (w_asocks w1)(p \<mapsto> a\<lparr>m_sock_desc := - 1, m_state := Failed\<rparr>)"
      "\<forall>d. is_open d (w_log w2) = is_open d (w_log w1)" "\<forall>d. traffic d (w_log w2) = traffic d (w_log w1)"
  shows "wp F (asock_destroy_asock K p) (\<lambda>_. adopt_inv e w (taken @ [p]) e1) w2"
proof -
  let ?b = "a\<lparr>m_sock_desc := - 1, m_state := Failed\<rparr>"
  define w3 where "w3 = (if m_ref_counter a = 1 then w2\<lparr>w_log := w_log w2, w_asocks := (w_asocks w2)(p := None)\<rparr>
    else w2\<lparr>w_asocks := (w_asocks w2)(p \<mapsto> ?b\<lparr>m_disconnect := True, m_ref_counter := m_ref_counter a - 1\<rparr>)\<rparr>)"
  have "adopt_inv e w (taken @ [p]) e1 w3"
  proof (rule adopt_step [OF inv p(1-3)])
    show "\<forall>q. q \<noteq> p \<longrightarrow> w_asocks w3 q = w_asocks w1 q" using w2(1) by (simp add: w3_def)
    show "\<forall>d. is_open d (w_log w1) \<longrightarrow> is_open d (w_log w3)" using w2(2) by (simp add: w3_def)
    show "\<forall>d. traffic d (w_log w3) = traffic d (w_log w1)" using w2(3) by (simp add: w3_def)
    have nk: "\<not> kept w3 p" by (simp add: w3_def kept_def)
    moreover have "refused w p w3" using a by (simp add: refused_def w3_def)
    ultimately show "adopted w p w3 \<and> kept w3 p \<or> refused w p w3 \<and> \<not> kept w3 p" by simp
    show "e1 = e1\<lparr>e_connections := e_connections e1\<rparr>" by simp
    show "con_inv (e_connections e1)" using inv by (simp add: adopt_inv_def)
    show "con_ptrs (e_connections e1) = (if kept w3 p then cons_of e1 @ [p] else cons_of e1)"
      using nk by (simp add: cons_of_def)
    show "con_ok w3 p \<and> asock_ok (the (w_asocks w3 p)) \<and> \<not> is_open (fd_of w3 p) (w_log w1)" if "kept w3 p"
      using nk that by simp
  qed
  moreover have at: "w_asocks w2 p = Some ?b" using w2(1) by simp
  ultimately show ?thesis
    by (subst asock_destroy_asock_spec [OF p(4) at]) (simp add: w3_def split: if_splits)
qed

lemma adopt_finish_kept:
  assumes inv: "adopt_inv e w taken e1 w1" and mem: "alloc_grants (k_malloc K)"
    and p: "p \<in> set (news_of e)" "p \<notin> set taken" "p \<notin> set (cons_of e)" "p \<noteq> 0"
    and a: "w_asocks w p = Some a" "asock_ok a" and room: "length (cons_of e1) \<le> 2 ^ 32"
    and w2: "w_asocks w2 = (w_asocks w1)(p \<mapsto> a\<lparr>m_sock_desc := fd, m_state := s\<rparr>)"
      "\<forall>d. is_open d (w_log w2) = (d = fd \<or> is_open d (w_log w1))" "\<forall>d. traffic d (w_log w2) = traffic d (w_log w1)"
    and fd: "0 \<le> fd" "fd < 2 ^ 31" "\<not> is_open fd (w_log w1)" and s: "s = InProgress \<or> s = Established"
  shows "wp F (push_connection K p) (\<lambda>_ (e', w'). adopt_inv e w (taken @ [p]) e' w') (e1, w2)"
proof (rule wp_push_connection [OF _ mem room])
  show "con_inv (e_connections e1)" using inv by (simp add: adopt_inv_def)
  fix v assume v: "con_inv v" "con_ptrs v = cons_of e1 @ [p]"
  let ?w3 = "w2\<lparr>w_allocs := w_allocs w2 + 1\<rparr>"
  have at: "w_asocks ?w3 p = Some (a\<lparr>m_sock_desc := fd, m_state := s\<rparr>)" using w2(1) by simp
  then have k: "kept ?w3 p" using s by (auto simp: kept_def)
  have mono: "\<forall>d. is_open d (w_log w) \<longrightarrow> is_open d (w_log w1)" using inv by (simp add: adopt_inv_def)
  have "adopt_inv e w (taken @ [p]) (e1\<lparr>e_connections := v\<rparr>) ?w3"
  proof (rule adopt_step [OF inv p(1-3) _ _ _ _ _ refl v(1)])
    have "adopted w p ?w3" unfolding adopted_def
      using at a(1) s fd(3) mono w2(2) by (intro exI [of _ a] exI [of _ fd] exI [of _ s]) auto
    then show "adopted w p ?w3 \<and> kept ?w3 p \<or> refused w p ?w3 \<and> \<not> kept ?w3 p" using k by simp
    show "con_ok ?w3 p \<and> asock_ok (the (w_asocks ?w3 p)) \<and> \<not> is_open (fd_of ?w3 p) (w_log w1)"
      using at a(2) fd p(4) w2(2) by (simp add: con_ok_def fd_of_def)
  qed (use w2 v k in auto)
  then show "case (e1\<lparr>e_connections := v\<rparr>, ?w3) of (e', w') \<Rightarrow> adopt_inv e w (taken @ [p]) e' w'" by simp
qed

lemma wp_adopt_connection:
  assumes ok: "owner_ok e w" and K: "kernel_ok K" "alloc_grants (k_malloc K)"
    and apart: "set (cons_of e) \<inter> set (news_of e) = {}"
    and k: "k < length (news_of e)" and inv: "adopt_inv e w (take k (news_of e)) e1 w1"
    and peer: "m_peer_addr (the (w_asocks w (news_of e ! k))) \<noteq> None"
  shows "wp F (service_adopt_connection K (of_nat k))
    (\<lambda>_ (e', w'). adopt_inv e w (take (Suc k) (news_of e)) e' w') (e1, w1)"
proof -
  define p where "p = news_of e ! k"
  let ?taken = "take k (news_of e)" and ?post = "\<lambda>_ (e', w'). adopt_inv e w (take (Suc k) (news_of e)) e' w'"
  have tk: "take (Suc k) (news_of e) = ?taken @ [p]" using k by (simp add: p_def take_Suc_conv_app_nth)
  have news: "distinct (news_of e)" "con_inv (e_new_connections e)" "p \<in> set (news_of e)"
    using ok k by (auto simp: owner_ok_good_set p_def)
  then have p: "p \<in> set (news_of e)" "p \<notin> set ?taken" "p \<notin> set (cons_of e)"
    using apart nth_not_in_take [OF _ k] by (auto simp: p_def)
  have "con_ok w p" "asock_ok (the (w_asocks w p))" using ok p(1) by (auto simp: owner_ok_good_set good_set_def)
  then obtain a where a: "p \<noteq> 0" "w_asocks w p = Some a" "asock_ok a" by (auto elim: con_okE)
  have a1: "w_asocks w1 p = Some a" using inv p(2) a(2) by (simp add: adopt_inv_def)
  have at: "wp F (connection_at e_new_connections (of_nat k)) Q (e1, w1) = Q p (e1, w1)" for Q
  proof -
    have "con_inv (e_new_connections e1)" "con_ptrs (e_new_connections e1) = news_of e"
      using inv news(2) by (simp_all add: adopt_inv_def news_of_def)
    with wp_connection_at [of e_new_connections e1 k] k show ?thesis by (simp add: p_def)
  qed
  have small: "owner_inv e w" using ok by (simp add: owner_ok_def)
  have "length (filter (kept w1) ?taken) \<le> length (news_of e)"
    by (rule le_trans [OF length_filter_le]) simp
  then have room: "length (cons_of e1) \<le> 2 ^ 32"
    using inv owner_small [OF small] by (simp add: adopt_inv_def)
  have "wp F (asock_service_try_connect_to_peer K p) (\<lambda>_ s. wp F (bindM (liftW (read_asock p)) (\<lambda>c.
      if m_state c = Failed then liftW (asock_destroy_asock K p)
      else bindM (push_connection K p) (\<lambda>_. returnM ()))) ?post s) (e1, w1)"
  proof (rule wp_mono [OF wp_try_connect [OF K(1) a(1) a1]])
    show "m_peer_addr a \<noteq> None" using peer a(2) by (simp add: p_def)
    fix r s
    assume "case s of (e', w') \<Rightarrow> e' = e1 \<and> connect_outcome w1 p a w'"
    then obtain w2 where s: "s = (e1, w2)" and out: "connect_outcome w1 p a w2" by (cases s) auto
    then obtain fd st where w2: "w_asocks w2 = (w_asocks w1)(p \<mapsto> a\<lparr>m_sock_desc := fd, m_state := st\<rparr>)"
      and fate: "if fd = - 1 then st = Failed \<and> (\<forall>d. is_open d (w_log w2) = is_open d (w_log w1))
        else (st = InProgress \<or> st = Established) \<and> 0 \<le> fd \<and> fd < 2 ^ 31 \<and> \<not> is_open fd (w_log w1)
           \<and> (\<forall>d. is_open d (w_log w2) = (d = fd \<or> is_open d (w_log w1)))"
      and snt: "\<forall>d. traffic d (w_log w2) = traffic d (w_log w1)"
      unfolding connect_outcome_def by blast
    have at2: "w_asocks w2 p = Some (a\<lparr>m_sock_desc := fd, m_state := st\<rparr>)" using w2 by simp
    show "wp F (bindM (liftW (read_asock p)) (\<lambda>c.
        if m_state c = Failed then liftW (asock_destroy_asock K p)
        else bindM (push_connection K p) (\<lambda>_. returnM ()))) ?post s"
    proof (cases "fd = - 1")
      case True
      with adopt_finish_failed [OF inv p a(1,2), of w2] w2 fate snt tk show ?thesis
        by (simp add: s wp_bind wp_liftW wp_read_asock [OF a(1) at2])
    next
      case False
      with adopt_finish_kept [OF inv K(2) p a room w2, of F] fate snt tk show ?thesis
        by (auto simp: s wp_bind wp_liftW wp_return_fun wp_read_asock [OF a(1) at2])
    qed
  qed
  note connected = this
  show ?thesis
    unfolding service_adopt_connection_def wp_bind at wp_then by (rule connected [unfolded wp_bind])
qed

text \<open>All of them, under the mutex.\<close>

definition adoption ::
    "asock_service \<Rightarrow> world \<Rightarrow> asock_service \<Rightarrow> world \<Rightarrow> bool" where
  "adoption e w e' w' \<longleftrightarrow>
     owner_ok e' w' \<and> same_but_tables e e' \<and> news_of e' = []
     \<and> cons_of e' = cons_of e @ filter (kept w') (news_of e)
     \<and> (\<forall>q. q \<notin> set (news_of e) \<longrightarrow> w_asocks w' q = w_asocks w q)
     \<and> (\<forall>q \<in> set (news_of e). if kept w' q then adopted w q w' else refused w q w')
     \<and> (\<forall>fd. is_open fd (w_log w) \<longrightarrow> is_open fd (w_log w'))
     \<and> (\<forall>fd. traffic fd (w_log w') = traffic fd (w_log w))"

lemma adopt_inv_end:
  assumes ok: "owner_ok e w" and apart: "set (cons_of e) \<inter> set (news_of e) = {}"
    and inv: "adopt_inv e w (news_of e) e1 w1"
  shows "adoption e w (e1\<lparr>e_new_connections := asock_vector_clear (e_new_connections e1),
    e_new_connections_mutex := False\<rparr>) w1" (is "adoption e w ?e2 w1")
proof -
  have v: "con_inv (e_new_connections e1)" using inv ok by (simp add: adopt_inv_def owner_ok_good_set)
  then have clear: "con_inv (asock_vector_clear (e_new_connections e1))"
      "con_ptrs (asock_vector_clear (e_new_connections e1)) = []"
    by (simp_all add: con_inv_def con_ptrs_def asock_vector_clear_spec, simp add: asock_vector_clear_def)
  have m: "\<not> e_new_connections_mutex e" using ok by (simp add: owner_ok_good_set)
  have cs: "cons_of ?e2 = cons_of e @ filter (kept w1) (news_of e)" "news_of ?e2 = []"
    using inv clear by (simp_all add: adopt_inv_def cons_of_def news_of_def)
  have "set (cons_of ?e2) \<union> set (news_of ?e2) =
      set (cons_of e) \<union> {q \<in> set (news_of e). q \<notin> set (news_of e) \<or> kept w1 q}"
    by (auto simp: cs)
  then have g: "good_set w1 (set (cons_of ?e2) \<union> set (news_of ?e2))" using inv by (simp only: adopt_inv_def)
  have d: "distinct (cons_of ?e2)" "distinct (news_of ?e2)"
    using ok apart unfolding cs by (auto simp: owner_ok_good_set)
  have "owner_ok ?e2 w1" unfolding owner_ok_good_set
    using g d clear(1) inv by (simp add: adopt_inv_def)
  moreover have "same_but_tables e ?e2" using inv m by (simp add: adopt_inv_def same_but_tables_def)
  moreover have "\<forall>q \<in> set (news_of e). if kept w1 q then adopted w q w1 else refused w q w1"
    using inv by (auto simp: adopt_inv_def)
  ultimately show ?thesis using cs inv unfolding adoption_def adopt_inv_def by blast
qed

lemma wp_adopt_new_connections:
  assumes ok: "owner_ok e w" and K: "kernel_ok K" "alloc_grants (k_malloc K)"
    and apart: "set (cons_of e) \<inter> set (news_of e) = {}"
    and peer: "\<forall>p \<in> set (news_of e). m_peer_addr (the (w_asocks w p)) \<noteq> None"
  shows "wp F (service_adopt_new_connections K) (\<lambda>_ (e', w'). adoption e w e' w') (e, w)"
proof -
  let ?e0 = "e\<lparr>e_new_connections_mutex := True\<rparr>" and ?n = "length (news_of e)"
  have m: "\<not> e_new_connections_mutex e" and v: "con_inv (e_new_connections e)"
    using ok by (simp_all add: owner_ok_good_set)
  have sz: "unat (asock_connections_size (e_new_connections e)) = ?n"
    using v by (simp add: cons.count_law news_of_def)
  have "adopt_inv e w [] ?e0 w"
    using ok unfolding adopt_inv_def owner_ok_good_set same_but_tables_def cons_of_def by simp
  moreover have "wp F (service_adopt_connection K (of_nat k))
      (\<lambda>_ s. case s of (e', w') \<Rightarrow> adopt_inv e w (take (length (ks @ [k])) (news_of e)) e' w') s"
    if "[0..<?n] = ks @ k # todo" "case s of (e', w') \<Rightarrow> adopt_inv e w (take (length ks) (news_of e)) e' w'" for ks k todo s
  proof -
    have "[0..<?n] ! length ks = k" "length ks < ?n" using that(1) by (simp, metis length_upt length_append
        add_lessD1 diff_zero length_Cons less_add_Suc1 add.commute less_Suc_eq_le le_add1 add_Suc_right)
    then have k: "k < ?n" "length ks = k" by simp_all
    with that(2) wp_adopt_connection [OF ok K apart k(1)] peer nth_mem [OF k(1)] show ?thesis
      by (cases s) simp
  qed
  ultimately have "wp F (foreachM (\<lambda>i. service_adopt_connection K (of_nat i)) [0..<?n])
    (\<lambda>_ s. case s of (e', w') \<Rightarrow> adopt_inv e w (take (length [0..<?n]) (news_of e)) e' w') (?e0, w)"
    by (intro wp_foreachM [where I = "\<lambda>ks s. case s of (e', w') \<Rightarrow> adopt_inv e w (take (length ks) (news_of e)) e' w'"]) auto
  then have "wp F (foreachM (\<lambda>i. service_adopt_connection K (of_nat i)) [0..<?n])
    (\<lambda>_. wp F (thenM (updateE (\<lambda>e. e\<lparr>e_new_connections := asock_vector_clear (e_new_connections e)\<rparr>))
       unlock_new) (\<lambda>_ (e', w'). adoption e w e' w')) (?e0, w)"
    by (rule wp_mono) (use adopt_inv_end [OF ok apart] in \<open>auto simp: wp_simps\<close>)
  then show ?thesis using m sz by (simp add: service_adopt_new_connections_def wp_simps)
qed

text \<open>C7. At the start of a round the service takes over all of the new connections, in order and under
  the mutex: each has got a socket with a descriptor that was not in use, is established or in
  progress and is at the end of the table, or has failed and lost the service's reference. The
  table of new connections is empty afterwards, both tables are well-formed with open descriptors
  that no two connections share, the mutex is free, no other object was touched and no descriptor
  was lost.\<close>

theorem new_connections_are_taken_over:
  assumes "owner_ok e w" "kernel_ok K" "alloc_grants (k_malloc K)"
    and "set (cons_of e) \<inter> set (news_of e) = {}"
    and "\<forall>p \<in> set (news_of e). m_peer_addr (the (w_asocks w p)) \<noteq> None"
  shows "\<exists>e' w'. service_adopt_new_connections K (e, w) = Inr ((), (e', w')) \<and> owner_ok e' w'
    \<and> same_but_tables e e' \<and> news_of e' = []
    \<and> cons_of e' = cons_of e @ filter (kept w') (news_of e)
    \<and> (\<forall>q. q \<notin> set (news_of e) \<longrightarrow> w_asocks w' q = w_asocks w q)
    \<and> (\<forall>q \<in> set (news_of e). if kept w' q then adopted w q w' else refused w q w')
    \<and> (\<forall>fd. is_open fd (w_log w) \<longrightarrow> is_open fd (w_log w'))"
proof -
  obtain r e' w' where "service_adopt_new_connections K (e, w) = Inr (r, (e', w'))" "adoption e w e' w'"
    using wp_adopt_new_connections [OF assms, of no_fault] by (auto dest!: wp_no_faultD)
  then show ?thesis unfolding adoption_def by simp
qed

text \<open>The sample connections before they are connected.\<close>

definition waiting_owner :: endpoint where
  "waiting_owner = sample_owner\<lparr>e_connections := sample_table\<lparr>v_size := 0\<rparr>, e_new_connections := sample_table\<rparr>"

definition waiting_con :: "int \<Rightarrow> 64 word \<Rightarrow> asock" where
  "waiting_con fd n = (sample_con fd n 2 False)\<lparr>m_state := InProgress, m_peer_addr := Some (replicate 16 0),
     m_peer_addrlen := 16\<rparr>"

definition waiting_world :: world where
  "waiting_world = (sample_world 2 False)\<lparr>w_asocks := [4096 \<mapsto> waiting_con 6 0, 8192 \<mapsto> waiting_con 7 1]\<rparr>"

lemma waiting_tables [simp]: "cons_of waiting_owner = []" "news_of waiting_owner = [4096, 8192]"
  using sample_tables by (simp_all add: cons_of_def news_of_def waiting_owner_def sample_owner_def)

lemma waiting_objects [simp]:
  "w_asocks waiting_world 4096 = Some (waiting_con 6 0)" "w_asocks waiting_world 8192 = Some (waiting_con 7 1)"
  "m_peer_addr (waiting_con fd n) = Some (replicate 16 0)" "m_sock_desc (waiting_con fd n) = fd"
  "is_open 6 (w_log waiting_world)" "is_open 7 (w_log waiting_world)"
  by (simp_all add: waiting_world_def waiting_con_def sample_world_def)

lemma waiting_owner_ok [simp]: "owner_ok waiting_owner waiting_world"
proof -
  have v: "con_inv (sample_table\<lparr>v_size := 0\<rparr>)" "con_inv sample_table"
    using sample_owner_ok(2) [of 2 False] by (simp_all add: owner_inv_def sample_owner_def)
  then have "owner_inv waiting_owner waiting_world"
    unfolding owner_inv_def by (simp add: con_ok_def fd_of_def) (simp add: waiting_owner_def sample_owner_def)
  then show ?thesis
    using sample_con_ok [of 2 6 0 False] sample_con_ok [of 2 7 1 False]
    by (simp add: owner_ok_def asock_ok_def waiting_con_def)
qed

theorem new_connections_are_taken_over_witness:
  "\<exists>e' w'. service_adopt_new_connections calm_kernel (waiting_owner, waiting_world) = Inr ((), (e', w'))
    \<and> owner_ok e' w' \<and> news_of e' = [] \<and> is_open 6 (w_log w') \<and> is_open 7 (w_log w')"
proof -
  have "alloc_grants (k_malloc calm_kernel)" by (simp add: calm_kernel_def)
  then show ?thesis
    using new_connections_are_taken_over [of waiting_owner waiting_world calm_kernel] by fastforce
qed

text \<open>C34. Connecting loses a descriptor: the one that \<open>asock_create\<close> opened for the object, with the
  domain, the type and the local address the application chose, is replaced by that of a new
  socket, or by -1 when the attempt fails, and stays open although the object no longer
  refers to it.\<close>

theorem connecting_leaks_descriptor:
  assumes "kernel_ok K" "con_ok w p" "w_asocks w p = Some a" "m_peer_addr a \<noteq> None"
  shows "\<exists>w' b. asock_service_try_connect_to_peer K p (e, w) = Inr ((), (e, w'))
    \<and> w_asocks w' = (w_asocks w)(p \<mapsto> b) \<and> m_sock_desc b \<noteq> m_sock_desc a
    \<and> (m_sock_desc b = - 1 \<longleftrightarrow> m_state b = Failed) \<and> is_open (m_sock_desc a) (w_log w')"
proof -
  have p: "p \<noteq> 0" "0 \<le> m_sock_desc a" "is_open (m_sock_desc a) (w_log w)"
    using assms(2,3) by (auto elim: con_okE)
  obtain w' where run: "asock_service_try_connect_to_peer K p (e, w) = Inr ((), (e, w'))" "connect_outcome w p a w'"
    using wp_no_faultD [OF wp_try_connect [OF assms(1) p(1) assms(3,4), where e = e]] by auto
  then obtain fd s where b: "w_asocks w' = (w_asocks w)(p \<mapsto> a\<lparr>m_sock_desc := fd, m_state := s\<rparr>)"
    and fate: "if fd = - 1 then s = Failed \<and> (\<forall>d. is_open d (w_log w') = is_open d (w_log w))
         else (s = InProgress \<or> s = Established) \<and> 0 \<le> fd \<and> fd < 2 ^ 31 \<and> \<not> is_open fd (w_log w)
            \<and> (\<forall>d. is_open d (w_log w') = (d = fd \<or> is_open d (w_log w)))"
    unfolding connect_outcome_def by blast
  show ?thesis
    using run b fate p by (intro exI [of _ w'] exI [of _ "a\<lparr>m_sock_desc := fd, m_state := s\<rparr>"]) (auto split: if_splits)
qed

theorem connecting_leaks_descriptor_witness:
  "\<exists>w' b. asock_service_try_connect_to_peer calm_kernel 4096 (waiting_owner, waiting_world)
      = Inr ((), (waiting_owner, w')) \<and> w_asocks w' 4096 = Some b \<and> m_sock_desc b \<noteq> 6 \<and> is_open 6 (w_log w')"
proof -
  have "con_ok waiting_world 4096" by (simp add: con_ok_def)
  with connecting_leaks_descriptor [OF calm_kernel_ok, of waiting_world 4096 "waiting_con 6 0" waiting_owner]
  show ?thesis by force
qed

end
