(* ===== verification/Asock_Rounds.thy ===== *)
theory Asock_Rounds
  imports Asock_Service_Facts
begin

text \<open>
  One round of an owner's main loop, from the new connections to the last event: the owner stays
  well-formed and the round comes to its end. Shared by services and servers as far as the code is.
\<close>

section \<open>Progress of an owner\<close>

text \<open>The number of bytes received and not yet read by the application.\<close>

definition waiting :: "world \<Rightarrow> ptr \<Rightarrow> nat" where
  "waiting w p = length (queue_data (m_in_queue (the (w_asocks w p))))"

text \<open>What a step does to the data of a connection: on its descriptor, the bytes the kernel took
  followed by those still queued are the same; the bytes it delivered, at most \<open>n\<close>, were appended to
  those received.\<close>

definition carried :: "kernel \<Rightarrow> nat \<Rightarrow> world \<Rightarrow> ptr \<Rightarrow> world \<Rightarrow> bool" where
  "carried K n w p w' \<longleftrightarrow>
     fd_of w' p = fd_of w p \<and> stream w' p = stream w p
     \<and> m_ref_counter (the (w_asocks w' p)) = m_ref_counter (the (w_asocks w p))
     \<and> (\<exists>bs. length bs \<le> n
          \<and> queue_data (m_in_queue (the (w_asocks w' p))) = queue_data (m_in_queue (the (w_asocks w p))) @ bs
          \<and> got K (fd_of w p) (w_log w') = got K (fd_of w p) (w_log w) @ bs)"

lemma carriedI:
  assumes "map_option m_sock_desc (w_asocks w' p) = map_option m_sock_desc (w_asocks w p)" "w_asocks w p \<noteq> None"
    and "map_option m_out_queue (w_asocks w' p) = map_option m_out_queue (w_asocks w p)"
    and "map_option m_ref_counter (w_asocks w' p) = map_option m_ref_counter (w_asocks w p)"
    and "map_option m_in_queue (w_asocks w' p) = map_option m_in_queue (w_asocks w p)"
    and "sent (fd_of w p) (w_log w') = sent (fd_of w p) (w_log w)" "got K (fd_of w p) (w_log w') = got K (fd_of w p) (w_log w)"
  shows "carried K n w p w'"
  using assms by (auto simp: carried_def stream_def fd_of_def)

lemma carried_refl [simp]: "carried K n w p w"
  by (simp add: carried_def)

lemma carried_trans:
  assumes "carried K n w p w1" "carried K m w1 p w2"
  shows "carried K (n + m) w p w2"
proof -
  obtain bs cs where "length bs \<le> n" "length cs \<le> m"
    "queue_data (m_in_queue (the (w_asocks w1 p))) = queue_data (m_in_queue (the (w_asocks w p))) @ bs"
    "queue_data (m_in_queue (the (w_asocks w2 p))) = queue_data (m_in_queue (the (w_asocks w1 p))) @ cs"
    "got K (fd_of w p) (w_log w1) = got K (fd_of w p) (w_log w) @ bs"
    "got K (fd_of w1 p) (w_log w2) = got K (fd_of w1 p) (w_log w1) @ cs"
    using assms unfolding carried_def by blast
  then show ?thesis using assms unfolding carried_def by (auto intro!: exI [of _ "bs @ cs"])
qed

lemma carried_mono: "carried K n w p w' \<Longrightarrow> n \<le> m \<Longrightarrow> carried K m w p w'"
  unfolding carried_def by (metis le_trans)

lemma carried_waiting: "carried K n w p w' \<Longrightarrow> waiting w' p \<le> waiting w p + n"
  by (auto simp: carried_def waiting_def)

text \<open>A step of an owner: connections may have left the tables; those that stay carry their data over;
  no other object is touched, and an object the application refers to is not freed.\<close>

definition progress :: "kernel \<Rightarrow> 'a endpoint_scheme \<Rightarrow> world \<Rightarrow> nat \<Rightarrow> 'a endpoint_scheme \<Rightarrow> world \<Rightarrow> bool" where
  "progress K e w n e' w' \<longleftrightarrow>
     owner_ok e' w' \<and> same_but_tables e e' \<and> set (cons_of e') \<subseteq> set (cons_of e)
     \<and> set (news_of e') \<subseteq> set (news_of e)
     \<and> (set (news_of e) \<subseteq> set (cons_of e) \<longrightarrow> set (news_of e') \<subseteq> set (cons_of e'))
     \<and> (\<forall>p \<in> set (cons_of e'). carried K n w p w')
     \<and> (\<forall>p. p \<notin> set (cons_of e) \<longrightarrow> w_asocks w' p = w_asocks w p)
     \<and> (\<forall>p \<in> set (cons_of e). m_ref_counter (the (w_asocks w p)) \<noteq> 1 \<longrightarrow> lasts w p w')"

lemma owner_live: "owner_ok e w \<Longrightarrow> p \<in> set (cons_of e) \<Longrightarrow> w_asocks w p \<noteq> None"
  by (auto simp: owner_ok_def owner_inv_def con_ok_def)

lemma progress_refl: "owner_ok e w \<Longrightarrow> progress K e w n e w"
  by (simp add: progress_def owner_lasts)

lemma progress_trans:
  assumes "progress K e w n e1 w1" "progress K e1 w1 m e2 w2"
  shows "progress K e w (n + m) e2 w2"
proof -
  have sub: "set (cons_of e1) \<subseteq> set (cons_of e)" "set (cons_of e2) \<subseteq> set (cons_of e1)"
    using assms by (simp_all add: progress_def)
  have "carried K (n + m) w p w2" if "p \<in> set (cons_of e2)" for p
    using that assms sub(2) carried_trans unfolding progress_def by blast
  moreover have "w_asocks w2 p = w_asocks w p" if "p \<notin> set (cons_of e)" for p
    using that assms sub(1) unfolding progress_def by (metis subsetD)
  moreover have "lasts w p w2" if "p \<in> set (cons_of e)" "m_ref_counter (the (w_asocks w p)) \<noteq> 1" for p
  proof (cases "p \<in> set (cons_of e1)")
    case True
    then have "m_ref_counter (the (w_asocks w1 p)) \<noteq> 1" using assms(1) that(2) by (simp add: progress_def carried_def)
    with True assms that show ?thesis by (auto simp: progress_def intro: lasts_trans)
  next
    case False
    then show ?thesis using assms that by (simp add: progress_def lasts_def)
  qed
  moreover have "same_but_tables e e2" "set (news_of e2) \<subseteq> set (news_of e)"
    "set (news_of e) \<subseteq> set (cons_of e) \<longrightarrow> set (news_of e2) \<subseteq> set (cons_of e2)" "owner_ok e2 w2"
    using assms by (auto simp: progress_def intro: same_but_tables_trans)
  ultimately show ?thesis using sub by (auto simp only: progress_def)
qed

lemma progress_mono: "progress K e w n e' w' \<Longrightarrow> n \<le> m \<Longrightarrow> progress K e w m e' w'"
  by (auto simp: progress_def intro: carried_mono)

text \<open>A step that leaves the tables alone and changes at most one connection of them.\<close>

lemma progress_same_tables:
  assumes "owner_ok e w" "owner_ok e w'" "p \<in> set (cons_of e)" "carried K n w p w'"
    and "\<And>q. q \<noteq> p \<Longrightarrow> w_asocks w' q = w_asocks w q"
    and log: "\<And>d. d \<noteq> fd_of w p \<Longrightarrow> sent d (w_log w') = sent d (w_log w) \<and> got K d (w_log w') = got K d (w_log w)"
    and "map_option m_out_queue (w_asocks w' p) = map_option m_out_queue (w_asocks w p)"
  shows "progress K e w n e w'"
proof -
  have "carried K n w q w'" if q: "q \<in> set (cons_of e)" for q
  proof (cases "q = p")
    case False
    then have "fd_of w q \<noteq> fd_of w p"
      using assms(1,3) q by (auto simp: owner_ok_def owner_inv_def inj_on_def)
    with log assms(5) [OF False] owner_live [OF assms(1) q] show ?thesis by (intro carriedI) simp_all
  qed (use assms(4) in simp)
  moreover have "w_asocks w' q = w_asocks w q" if "q \<notin> set (cons_of e)" for q
    using assms(3,5) that by metis
  moreover have "lasts w q w'" if q: "q \<in> set (cons_of e)" for q
  proof (cases "q = p")
    case True
    with owner_lasts [OF assms(2) q] owner_live [OF assms(1) q] assms(7) show ?thesis by (auto simp: lasts_def)
  next
    case False
    with owner_lasts [OF assms(1) q] assms(5) show ?thesis by (simp add: lasts_def)
  qed
  ultimately show ?thesis using assms(2) by (simp add: progress_def)
qed

lemma wp_progress_then:
  assumes "wp F m (\<lambda>_ (e', w'). progress K e w n e' w') (e, w)"
    and "\<And>x e' w'. progress K e w n e' w' \<Longrightarrow> wp F (f x) (\<lambda>_ (e2, w2). progress K e' w' k e2 w2) (e', w')"
  shows "wp F (bindM m f) (\<lambda>_ (e2, w2). progress K e w (n + k) e2 w2) (e, w)"
  unfolding wp_bind
proof (rule wp_mono [OF assms(1)])
  fix x s assume "case s of (e', w') \<Rightarrow> progress K e w n e' w'"
  then obtain e' w' where s: "s = (e', w')" and p: "progress K e w n e' w'" by (cases s) auto
  show "wp F (f x) (\<lambda>_ (e2, w2). progress K e w (n + k) e2 w2) s"
    unfolding s by (rule wp_mono [OF assms(2) [OF p]]) (use progress_trans [OF p] in auto)
qed

text \<open>Steps that only write to the log or to other fields of the objects.\<close>

lemma progress_log_at:
  assumes ok: "owner_ok e w" and "\<And>fd. is_open fd l = is_open fd (w_log w)"
    and log: "\<And>p. p \<in> set (cons_of e) \<Longrightarrow> sent (fd_of w p) l = sent (fd_of w p) (w_log w)
      \<and> got K (fd_of w p) l = got K (fd_of w p) (w_log w)"
  shows "progress K e w 0 e (w\<lparr>w_log := l\<rparr>)"
proof -
  have "owner_inv e (w\<lparr>w_log := l\<rparr>)"
    by (rule same_descs_inv [of w]) (use assms(2) ok in \<open>auto simp: same_descs_def owner_ok_def\<close>)
  then have "owner_ok e (w\<lparr>w_log := l\<rparr>)" using ok by (simp add: owner_ok_def)
  moreover have "carried K 0 w p (w\<lparr>w_log := l\<rparr>)" if "p \<in> set (cons_of e)" for p
    using owner_live [OF ok that] log [OF that] by (intro carriedI) simp_all
  moreover have "lasts w p (w\<lparr>w_log := l\<rparr>)" if "p \<in> set (cons_of e)" for p
    using owner_lasts [OF ok that] by (simp add: lasts_def)
  ultimately show ?thesis by (simp add: progress_def)
qed

lemma progress_log: "owner_ok e w \<Longrightarrow> quiet (w_log w) l \<Longrightarrow> progress K e w 0 e (w\<lparr>w_log := l\<rparr>)"
  by (rule progress_log_at) (auto simp: quiet_def dest: trafficD)

lemma closed_progress:
  assumes ok: "owner_ok e w" and p: "p \<in> set (cons_of e)"
    and e': "owner_inv e' (closed_world K w p)" "cons_of e' = filter (\<lambda>q. q \<noteq> p) (cons_of e)"
      "news_of e' = filter (\<lambda>q. q \<noteq> p) (news_of e)" "same_but_tables e e'"
  shows "progress K e w 0 e' (closed_world K w p)"
proof -
  have same: "w_asocks (closed_world K w p) q = w_asocks w q" if "q \<noteq> p" for q using that by (rule closed_world_keeps)
  have "owner_ok e' (closed_world K w p)" using ok e' same by (auto simp: owner_ok_def)
  moreover have "carried K 0 w q (closed_world K w p)" if "q \<in> set (cons_of e')" for q
  proof -
    have "q \<noteq> p" "q \<in> set (cons_of e)" using that e'(2) by auto
    then show ?thesis using owner_live [OF ok] same by (intro carriedI) (simp_all add: trafficD [OF closed_world_frame(3)])
  qed
  moreover have "lasts w q (closed_world K w p)"
    if "q \<in> set (cons_of e)" "m_ref_counter (the (w_asocks w q)) \<noteq> 1" for q
  proof (cases "q = p")
    case True
    obtain a where a: "w_asocks w p = Some a" "asock_ok a" using owner_lasts [OF ok p] by (auto simp: lasts_def)
    with that True asock_ok_released [OF a(2)] show ?thesis by (simp add: closed_world_def Let_def lasts_def)
  next
    case False
    with owner_lasts [OF ok that(1)] same show ?thesis by (simp add: lasts_def)
  qed
  moreover have "w_asocks (closed_world K w p) q = w_asocks w q" if "q \<notin> set (cons_of e)" for q
    using p same that by metis
  ultimately show ?thesis using e' by (auto simp: progress_def)
qed

text \<open>Closing works for any descriptor the kernel may report.\<close>

lemma wp_close_any:
  assumes ok: "owner_ok e w" and fd: "0 \<le> fd"
  shows "wp F (asock_service_close_connection K fd) (\<lambda>_ (e', w'). progress K e w 0 e' w') (e, w)"
proof (cases "\<exists>p \<in> set (cons_of e). fd_of w p = fd")
  case True
  then obtain p where p: "p \<in> set (cons_of e)" "fd_of w p = fd" by blast
  have inv: "owner_inv e w" using ok by (simp add: owner_ok_def)
  show ?thesis by (rule wp_close_connection [OF inv p]) (use closed_progress [OF ok p(1)] in auto)
next
  case False
  have inv: "owner_inv e w" using ok by (simp add: owner_ok_def)
  show ?thesis
  proof (rule wp_close_absent [OF inv fd])
    fix e' assume "owner_inv e' w" "cons_of e' = cons_of e"
      "news_of e' = filter (\<lambda>q. fd_of w q \<noteq> fd) (news_of e)" "same_but_tables e e'"
    then show "case (e', w) of (e', w') \<Rightarrow> progress K e w 0 e' w'"
      using ok owner_lasts [OF ok] by (auto simp: progress_def owner_ok_def)
  qed (use False in auto)
qed

section \<open>Reading\<close>

lemma incoming_bound:
  assumes "kernel_ok K"
  shows "incoming fuel K fd l = Some (bs, b) \<Longrightarrow> length bs \<le> fuel * BUF_SIZE"
proof (induction fuel arbitrary: l bs)
  case (Suc fuel)
  show ?case
  proof (cases "k_ret K l (Read fd BUF_SIZE)")
    case (Ret c)
    have "length (k_data K l fd) \<le> BUF_SIZE" using kernel_okD(3) [OF assms Ret] by linarith
    with Ret Suc show ?thesis by (fastforce split: if_splits)
  qed (use Suc.prems in auto)
qed simp

lemma received_progress:
  assumes ok: "owner_ok e w" and p: "p \<in> set (cons_of e)" "w_asocks w p = Some a"
    and r: "received e w K p a bs goes_on e' w'" and n: "length bs \<le> n"
  shows "progress K e w n e' w'"
proof -
  obtain q w1 where q: "byte_queue_ok q" "queue_data q = queue_data (m_in_queue a) @ bs"
      "w_asocks w1 = (w_asocks w)(p \<mapsto> a\<lparr>m_in_queue := q\<rparr>)" "reading K (m_sock_desc a) bs (w_log w) (w_log w1)"
    and res: "if goes_on then e' = e \<and> w' = w1
           else cons_of e' = filter (\<lambda>q. q \<noteq> p) (cons_of e) \<and> news_of e' = filter (\<lambda>q. q \<noteq> p) (news_of e)
             \<and> same_but_tables e e' \<and> owner_inv e' w' \<and> w' = closed_world K w1 p"
    using r unfolding received_def by blast
  have a_ok: "asock_ok a" using owner_okD [OF ok p] .
  have ok1: "owner_ok e w1"
    by (rule owner_ok_same_descs [OF ok, of _ p])
      (use q a_ok p(2) in \<open>auto simp: same_descs_def reading_def asock_ok_def\<close>)
  have "carried K n w p w1"
    using q(2-4) p(2) n by (auto simp: carried_def stream_def fd_of_def reading_def)
  then have "progress K e w n e w1"
    using q(3,4) by (intro progress_same_tables [OF ok ok1 p(1)]) (simp_all add: reading_def fd_of_def p(2))
  moreover have "progress K e w1 0 e' w'" if "\<not> goes_on"
  proof -
    have r: "cons_of e' = filter (\<lambda>q. q \<noteq> p) (cons_of e)" "news_of e' = filter (\<lambda>q. q \<noteq> p) (news_of e)"
      "same_but_tables e e'" "owner_inv e' (closed_world K w1 p)" "w' = closed_world K w1 p"
      using res that by auto
    show ?thesis unfolding r(5) by (rule closed_progress [OF ok1 p(1) r(4,1,2,3)])
  qed
  ultimately show ?thesis using res progress_trans [of K e w n e w1 0] by (cases goes_on) auto
qed

text \<open>A readable descriptor that belongs to no connection is drained all the same, and the bytes are
  dropped.\<close>

lemma wp_read_all_unowned:
  assumes ok: "owner_ok e w" and fd: "0 \<le> fd" "\<forall>p \<in> set (cons_of e). fd_of w p \<noteq> fd"
    and inc: "incoming fuel K fd (w_log w) \<noteq> None"
  shows "wp F (read_all_data fuel K fd) (\<lambda>_ (e', w'). progress K e w 0 e' w') (e, w)"
  using assms
proof (induction fuel arbitrary: w)
  case (Suc fuel)
  let ?c = "Read fd BUF_SIZE"
  let ?w1 = "\<lambda>r. w\<lparr>w_log := (?c, r) # w_log w\<rparr>"
  have log: "progress K e w 0 e (?w1 r)" for r
    by (rule progress_log_at [OF Suc.prems(1)]) (use Suc.prems(3) in \<open>cases r; auto\<close>)+
  then have ok1: "owner_ok e (?w1 r)" for r by (simp add: progress_def)
  have close: "wp F (asock_service_close_connection K fd) (\<lambda>_ (e', w'). progress K e w 0 e' w') (e, ?w1 r)" for r
    by (rule wp_mono [OF wp_close_any [OF ok1 fd(1)]]) (use progress_trans [OF log [of r]] in fastforce)
  show ?case
  proof (cases "k_ret K (w_log w) ?c")
    case (Err errno)
    with close [of "Err errno"] log [of "Err errno"] show ?thesis by (auto simp: wp_simps)
  next
    case (Ret c)
    show ?thesis
    proof (cases "c = 0")
      case True
      with Ret close [of "Ret c"] show ?thesis by (simp add: wp_simps)
    next
      case False
      have inv1: "owner_inv e (?w1 r)" for r using ok1 by (simp add: owner_ok_def)
      have none: "first_index (\<lambda>p. fd_of (?w1 r) p = fd) (cons_of e) = None" for r
        using Suc.prems(3) by (simp add: first_index_None fd_of_def)
      have "incoming fuel K fd ((?c, Ret c) # w_log w) \<noteq> None" using Suc.prems(4) Ret False by auto
      then have "wp F (read_all_data fuel K fd) (\<lambda>_ (e', w'). progress K (e) (?w1 (Ret c)) 0 e' w') (e, ?w1 (Ret c))"
        using Suc.IH [of "?w1 (Ret c)"] ok1 Suc.prems(2,3) by (simp add: fd_of_def)
      then have "wp F (read_all_data fuel K fd) (\<lambda>_ (e', w'). progress K e w 0 e' w') (e, ?w1 (Ret c))"
        by (rule wp_mono) (use progress_trans [OF log [of "Ret c"]] in fastforce)
      with Ret False none show ?thesis by (simp add: wp_simps wp_index_by_sock_desc [OF inv1])
    qed
  qed
qed simp

lemma wp_read_any:
  assumes K: "kernel_ok K" "alloc_grants (k_malloc K)" and ok: "owner_ok e w" and fd: "0 \<le> fd"
    and inc: "incoming fuel K fd (w_log w) \<noteq> None"
    and room: "\<forall>p \<in> set (cons_of e). waiting w p + fuel * BUF_SIZE \<le> 2 ^ 62"
  shows "wp no_fault (read_all_data fuel K fd) (\<lambda>_ (e', w'). progress K e w (fuel * BUF_SIZE) e' w') (e, w)"
proof (cases "\<exists>p \<in> set (cons_of e). fd_of w p = fd")
  case True
  then obtain p where p: "p \<in> set (cons_of e)" "fd_of w p = fd" by blast
  have inv: "owner_inv e w" using ok by (simp add: owner_ok_def)
  then have "con_ok w p" using p(1) by (simp add: owner_inv_def)
  then obtain a where a: "w_asocks w p = Some a" "m_sock_desc a = fd" using p(2) by (auto elim: con_okE)
  have q: "byte_queue_ok (m_in_queue a)" using owner_okD [OF ok p(1) a(1)] by (simp add: asock_ok_def)
  obtain bs b where bs: "incoming fuel K fd (w_log w) = Some (bs, b)" using inc by auto
  note len = incoming_bound [OF K(1) bs]
  have "waiting w p = length (queue_data (m_in_queue a))" using a by (simp add: waiting_def)
  then have "length (queue_data (m_in_queue a)) + length bs \<le> 2 ^ 62" using room p(1) len by fastforce
  with wp_read_all_data [OF K inv p(1) a(1) q, of fuel bs b] bs a(2)
  have "wp no_fault (read_all_data fuel K fd) (\<lambda>_ (e', w'). received e w K p a bs b e' w') (e, w)" by simp
  then show ?thesis by (rule wp_mono) (use received_progress [OF ok p(1) a(1) _ len] in auto)
next
  case False
  then have "wp no_fault (read_all_data fuel K fd) (\<lambda>_ (e', w'). progress K e w 0 e' w') (e, w)"
    by (intro wp_read_all_unowned [OF ok fd _ inc]) auto
  then show ?thesis by (rule wp_mono) (auto elim: progress_mono)
qed

section \<open>The passes over the table\<close>

lemma wp_send_pass:
  assumes "owner_ok e w" "kernel_ok K" "\<forall>p \<in> set (cons_of e). m_ref_counter (the (w_asocks w p)) \<noteq> 1"
  shows "wp no_fault (asock_service_send_unsent_data K) (\<lambda>_ (e', w'). progress K e w 0 e' w') (e, w)"
proof (rule wp_mono [OF wp_send_unsent_data [OF assms(1,2)]])
  fix x s assume "case s of (e', w') \<Rightarrow> pass_inv e w 0 e' w'"
  then show "case s of (e', w') \<Rightarrow> progress K e w 0 e' w'"
    by (auto simp: pass_inv_def progress_def carried_def subset_iff)
qed (use assms(3) in fastforce)

lemma wp_close_pass:
  assumes "owner_ok e w" "set (news_of e) \<subseteq> set (cons_of e)"
  shows "wp F (asock_service_check_for_connections_to_close K) (\<lambda>_ (e', w'). progress K e w 0 e' w') (e, w)"
proof -
  have inv: "owner_inv e w" using assms by (simp add: owner_ok_def)
  show ?thesis
  proof (rule wp_mono [OF wp_check_for_connections_to_close [OF inv]])
    fix x s assume "case s of (e', w') \<Rightarrow> close_pass_inv e w 0 e' w'"
    then obtain e' w' where s: "s = (e', w')" and c: "close_pass_inv e w 0 e' w'" by (cases s) auto
    have same: "w_asocks w' p = w_asocks w p" if "p \<in> set (cons_of e')" for p
      using c that by (auto simp: close_pass_inv_def untouched_def)
    have "owner_ok e' w'"
      using c assms same by (auto simp: close_pass_inv_def owner_ok_def)
    moreover have "carried K 0 w p w'" if "p \<in> set (cons_of e')" for p
      using c that same [OF that] owner_live [OF assms(1), of p]
      by (intro carriedI) (auto simp: close_pass_inv_def dest!: spec [of _ "fd_of w p"] dest: trafficD)
    moreover have "lasts w p w'" if pq: "p \<in> set (cons_of e)" "m_ref_counter (the (w_asocks w p)) \<noteq> 1" for p
    proof -
      obtain a where a: "w_asocks w p = Some a" "asock_ok a" using owner_lasts [OF assms(1) pq(1)] by (auto simp: lasts_def)
      have "if given_up w p then ended w p w' else untouched w p w'" using c pq(1) by (simp add: close_pass_inv_def)
      then show ?thesis
        using a pq(2) asock_ok_released [OF a(2)] by (auto simp: ended_def untouched_def Let_def lasts_def split: if_splits)
    qed
    ultimately show "case s of (e', w') \<Rightarrow> progress K e w 0 e' w'"
      using c by (auto simp: s close_pass_inv_def progress_def)
  qed
qed

section \<open>Events\<close>

text \<open>The kernel stops delivering on every descriptor within so many reads, and reports descriptors
  that exist, at most \<open>MAX_EVENTS\<close> at a time.\<close>

definition MAX_EVENTS :: nat where "MAX_EVENTS = 1024"

definition drains :: "nat \<Rightarrow> kernel \<Rightarrow> bool" where
  "drains fuel K \<longleftrightarrow> (\<forall>fd l. incoming fuel K fd l \<noteq> None)
     \<and> (\<forall>l. length (k_events K l) \<le> MAX_EVENTS \<and> (\<forall>(fd, ev) \<in> set (k_events K l). 0 \<le> fd))"

lemma progress_established:
  assumes ok: "owner_ok e w" and p: "p \<in> set (cons_of e)" "w_asocks w p = Some a"
  shows "progress K e w 0 e (w\<lparr>w_asocks := (w_asocks w)(p \<mapsto> a\<lparr>m_state := s\<rparr>)\<rparr>)"
proof -
  have "owner_ok e (w\<lparr>w_asocks := (w_asocks w)(p \<mapsto> a\<lparr>m_state := s\<rparr>)\<rparr>)"
    by (rule owner_ok_same_descs [OF ok, of _ p])
      (use p owner_okD [OF ok p] in \<open>auto simp: same_descs_def\<close>)
  then show ?thesis
    using p(2) by (intro progress_same_tables [OF ok _ p(1)]) (auto intro!: carriedI)
qed

lemma wp_service_event_out:
  assumes ok: "owner_ok e w" and fd: "0 \<le> fd"
  shows "wp F (service_event_out K fd event) (\<lambda>_ (e', w'). progress K e w 0 e' w') (e, w)"
proof -
  let ?c = "Getsockopt_Error fd"
  let ?w1 = "\<lambda>r. w\<lparr>w_log := (?c, r) # w_log w\<rparr>"
  have inv: "owner_inv e w" using ok by (simp add: owner_ok_def)
  have log: "progress K e w 0 e (?w1 r)" for r by (rule progress_log [OF ok]) (simp add: quiet_def)
  then have ok1: "owner_ok e (?w1 r)" for r by (simp add: progress_def)
  have close: "wp F (asock_service_close_connection K fd) (\<lambda>_ (e', w'). progress K e w 0 e' w') (e, ?w1 r)" for r
    by (rule wp_mono [OF wp_close_any [OF ok1 fd]]) (use progress_trans [OF log [of r]] in fastforce)
  show ?thesis
  proof (cases "and event EPOLLOUT = 0 \<or> first_index (\<lambda>p. fd_of w p = fd) (cons_of e) = None")
    case True
    then show ?thesis
      using progress_refl [OF ok] by (auto simp: service_event_out_def wp_simps wp_index_by_sock_desc [OF inv])
  next
    case False
    then obtain k where k: "first_index (\<lambda>p. fd_of w p = fd) (cons_of e) = Some k" by blast
    note at = first_index_Some [OF k]
    have small: "signed_take_bit 31 (int k) = int k" "(of_int (int k) :: size_t) = of_nat k"
      using small_index [of k] at owner_small(1) [OF inv] by simp_all
    obtain p a where p: "cons_of e ! k = p" "p \<in> set (cons_of e)" "p \<noteq> 0" "w_asocks w p = Some a"
    proof -
      have "cons_of e ! k \<in> set (cons_of e)" using at by simp
      moreover then have "con_ok w (cons_of e ! k)" using inv by (simp add: owner_inv_def)
      ultimately show thesis using that by (auto elim: con_okE)
    qed
    have conn: "wp F (connection_at e_connections (of_nat k)) R (e, w1) = R p (e, w1)" for R w1
      using wp_connection_at [of e_connections e k] inv at p(1) by (simp add: cons_of_def owner_inv_def)
    have est: "progress K e w 0 e ((?w1 r)\<lparr>w_asocks := (w_asocks w)(p \<mapsto> a\<lparr>m_state := s\<rparr>)\<rparr>)" for r s
      using progress_trans [OF log progress_established [OF ok1 p(2)]] p(4) by simp
    show ?thesis
    proof (cases "k_ret K (w_log w) ?c")
      case (Err errno)
      with False k small close show ?thesis
        by (simp add: service_event_out_def wp_simps wp_index_by_sock_desc [OF inv] Let_def)
    next
      case (Ret error)
      with False k small close p est conn show ?thesis
        by (simp add: service_event_out_def wp_simps wp_index_by_sock_desc [OF inv] Let_def)
    qed
  qed
qed

text \<open>The three parts of an event.\<close>

definition roomy :: "'a endpoint_scheme \<Rightarrow> world \<Rightarrow> nat \<Rightarrow> bool" where
  "roomy e w n \<longleftrightarrow> (\<forall>p \<in> set (cons_of e). waiting w p + n \<le> 2 ^ 62)"

lemma roomy_progress:
  assumes "roomy e w (n + m)" "progress K e w n e' w'"
  shows "roomy e' w' m"
  unfolding roomy_def
proof
  fix p assume p: "p \<in> set (cons_of e')"
  then have "p \<in> set (cons_of e)" "waiting w' p \<le> waiting w p + n"
    using assms(2) carried_waiting by (auto simp: progress_def)
  with assms(1) show "waiting w' p + m \<le> 2 ^ 62" by (fastforce simp: roomy_def)
qed

lemma roomy_less:
  assumes "roomy e w n" "m \<le> n" "\<And>p. waiting w' p = waiting w p"
  shows "roomy e w' m"
  unfolding roomy_def
proof
  fix p assume "p \<in> set (cons_of e)"
  then have "waiting w p + n \<le> 2 ^ 62" using assms(1) by (simp add: roomy_def)
  then show "waiting w' p + m \<le> 2 ^ 62" unfolding assms(3) using assms(2) by linarith
qed

lemma wp_service_handle_event:
  assumes K: "kernel_ok K" "alloc_grants (k_malloc K)" "drains fuel K" and ok: "owner_ok e w" and fd: "0 \<le> fd"
    and room: "roomy e w (fuel * BUF_SIZE)"
  shows "wp no_fault (service_handle_event fuel K (fd, ev))
    (\<lambda>_ (e', w'). progress K e w (fuel * BUF_SIZE) e' w') (e, w)"
proof -
  let ?n = "fuel * BUF_SIZE"
  have "wp no_fault (service_handle_event fuel K (fd, ev))
    (\<lambda>_ (e', w'). progress K e w (0 + ?n) e' w') (e, w)"
    unfolding service_handle_event_def prod.case
  proof (rule wp_progress_then [OF wp_service_event_out [OF ok fd]])
    fix continue :: bool and e1 w1
    assume step: "progress K e w 0 e1 w1"
    then have ok1: "owner_ok e1 w1" by (simp add: progress_def)
    have room1: "roomy e1 w1 ?n" using roomy_progress [OF _ step] room by simp
    have read: "wp no_fault (read_all_data fuel K fd) (\<lambda>_ (e', w'). progress K e1 w1 ?n e' w') (e1, w1)"
      using wp_read_any [OF K(1,2) ok1 fd] K(3) room1 by (auto simp: drains_def roomy_def)
    have close: "wp no_fault (asock_service_close_connection K fd) (\<lambda>_ (e', w'). progress K e1 w1 ?n e' w') (e1, w1)"
      by (rule wp_mono [OF wp_close_any [OF ok1 fd]]) (auto elim: progress_mono)
    show "wp no_fault (if continue then returnM ()
       else if and ev EPOLLERR \<noteq> 0 \<or> and ev EPOLLHUP \<noteq> 0
       then bindM (asock_service_close_connection K fd) (\<lambda>_. returnM ())
       else if and ev EPOLLIN \<noteq> 0 \<or> and ev EPOLLPRI \<noteq> 0
       then read_all_data fuel K fd
       else returnM ()) (\<lambda>_ (e2, w2). progress K e1 w1 ?n e2 w2) (e1, w1)"
      using read close progress_refl [OF ok1] by (simp add: wp_bind wp_return wp_return_fun)
  qed
  then show ?thesis by simp
qed

text \<open>A loop over events, each of which makes progress.\<close>

lemma wp_events:
  assumes step: "\<And>fd ev e1 w1. (fd, ev) \<in> set events \<Longrightarrow> owner_ok e1 w1 \<Longrightarrow> roomy e1 w1 n \<Longrightarrow>
      same_but_tables e e1 \<Longrightarrow> wp F (f (fd, ev)) (\<lambda>_ (e', w'). progress K e1 w1 n e' w') (e1, w1)"
    and ok: "owner_ok e w" and room: "roomy e w (length events * n)"
  shows "wp F (foreachM f events) (\<lambda>_ (e', w'). progress K e w (length events * n) e' w') (e, w)"
proof -
  let ?I = "\<lambda>evs (e', w'). progress K e w (length evs * n) e' w'"
  have "wp F (foreachM f events) (\<lambda>_. ?I events) (e, w)"
  proof (rule wp_foreachM)
    show "?I [] (e, w)" using progress_refl [OF ok] by simp
    fix evs x todo s
    assume split: "events = evs @ x # todo" and "?I evs s"
    then obtain e1 w1 where s: "s = (e1, w1)" and p: "progress K e w (length evs * n) e1 w1" by (cases s) auto
    have "roomy e w (length evs * n + n)"
    proof -
      have "length evs * n + n \<le> length events * n" using split by (simp add: algebra_simps)
      with room show ?thesis unfolding roomy_def by (meson add_left_mono le_trans)
    qed
    from roomy_progress [OF this p] have r1: "roomy e1 w1 n" .
    have "wp F (f x) (\<lambda>_ (e', w'). progress K e1 w1 n e' w') (e1, w1)"
      using step [of "fst x" "snd x" e1 w1] split p r1 by (simp add: progress_def)
    then show "wp F (f x) (\<lambda>_. ?I (evs @ [x])) s"
      unfolding s by (rule wp_mono) (use progress_trans [OF p] in \<open>auto simp: algebra_simps\<close>)
  qed
  then show ?thesis by simp
qed

text \<open>The wait for events and the loop over them, at the end of a round.\<close>

lemma wp_wait_events:
  fixes e :: "'a endpoint_scheme"
  assumes D: "drains fuel K" and ok: "owner_ok e w" and room: "roomy e w (MAX_EVENTS * n)"
    and step: "\<And>fd ev e1 w1. 0 \<le> fd \<Longrightarrow> owner_ok e1 w1 \<Longrightarrow> roomy e1 w1 n \<Longrightarrow>
      wp F (f (fd, ev)) (\<lambda>_ (e', w'). progress K e1 w1 n e' w') (e1, w1)"
  shows "wp F (bindM (getE e_epoll_desc) (\<lambda>epolld.
     bindM (liftW (getsM (\<lambda>w. k_events K (w_log w)))) (\<lambda>events.
     bindM (liftW (syscall K (Epoll_Wait epolld))) (\<lambda>r.
     let events_number = (case r of Ret n \<Rightarrow> nat n | Err _ \<Rightarrow> 0) in
     foreachM f (take events_number events)))))
     (\<lambda>_ (e', w'). progress K e w (MAX_EVENTS * n) e' w') (e, w)"
proof -
  let ?c = "Epoll_Wait (e_epoll_desc e)" and ?evs = "k_events K (w_log w)"
  let ?w1 = "w\<lparr>w_log := (?c, k_ret K (w_log w) ?c) # w_log w\<rparr>"
  have log: "progress K e w 0 e ?w1" by (rule progress_log [OF ok]) (simp add: quiet_def)
  then have ok1: "owner_ok e ?w1" by (simp add: progress_def)
  have loop: "wp F (foreachM f (take k ?evs)) (\<lambda>_ (e', w'). progress K e w (MAX_EVENTS * n) e' w') (e, ?w1)" for k
  proof -
    let ?m = "length (take k ?evs) * n"
    have "length (take k ?evs) \<le> MAX_EVENTS" using D by (auto simp: drains_def min_def intro: le_trans)
    then have m: "?m \<le> MAX_EVENTS * n" by (rule mult_le_mono1)
    have "wp F (foreachM f (take k ?evs)) (\<lambda>_ (e', w'). progress K e ?w1 ?m e' w') (e, ?w1)"
    proof (rule wp_events [OF _ ok1])
      fix fd ev w1 and e1 :: "'a endpoint_scheme"
      assume "(fd, ev) \<in> set (take k ?evs)" and o: "owner_ok e1 w1" "roomy e1 w1 n"
      then have "0 \<le> fd" using D by (auto simp: drains_def dest!: in_set_takeD)
      from step [OF this o] show "wp F (f (fd, ev)) (\<lambda>_ (e', w'). progress K e1 w1 n e' w') (e1, w1)" .
    next
      show "roomy e ?w1 ?m" by (rule roomy_less [OF room m]) (simp add: waiting_def)
    qed
    then show ?thesis
      by (rule wp_mono) (use progress_trans [OF log] m in \<open>auto elim!: progress_mono dest!: progress_trans [OF log]\<close>)
  qed
  then show ?thesis by (simp add: wp_simps Let_def)
qed

lemma wp_progress_thenM:
  assumes "wp F m (\<lambda>_ (e', w'). progress K e w n e' w') (e, w)"
    and "\<And>e' w'. progress K e w n e' w' \<Longrightarrow> wp F m' (\<lambda>_ (e2, w2). progress K e' w' k e2 w2) (e', w')"
  shows "wp F (thenM m m') (\<lambda>_ (e2, w2). progress K e w (n + k) e2 w2) (e, w)"
  using wp_progress_then [OF assms(1), of "\<lambda>_. m'"] assms(2) by (simp add: wp_then wp_bind)

section \<open>A round of the service\<close>

lemma adoption_keeps:
  assumes "adoption e w e1 w1" "set (cons_of e) \<inter> set (news_of e) = {}" "p \<in> set (cons_of e1)"
  shows "p \<in> set (cons_of e) \<union> set (news_of e)" "waiting w1 p = waiting w p"
    "m_ref_counter (the (w_asocks w1 p)) = m_ref_counter (the (w_asocks w p))"
proof -
  have p: "p \<in> set (cons_of e) \<or> p \<in> set (news_of e) \<and> kept w1 p" using assms(1,3) by (auto simp: adoption_def)
  then show "p \<in> set (cons_of e) \<union> set (news_of e)" by blast
  from p have "w_asocks w1 p = w_asocks w p \<or> adopted w p w1"
    using assms(1,2) by (auto simp: adoption_def)
  then show "waiting w1 p = waiting w p"
    "m_ref_counter (the (w_asocks w1 p)) = m_ref_counter (the (w_asocks w p))"
    by (auto simp: adopted_def waiting_def)
qed

lemma wp_service_update_state:
  assumes K: "kernel_ok K" "alloc_grants (k_malloc K)" "drains fuel K" and ok: "owner_ok e w"
    and apart: "set (cons_of e) \<inter> set (news_of e) = {}"
    and peer: "\<forall>p \<in> set (news_of e). m_peer_addr (the (w_asocks w p)) \<noteq> None"
    and ref: "\<forall>p \<in> set (cons_of e) \<union> set (news_of e). m_ref_counter (the (w_asocks w p)) \<noteq> 1"
    and room: "\<forall>p \<in> set (cons_of e) \<union> set (news_of e). waiting w p + MAX_EVENTS * (fuel * BUF_SIZE) \<le> 2 ^ 62"
  shows "wp no_fault (asock_service_update_state fuel K)
    (\<lambda>_ (e', w'). \<exists>e1 w1. adoption e w e1 w1 \<and> progress K e1 w1 (MAX_EVENTS * (fuel * BUF_SIZE)) e' w') (e, w)"
    (is "wp _ _ ?post _")
proof -
  let ?n = "fuel * BUF_SIZE"
  have rest: "wp no_fault (thenM (asock_service_send_unsent_data K) (
     thenM (asock_service_check_for_connections_to_close K) (
     bindM (getE e_epoll_desc) (\<lambda>epolld.
     bindM (liftW (getsM (\<lambda>w. k_events K (w_log w)))) (\<lambda>events.
     bindM (liftW (syscall K (Epoll_Wait epolld))) (\<lambda>r.
     let events_number = (case r of Ret n \<Rightarrow> nat n | Err _ \<Rightarrow> 0) in
     foreachM (service_handle_event fuel K) (take events_number events))))))) ?post (e1, w1)"
    (is "wp _ ?m _ _") if a: "adoption e w e1 w1" for e1 w1
  proof -
    note keeps = adoption_keeps [OF a apart]
    have ok1: "owner_ok e1 w1" and news1: "news_of e1 = []" using a by (simp_all add: adoption_def)
    have ref1: "\<forall>p \<in> set (cons_of e1). m_ref_counter (the (w_asocks w1 p)) \<noteq> 1" using ref keeps by metis
    have room1: "roomy e1 w1 (MAX_EVENTS * ?n)" using room keeps by (simp add: roomy_def)
    have "wp no_fault ?m (\<lambda>_ (e', w'). progress K e1 w1 (0 + (0 + MAX_EVENTS * ?n)) e' w') (e1, w1)"
    proof (rule wp_progress_thenM [OF wp_send_pass [OF ok1 K(1) ref1]], rule wp_progress_thenM)
      fix e2 w2 assume p2: "progress K e1 w1 0 e2 w2"
      then have ok2: "owner_ok e2 w2" and sub: "set (news_of e2) \<subseteq> set (cons_of e2)"
        using news1 by (auto simp: progress_def)
      from roomy_progress [OF _ p2] room1 have room2: "roomy e2 w2 (MAX_EVENTS * ?n)" by simp
      show "wp no_fault (asock_service_check_for_connections_to_close K) (\<lambda>_ (e', w'). progress K e2 w2 0 e' w') (e2, w2)"
        by (rule wp_close_pass [OF ok2 sub])
      fix e3 w3 assume p3: "progress K e2 w2 0 e3 w3"
      then have ok3: "owner_ok e3 w3" by (simp add: progress_def)
      from roomy_progress [OF _ p3] room2 have room3: "roomy e3 w3 (MAX_EVENTS * ?n)" by simp
      show "wp no_fault (bindM (getE e_epoll_desc) (\<lambda>epolld.
         bindM (liftW (getsM (\<lambda>w. k_events K (w_log w)))) (\<lambda>events.
         bindM (liftW (syscall K (Epoll_Wait epolld))) (\<lambda>r.
         let events_number = (case r of Ret n \<Rightarrow> nat n | Err _ \<Rightarrow> 0) in
         foreachM (service_handle_event fuel K) (take events_number events)))))
         (\<lambda>_ (e', w'). progress K e3 w3 (MAX_EVENTS * ?n) e' w') (e3, w3)"
        by (rule wp_wait_events [OF K(3) ok3 room3]) (rule wp_service_handle_event [OF K])
    qed
    then show ?thesis by (rule wp_mono) (use a in auto)
  qed
  show ?thesis
    unfolding asock_service_update_state_def wp_then [of _ "service_adopt_new_connections K"]
    by (rule wp_mono [OF wp_adopt_new_connections [OF ok K(1,2) apart peer]]) (use rest in auto)
qed

text \<open>C4. One round of the service's main loop, new connections, sending, closing and events together,
  comes to its end without a fault and leaves the service well-formed: the tables hold live
  connections with open descriptors that no two of them share, unlocked queues and free mutexes;
  every new connection has been looked at, no connection appears that was not there, and the
  service's status, directive and thread are as before. The kernel must stop delivering within
  \<open>fuel\<close> reads, memory be granted, and the application hold a reference to every connection.\<close>

theorem service_round_keeps_owner:
  assumes "kernel_ok K" "alloc_grants (k_malloc K)" "drains fuel K" "owner_ok e w"
    and "set (cons_of e) \<inter> set (news_of e) = {}"
    and "\<forall>p \<in> set (news_of e). m_peer_addr (the (w_asocks w p)) \<noteq> None"
    and "\<forall>p \<in> set (cons_of e) \<union> set (news_of e). m_ref_counter (the (w_asocks w p)) \<noteq> 1"
    and "\<forall>p \<in> set (cons_of e) \<union> set (news_of e). waiting w p + MAX_EVENTS * (fuel * BUF_SIZE) \<le> 2 ^ 62"
  shows "\<exists>e' w'. asock_service_update_state fuel K (e, w) = Inr ((), (e', w')) \<and> owner_ok e' w'
    \<and> same_but_tables e e' \<and> news_of e' = [] \<and> set (cons_of e') \<subseteq> set (cons_of e) \<union> set (news_of e)"
proof -
  obtain r e' w' e1 w1 where run: "asock_service_update_state fuel K (e, w) = Inr (r, (e', w'))"
      "adoption e w e1 w1" "progress K e1 w1 (MAX_EVENTS * (fuel * BUF_SIZE)) e' w'"
    using wp_no_faultD [OF wp_service_update_state [OF assms]] by auto
  then have "owner_ok e' w'" "same_but_tables e e'" "news_of e' = []"
    "set (cons_of e') \<subseteq> set (cons_of e) \<union> set (news_of e)"
    using same_but_tables_trans [of e e1 e'] by (auto simp: adoption_def progress_def)
  with run(1) show ?thesis by (intro exI [of _ e'] exI [of _ w']) simp
qed

lemma calm_drains: "drains (Suc n) calm_kernel"
  by (simp add: drains_def calm_kernel_def EAGAIN_def)

theorem service_round_keeps_owner_witness:
  "\<exists>e' w'. asock_service_update_state 1 calm_kernel (waiting_owner, waiting_world) = Inr ((), (e', w'))
    \<and> owner_ok e' w' \<and> news_of e' = [] \<and> set (cons_of e') \<subseteq> {4096, 8192}"
proof -
  have "waiting waiting_world p = 2 \<and> m_ref_counter (the (w_asocks waiting_world p)) = 2" if "p \<in> {4096, 8192}" for p
    using that by (auto simp: waiting_def waiting_con_def sample_con_def)
  moreover have "alloc_grants (k_malloc calm_kernel)" by (simp add: calm_kernel_def)
  ultimately show ?thesis
    using service_round_keeps_owner [OF calm_kernel_ok _ calm_drains [of 0], of waiting_owner waiting_world]
    by (simp add: MAX_EVENTS_def BUF_SIZE_def) blast
qed

section \<open>No byte is lost in a round\<close>

definition in_data :: "world \<Rightarrow> ptr \<Rightarrow> byte list" where
  "in_data w p = queue_data (m_in_queue (the (w_asocks w p)))"

definition out_data :: "world \<Rightarrow> ptr \<Rightarrow> byte list" where
  "out_data w p = queue_data (m_out_queue (the (w_asocks w p)))"

lemma stream_out_data: "stream w p = sent (fd_of w p) (w_log w) @ out_data w p"
  by (simp add: stream_def out_data_def)

lemma carried_data:
  assumes "carried K n w p w'"
  shows "fd_of w' p = fd_of w p" "sent (fd_of w' p) (w_log w') @ out_data w' p = sent (fd_of w' p) (w_log w) @ out_data w p"
    "\<exists>bs. in_data w' p = in_data w p @ bs \<and> got K (fd_of w' p) (w_log w') = got K (fd_of w' p) (w_log w) @ bs"
  using assms by (auto simp: carried_def stream_out_data in_data_def)

lemma adoption_data:
  assumes "adoption e w e1 w1" "set (cons_of e) \<inter> set (news_of e) = {}" "p \<in> set (cons_of e1)"
  shows "sent fd (w_log w1) @ out_data w1 p = sent fd (w_log w) @ out_data w p" "in_data w1 p = in_data w p"
    "p \<in> set (cons_of e) \<Longrightarrow> fd_of w1 p = fd_of w p" "got K fd (w_log w1) = got K fd (w_log w)"
proof -
  have p: "p \<in> set (cons_of e) \<or> p \<in> set (news_of e) \<and> kept w1 p" using assms(1,3) by (auto simp: adoption_def)
  then have "w_asocks w1 p = w_asocks w p \<or> adopted w p w1"
    using assms(1,2) by (auto simp: adoption_def)
  moreover have t: "traffic fd (w_log w1) = traffic fd (w_log w)" using assms(1) by (simp add: adoption_def)
  then have "sent fd (w_log w1) = sent fd (w_log w)" by (rule trafficD)
  ultimately show "sent fd (w_log w1) @ out_data w1 p = sent fd (w_log w) @ out_data w p" "in_data w1 p = in_data w p"
    by (auto simp: adopted_def out_data_def in_data_def)
  show "got K fd (w_log w1) = got K fd (w_log w)" using t by (rule trafficD)
  show "fd_of w1 p = fd_of w p" if "p \<in> set (cons_of e)"
  proof -
    have "p \<notin> set (news_of e)" using assms(2) that by blast
    then show ?thesis using assms(1) by (simp add: adoption_def fd_of_def)
  qed
qed

text \<open>A round of the service's main loop loses, repeats and reorders no byte. For every connection
  that is in the table afterwards, what the kernel took on its descriptor during the round is
  exactly what has left the front of its output queue; what the kernel delivered on it is exactly
  what its input queue has grown by, at the end; and it keeps its descriptor, unless it was a new
  one. No object outside the service's tables is touched.\<close>

theorem service_round_keeps_bytes:
  assumes "kernel_ok K" "alloc_grants (k_malloc K)" "drains fuel K" "owner_ok e w"
    and "set (cons_of e) \<inter> set (news_of e) = {}"
    and "\<forall>p \<in> set (news_of e). m_peer_addr (the (w_asocks w p)) \<noteq> None"
    and "\<forall>p \<in> set (cons_of e) \<union> set (news_of e). m_ref_counter (the (w_asocks w p)) \<noteq> 1"
    and "\<forall>p \<in> set (cons_of e) \<union> set (news_of e). waiting w p + MAX_EVENTS * (fuel * BUF_SIZE) \<le> 2 ^ 62"
  shows "\<exists>e' w'. asock_service_update_state fuel K (e, w) = Inr ((), (e', w'))
    \<and> set (cons_of e') \<subseteq> set (cons_of e) \<union> set (news_of e)
    \<and> (\<forall>p \<in> set (cons_of e').
          sent (fd_of w' p) (w_log w') @ out_data w' p = sent (fd_of w' p) (w_log w) @ out_data w p
          \<and> (\<exists>bs. in_data w' p = in_data w p @ bs \<and> got K (fd_of w' p) (w_log w') = got K (fd_of w' p) (w_log w) @ bs)
          \<and> (p \<in> set (cons_of e) \<longrightarrow> fd_of w' p = fd_of w p))
    \<and> (\<forall>p. p \<notin> set (cons_of e) \<union> set (news_of e) \<longrightarrow> w_asocks w' p = w_asocks w p)"
proof -
  let ?n = "MAX_EVENTS * (fuel * BUF_SIZE)"
  obtain r e' w' e1 w1 where run: "asock_service_update_state fuel K (e, w) = Inr (r, (e', w'))"
      and a: "adoption e w e1 w1" and p: "progress K e1 w1 ?n e' w'"
    using wp_no_faultD [OF wp_service_update_state [OF assms]] by auto
  have data: "sent (fd_of w' q) (w_log w') @ out_data w' q = sent (fd_of w' q) (w_log w) @ out_data w q
      \<and> (\<exists>bs. in_data w' q = in_data w q @ bs \<and> got K (fd_of w' q) (w_log w') = got K (fd_of w' q) (w_log w) @ bs)
      \<and> (q \<in> set (cons_of e) \<longrightarrow> fd_of w' q = fd_of w q)"
    if q: "q \<in> set (cons_of e')" for q
  proof -
    have "carried K ?n w1 q w'" "q \<in> set (cons_of e1)" using p q by (auto simp: progress_def)
    with carried_data [of K ?n w1 q w'] adoption_data(1,4) [OF a assms(5), where p = q and fd = "fd_of w' q"]
      adoption_data(2,3) [OF a assms(5), of q] show ?thesis by auto
  qed
  have same: "w_asocks w' q = w_asocks w q" if "q \<notin> set (cons_of e) \<union> set (news_of e)" for q
    using a p that by (auto simp: adoption_def progress_def)
  have "set (cons_of e') \<subseteq> set (cons_of e) \<union> set (news_of e)" using a p by (auto simp: adoption_def progress_def)
  with run data same show ?thesis by (intro exI [of _ e'] exI [of _ w']) simp
qed

theorem service_round_keeps_bytes_witness:
  "\<exists>e' w'. asock_service_update_state 1 calm_kernel (sample_owner, sample_world 2 False) = Inr ((), (e', w'))
    \<and> (\<forall>p \<in> set (cons_of e'). sent (fd_of w' p) (w_log w') @ out_data w' p = [11, 22])"
proof -
  let ?w = "sample_world 2 False"
  have "waiting ?w p = 2 \<and> m_ref_counter (the (w_asocks ?w p)) = 2 \<and> out_data ?w p = [11, 22]" if "p \<in> {4096, 8192}" for p
    using that by (auto simp: waiting_def out_data_def)
  note w = this
  have g: "alloc_grants (k_malloc calm_kernel)" by (simp add: calm_kernel_def)
  have hyps: "owner_ok sample_owner ?w" "set (cons_of sample_owner) \<inter> set (news_of sample_owner) = {}"
    "\<forall>p \<in> set (news_of sample_owner). m_peer_addr (the (w_asocks ?w p)) \<noteq> None"
    "\<forall>p \<in> set (cons_of sample_owner) \<union> set (news_of sample_owner). m_ref_counter (the (w_asocks ?w p)) \<noteq> 1"
    "\<forall>p \<in> set (cons_of sample_owner) \<union> set (news_of sample_owner). waiting ?w p + MAX_EVENTS * (1 * BUF_SIZE) \<le> 2 ^ 62"
    using w by (simp_all add: MAX_EVENTS_def BUF_SIZE_def)
  obtain e' w' where r: "asock_service_update_state 1 calm_kernel (sample_owner, ?w) = Inr ((), (e', w'))"
      "set (cons_of e') \<subseteq> {4096, 8192}"
      "\<forall>p \<in> set (cons_of e'). sent (fd_of w' p) (w_log w') @ out_data w' p = sent (fd_of w' p) (w_log ?w) @ out_data ?w p"
    using service_round_keeps_bytes [OF calm_kernel_ok g calm_drains [of 0, folded One_nat_def] hyps] by auto
  have "sent (fd_of w' p) (w_log w') @ out_data w' p = [11, 22]" if "p \<in> set (cons_of e')" for p
  proof -
    have "p \<in> {4096, 8192}" using r(2) that by blast
    with w [of p] bspec [OF r(3) that] show ?thesis by simp
  qed
  with r(1) show ?thesis by blast
qed

end
