(* ===== verification/Asock_Lifecycle.thy ===== *)
theory Asock_Lifecycle
  imports Asock_Service Asock_Server Asock_Owner_Facts
begin

text \<open>
  The lives of services and servers: creation with the first round of the thread, start, refused
  calls, stop and destruction.
\<close>

section \<open>Dropping the owner's references\<close>

text \<open>A connection loses one reference; with the last one it goes and its descriptor is closed.\<close>

definition released :: "world \<Rightarrow> ptr \<Rightarrow> world \<Rightarrow> bool" where
  "released w p w' \<longleftrightarrow> (\<exists>a. w_asocks w p = Some a
     \<and> w_asocks w' p = (if m_ref_counter a = 1 then None
         else Some (a\<lparr>m_disconnect := True, m_ref_counter := m_ref_counter a - 1\<rparr>))
     \<and> closes (m_sock_desc a) (w_log w') = closes (m_sock_desc a) (w_log w) + (if m_ref_counter a = 1 then 1 else 0))"

definition released_all :: "world \<Rightarrow> ptr set \<Rightarrow> world \<Rightarrow> bool" where
  "released_all w S w' \<longleftrightarrow>
     (\<forall>p \<in> S. released w p w') \<and> (\<forall>q. q \<notin> S \<longrightarrow> w_asocks w' q = w_asocks w q)
     \<and> (\<forall>fd. fd \<notin> fd_of w ` S \<longrightarrow>
          closes fd (w_log w') = closes fd (w_log w) \<and> is_open fd (w_log w') = is_open fd (w_log w))"

lemma released_all_empty [simp]: "released_all w {} w"
  by (simp add: released_all_def)

lemma wp_release:
  assumes "con_ok w p"
  shows "wp F (asock_destroy_asock K p) (\<lambda>_. released_all w {p}) w"
  using assms
  by (auto simp: asock_destroy_asock_spec released_all_def released_def fd_of_def elim!: con_okE)

lemma released_all_Un:
  assumes "released_all w S w1" "released_all w1 T w2" "S \<inter> T = {}" "inj_on (fd_of w) (S \<union> T)"
  shows "released_all w (S \<union> T) w2"
proof -
  have T: "fd_of w1 q = fd_of w q" "w_asocks w1 q = w_asocks w q" if "q \<in> T" for q
    using assms(1,3) that by (auto simp: released_all_def fd_of_def)
  have apart: "fd_of w p \<noteq> fd_of w q" if "p \<in> S" "q \<in> T" for p q
    using inj_onD [OF assms(4), of p q] that assms(3) by blast
  have fds: "fd_of w1 ` T = fd_of w ` T" using T(1) by (rule image_cong [OF refl])
  have "released w p w2" if "p \<in> S" for p
  proof -
    have "p \<notin> T" "fd_of w p \<notin> fd_of w1 ` T" using that assms(3) apart unfolding fds by auto
    then have "w_asocks w2 p = w_asocks w1 p" "closes (fd_of w p) (w_log w2) = closes (fd_of w p) (w_log w1)"
      using assms(2) by (simp_all add: released_all_def)
    moreover have "released w p w1" using assms(1) that by (simp add: released_all_def)
    ultimately show ?thesis by (force simp: released_def fd_of_def)
  qed
  moreover have "released w p w2" if "p \<in> T" for p
  proof -
    have "fd_of w p \<notin> fd_of w ` S" using apart [OF _ that] by force
    then have "closes (fd_of w p) (w_log w1) = closes (fd_of w p) (w_log w)"
      using assms(1) by (simp add: released_all_def)
    moreover have "released w1 p w2" using assms(2) that by (simp add: released_all_def)
    ultimately show ?thesis using T(2) [OF that] by (force simp: released_def fd_of_def)
  qed
  ultimately show ?thesis
    using assms(1,2) unfolding released_all_def fds image_Un by auto
qed

lemma released_con_ok:
  assumes "released_all w S w'" "con_ok w p" "p \<notin> S" "fd_of w p \<notin> fd_of w ` S"
  shows "con_ok w' p" "fd_of w' p = fd_of w p"
  using assms by (auto simp: released_all_def con_ok_def fd_of_def)

text \<open>The loops over a table at the end of a thread.\<close>

lemma wp_destroy_connections:
  assumes v: "con_inv (table e)" "distinct (con_ptrs (table e))"
    and ok: "\<forall>p \<in> set (con_ptrs (table e)). con_ok w p" and inj: "inj_on (fd_of w) (set (con_ptrs (table e)))"
  shows "wp F (destroy_connections K table)
    (\<lambda>_ (e', w'). e' = e \<and> released_all w (set (con_ptrs (table e))) w') (e, w)"
proof -
  let ?ps = "con_ptrs (table e)"
  let ?I = "\<lambda>k (e', w'). e' = e \<and> released_all w (set (drop k ?ps)) w'"
  let ?body = "\<lambda>i. bindM (connection_at table i) (\<lambda>con. liftW (asock_destroy_asock K con))"
  have "wp F (down_nat (length ?ps) (\<lambda>k. ?body (of_nat k))) (\<lambda>_. ?I 0) (e, w)"
  proof (rule wp_down_nat [where I = ?I])
    fix k s
    assume k: "k < length ?ps" and "?I (Suc k) s"
    then obtain w1 where s: "s = (e, w1)" and rel: "released_all w (set (drop (Suc k) ?ps)) w1" by (cases s) auto
    define p where "p = ?ps ! k"
    have dk: "drop k ?ps = p # drop (Suc k) ?ps" using k by (simp add: p_def Cons_nth_drop_Suc)
    have "distinct (drop k ?ps)" using v(2) by simp
    then have new: "p \<notin> set (drop (Suc k) ?ps)" by (simp add: dk)
    have sub: "set (drop (Suc k) ?ps) \<subseteq> set ?ps" and p: "p \<in> set ?ps" using k by (auto simp: p_def dest: in_set_dropD)
    have "fd_of w p \<notin> fd_of w ` set (drop (Suc k) ?ps)"
      unfolding inj_on_image_mem_iff [OF inj p sub] by (rule new)
    then have "con_ok w1 p" using released_con_ok(1) [OF rel _ new] ok p by blast
    moreover have "released_all w (set (drop k ?ps)) w2" if "released_all w1 {p} w2" for w2
    proof -
      have "inj_on (fd_of w) (set (drop (Suc k) ?ps) \<union> {p})" by (rule inj_on_subset [OF inj]) (use sub p in auto)
      from released_all_Un [OF rel that _ this] new show ?thesis by (simp add: dk)
    qed
    ultimately have "wp F (asock_destroy_asock K p) (\<lambda>_ w2. released_all w (set (drop k ?ps)) w2) w1"
      by (blast intro: wp_mono [OF wp_release])
    moreover have "wp F (connection_at table (of_nat k)) Q (e, w1) = Q p (e, w1)" for Q
      using wp_connection_at [of table e k] v(1) k by (simp add: p_def)
    ultimately show "wp F (?body (of_nat k)) (\<lambda>_. ?I k) s" by (simp add: s wp_bind wp_liftW)
  qed simp
  moreover have "unat (asock_connections_size (table e)) = length ?ps" using v(1) by (simp add: cons.count_law)
  ultimately show ?thesis by (simp add: destroy_connections_def wp_simps for_down_eq)
qed

section \<open>Creating an owner\<close>

text \<open>What a freshly created owner is like: empty tables, its own epoll descriptor, no directive.\<close>

definition fresh_owner :: "world \<Rightarrow> 'a endpoint_scheme \<Rightarrow> world \<Rightarrow> bool" where
  "fresh_owner w e w' \<longleftrightarrow>
     owner_ok e w' \<and> cons_of e = [] \<and> news_of e = [] \<and> w_asocks w' = w_asocks w
     \<and> is_open (e_epoll_desc e) (w_log w') \<and> \<not> is_open (e_epoll_desc e) (w_log w)
     \<and> e_directive e = asock_init_directive \<and> e_id e = w_services_created w + 1
     \<and> w_services_created w' = w_services_created w + 1"

lemma wp_create_table:
  assumes "kernel_ok K" "Q None (w\<lparr>w_allocs := w_allocs w + 2\<rparr>)"
    and "\<And>v. con_inv v \<Longrightarrow> con_ptrs v = [] \<Longrightarrow> Q (Some v) (w\<lparr>w_allocs := w_allocs w + 2\<rparr>)"
  shows "wp F (create_table K) Q w"
proof -
  have "con_inv v \<and> con_ptrs v = []"
    if "asock_connections_create (allocator_at K w) CON_INIT_CAPACITY = Some v" for v
    using asock_connections_create_spec [OF allocator_at_ok [OF assms(1)] _ _ that] by (simp add: CON_INIT_CAPACITY_def)
  with assms(2,3) show ?thesis
    by (cases "asock_connections_create (allocator_at K w) CON_INIT_CAPACITY") (simp_all add: create_table_def wp_simps)
qed

lemma wp_strdup_opt:
  assumes "\<And>t n. t = None \<or> t = s \<Longrightarrow> Q t (w\<lparr>w_allocs := n\<rparr>)"
  shows "wp F (strdup_opt K s) Q w"
proof (cases s)
  case (Some a)
  then have "map_option (\<lambda>_. a) b = None \<or> map_option (\<lambda>_. a) b = s" for b :: block by (cases b) auto
  then have "Q (map_option (\<lambda>_. a) b) (w\<lparr>w_allocs := n\<rparr>)" for b :: block and n by (rule assms)
  with Some show ?thesis by (simp add: strdup_opt_def strdup_def wp_simps)
qed (use assms [of None "w_allocs w"] in \<open>simp add: strdup_opt_def wp_simps\<close>)

text \<open>Creation as both structs do it, up to the start of the thread: \<open>k\<close> is the rest.\<close>

lemma fresh_tables:
  assumes "con_inv cs" "con_ptrs cs = []" "con_inv ns" "con_ptrs ns = []"
    "e_connections e = cs" "e_new_connections e = ns" "\<not> e_new_connections_mutex e"
  shows "owner_ok e w" "cons_of e = []" "news_of e = []"
  using assms by (simp_all add: owner_ok_def owner_inv_def cons_of_def news_of_def)

lemma wp_service_id [wp_simps]:
  "wp F asock_get_unique_service_id Q w =
    Q (w_services_created w + 1) (w\<lparr>w_services_created := w_services_created w + 1\<rparr>)"
  by (simp add: asock_get_unique_service_id_def wp_simps)

lemma service_first_round:
  "wp F (asock_service_thread_loop fuel K) Q (e, w) =
    Q () (e\<lparr>e_status := Configuration, e_thread := Configuring\<rparr>, w)" if "e_thread e = Not_Started"
  using that by (simp add: asock_service_thread_loop_def wp_simps)

lemma wp_service_create:
  assumes K: "kernel_ok K"
  shows "wp F (asock_service_create_ns fuel K net_ns)
    (\<lambda>r w'. case r of None \<Rightarrow> w_asocks w' = w_asocks w
       | Some e \<Rightarrow> fresh_owner w e w' \<and> e_status e = Configuration \<and> e_thread e = Configuring
           \<and> e_net_ns_fd e = - 1 \<and> e_net_ns e = net_ns) w"
    (is "wp F _ ?post w")
proof (cases "k_ret K (w_log w) Epoll_Create")
  case (Err errno)
  then show ?thesis by (simp add: asock_service_create_ns_def wp_simps mutex_init_def)
next
  case (Ret fd)
  then have fd: "\<not> is_open fd (w_log w)" using kernel_okD(1) [OF K, of Epoll_Create "w_log w" fd] by simp
  from Ret show ?thesis
    by (auto simp: asock_service_create_ns_def wp_simps mutex_init_def fresh_owner_def fresh_tables service_first_round fd
        intro!: wp_create_table [OF K] wp_strdup_opt split: option.splits sysres.splits)
qed

section \<open>The life of a service\<close>

definition service_up :: "asock_service \<Rightarrow> asock_service \<Rightarrow> bool" where
  "service_up e e' \<longleftrightarrow>
     e' = e\<lparr>e_status := Running, e_thread := Looping, e_directive := e_directive e'\<rparr>
     \<and> asock_get_directive_type (e_directive e') = DirectNone"

lemma service_upD:
  assumes "service_up e e'"
  shows "e_status e' = Running" "e_thread e' = Looping" "e_net_ns e' = e_net_ns e"
    "asock_get_directive_type (e_directive e') = DirectNone" "cons_of e' = cons_of e" "news_of e' = news_of e"
    "owner_ok e' w \<longleftrightarrow> owner_ok e w" "e_net_ns_fd e' = e_net_ns_fd e" "e_id e' = e_id e"
proof -
  from assms obtain d where d: "e' = e\<lparr>e_status := Running, e_thread := Looping, e_directive := d\<rparr>"
    "asock_get_directive_type d = DirectNone"
    unfolding service_up_def by metis
  show "e_status e' = Running" "e_thread e' = Looping" "e_net_ns e' = e_net_ns e"
    "asock_get_directive_type (e_directive e') = DirectNone" "cons_of e' = cons_of e" "news_of e' = news_of e"
    "owner_ok e' w \<longleftrightarrow> owner_ok e w" "e_net_ns_fd e' = e_net_ns_fd e" "e_id e' = e_id e"
    by (simp_all add: d cons_of_def news_of_def owner_ok_def owner_inv_def)
qed

lemma service_starts:
  assumes "e_status e = Configuration" "e_thread e = Configuring"
  shows "\<exists>e'. asock_service_start fuel K 1 (e, w) = Inr (ASOCK_SUCCESS, (e', w)) \<and> service_up e e'"
proof -
  have "wp no_fault (asock_service_start fuel K 1)
      (\<lambda>r (e', w'). r = ASOCK_SUCCESS \<and> w' = w \<and> service_up e e') (e, w)"
    using assms
    by (simp add: asock_service_start_def asock_send_directive_def asock_service_is_running_def wp_simps
        asock_service_thread_loop_def service_configure_def set_directive_result_def directive_defs service_up_def)
  from wp_no_faultD [OF this] show ?thesis by auto
qed

text \<open>The calm kernel grants what a creation asks for.\<close>

lemma calm_strings: "length s < 100 \<Longrightarrow> unat (1 + word_of_nat (length s) :: size_t) = Suc (length s)"
  using unat_of_nat_size [of "Suc (length s)"] by simp

lemma wp_calm_resources:
  "wp F (mutex_init calm_kernel) Qb w = Qb True w"
  "wp F (create_table calm_kernel) Qt w = Qt (Some \<lparr>v_size = 0, v_data = Some (replicate 80 0), v_capacity = 10,
      v_item_size = 8\<rparr>) (w\<lparr>w_allocs := w_allocs w + 2\<rparr>)"
  "length s < 100 \<Longrightarrow> wp F (strdup_opt calm_kernel (Some s)) Qs w = Qs (Some s) (w\<lparr>w_allocs := Suc (w_allocs w)\<rparr>)"
  "k_malloc calm_kernel = zero_alloc" "k_ret calm_kernel = calm_ret"
  by (simp_all add: calm_kernel_def mutex_init_def create_table_def strdup_opt_def strdup_def wp_simps
      asock_connections_create_def asock_vector_create_def zero_alloc_def allocator_at_def
      CON_INIT_CAPACITY_def CON_PTR_SIZE_def PTRDIFF_MAX_def calm_strings)

lemma calm_creates_service:
  "wp no_fault (asock_service_create_ns 1 calm_kernel (Some ''blue'')) (\<lambda>r w'. r \<noteq> None) empty_world"
  by (simp add: asock_service_create_ns_def wp_simps wp_calm_resources service_first_round
      zero_alloc_def SERVICE_SIZE_def PTRDIFF_MAX_def fresh_fd_def empty_world_def)

text \<open>C19. \<open>asock_service_create_ns\<close> never faults and never waits for ever. It returns a service with
  empty tables, a fresh id and an epoll descriptor of its own, in the configuration phase;
  \<open>asock_service_start\<close> then succeeds, the service is running with its thread in the main loop, and a
  second start is refused and changes nothing. Or it returns null, and no object was created.\<close>

theorem service_create_and_start:
  assumes "kernel_ok K"
  shows "\<exists>r w'. asock_service_create_ns fuel K net_ns w = Inr (r, w') \<and>
    (case r of
       None \<Rightarrow> w_asocks w' = w_asocks w
     | Some e \<Rightarrow> fresh_owner w e w' \<and> e_status e = Configuration \<and> e_thread e = Configuring \<and> e_net_ns e = net_ns
         \<and> (\<exists>e2. asock_service_start fuel K 1 (e, w') = Inr (ASOCK_SUCCESS, (e2, w')) \<and> service_up e e2
              \<and> asock_service_start fuel K 1 (e2, w') = Inr (ASOCK_ERR_BADSTATE, (e2, w'))))"
proof -
  obtain r w' where r: "asock_service_create_ns fuel K net_ns w = Inr (r, w')"
    "case r of None \<Rightarrow> w_asocks w' = w_asocks w
       | Some e \<Rightarrow> fresh_owner w e w' \<and> e_status e = Configuration \<and> e_thread e = Configuring
           \<and> e_net_ns_fd e = - 1 \<and> e_net_ns e = net_ns"
    using wp_no_faultD [OF wp_service_create [OF assms, of no_fault fuel net_ns w]] by blast
  show ?thesis
  proof (cases r)
    case (Some e)
    with r(2) obtain e2 where e2: "asock_service_start fuel K 1 (e, w') = Inr (ASOCK_SUCCESS, (e2, w'))" "service_up e e2"
      using service_starts [of e fuel K w'] by auto
    have again: "asock_service_start fuel K 1 (e2, w') = Inr (ASOCK_ERR_BADSTATE, (e2, w'))"
      using service_upD(1) [OF e2(2)] by (simp add: asock_service_start_def asock_service_is_running_def getE_def op_defs)
    show ?thesis
      using r Some e2 again by (intro exI [of _ r] exI [of _ w'] conjI r(1)) auto
  qed (use r in auto)
qed

theorem service_create_and_start_witness:
  "\<exists>e e2 w'. asock_service_create_ns 1 calm_kernel (Some ''blue'') empty_world = Inr (Some e, w')
    \<and> e_net_ns e = Some ''blue'' \<and> asock_service_start 1 calm_kernel 1 (e, w') = Inr (ASOCK_SUCCESS, (e2, w'))
    \<and> e_status e2 = Running"
proof -
  obtain r w' where r: "asock_service_create_ns 1 calm_kernel (Some ''blue'') empty_world = Inr (r, w')"
    "case r of None \<Rightarrow> w_asocks w' = w_asocks empty_world
     | Some e \<Rightarrow> fresh_owner empty_world e w' \<and> e_status e = Configuration \<and> e_thread e = Configuring \<and> e_net_ns e = Some ''blue''
         \<and> (\<exists>e2. asock_service_start 1 calm_kernel 1 (e, w') = Inr (ASOCK_SUCCESS, (e2, w')) \<and> service_up e e2
              \<and> asock_service_start 1 calm_kernel 1 (e2, w') = Inr (ASOCK_ERR_BADSTATE, (e2, w')))"
    using service_create_and_start [OF calm_kernel_ok, of 1 "Some ''blue''" empty_world] by blast
  have "r \<noteq> None" using calm_creates_service r(1) by (rule wp_returns)
  with r show ?thesis by (cases r) (auto dest: service_upD(1))
qed

lemma tables_of_updates [simp]:
  "cons_of (e\<lparr>e_directive := d\<rparr>) = cons_of e" "news_of (e\<lparr>e_directive := d\<rparr>) = news_of e"
  "cons_of (e\<lparr>e_new_connections_mutex := b\<rparr>) = cons_of e" "news_of (e\<lparr>e_new_connections_mutex := b\<rparr>) = news_of e"
  by (simp_all add: cons_of_def news_of_def)

text \<open>The end of the thread.\<close>

lemma wp_release_tables:
  assumes inv: "owner_inv e w" and apart: "set (cons_of e) \<inter> set (news_of e) = {}"
    and Q: "\<And>w'. released_all w (set (cons_of e) \<union> set (news_of e)) w' \<Longrightarrow>
      wp F m Q (e\<lparr>e_new_connections_mutex := False\<rparr>, w')"
  shows "wp F (thenM lock_new (thenM (destroy_connections K e_new_connections) (thenM unlock_new
    (thenM (destroy_connections K e_connections) m)))) Q (e, w)"
proof -
  let ?e1 = "e\<lparr>e_new_connections_mutex := True\<rparr>" and ?e2 = "e\<lparr>e_new_connections_mutex := False\<rparr>"
  have t: "con_inv (e_connections e)" "con_inv (e_new_connections e)" "distinct (cons_of e)" "distinct (news_of e)"
    and m: "\<not> e_new_connections_mutex e"
    and ok: "\<forall>p \<in> set (cons_of e) \<union> set (news_of e). con_ok w p"
    and inj: "inj_on (fd_of w) (set (news_of e) \<union> set (cons_of e))"
    using inv unfolding owner_inv_def by (auto simp: Un_commute)
  have second: "wp F (destroy_connections K e_connections) (\<lambda>_. wp F m Q) (?e2, w1)"
    if r1: "released_all w (set (news_of e)) w1" for w1
  proof -
    have fr: "con_ok w1 p" "fd_of w1 p = fd_of w p" if "p \<in> set (cons_of e)" for p
    proof -
      have "p \<notin> set (news_of e)" using that apart by blast
      moreover have "fd_of w p \<notin> fd_of w ` set (news_of e)"
        unfolding inj_on_image_mem_iff [OF inj UnI2 [OF that] Un_upper1] by fact
      ultimately show "con_ok w1 p" "fd_of w1 p = fd_of w p"
        using released_con_ok [OF r1] ok that by blast+
    qed
    have "inj_on (fd_of w1) (set (cons_of e)) = inj_on (fd_of w) (set (cons_of e))"
      by (intro inj_on_cong) (rule fr(2))
    then have "inj_on (fd_of w1) (set (cons_of e))" using inj by (simp add: inj_on_Un)
    then have "wp F (destroy_connections K e_connections)
        (\<lambda>_ (e', w'). e' = ?e2 \<and> released_all w1 (set (cons_of e)) w') (?e2, w1)"
      using wp_destroy_connections [of e_connections ?e2 w1 F K] t fr(1) by (simp add: cons_of_def)
    then show ?thesis
    proof (rule wp_mono)
      fix x s assume "case s of (e', w') \<Rightarrow> e' = ?e2 \<and> released_all w1 (set (cons_of e)) w'"
      then obtain w2 where s: "s = (?e2, w2)" and r2: "released_all w1 (set (cons_of e)) w2" by (cases s) auto
      have "released_all w (set (cons_of e) \<union> set (news_of e)) w2"
        using released_all_Un [OF r1 r2 _ inj] apart by (simp add: Un_commute Int_commute)
      from Q [OF this] show "wp F m Q s" by (simp add: s)
    qed
  qed
  have "wp F (destroy_connections K e_new_connections)
      (\<lambda>_ (e', w'). e' = ?e1 \<and> released_all w (set (news_of e)) w') (?e1, w)"
    using wp_destroy_connections [of e_new_connections ?e1 w F K] t ok inj by (simp add: news_of_def inj_on_Un)
  then have "wp F (destroy_connections K e_new_connections)
      (\<lambda>_. wp F (thenM unlock_new (thenM (destroy_connections K e_connections) m)) Q) (?e1, w)"
    by (rule wp_mono) (auto simp: wp_then wp_unlock_new second)
  with m show ?thesis by (simp add: wp_then wp_lock_new)
qed

lemma wp_release_namespace:
  "e_net_ns_fd e = - 1 \<Longrightarrow> wp F (release_namespace K) Q (e, w) = Q () (e\<lparr>e_net_ns := None\<rparr>, w)"
  by (simp add: release_namespace_def wp_simps)

lemma wp_service_stop:
  assumes "owner_inv e w" "set (cons_of e) \<inter> set (news_of e) = {}"
    and "e_status e = Running" "e_thread e = Looping" "e_net_ns_fd e = - 1"
  shows "wp F (asock_service_stop fuel K) (\<lambda>_ (e', w'). e_status e' = Aborted \<and> e_thread e' = Finished
    \<and> e_net_ns_fd e' = - 1 \<and> released_all w (set (cons_of e) \<union> set (news_of e)) w') (e, w)"
proof -
  let ?S = "set (cons_of e) \<union> set (news_of e)"
  let ?e1 = "e\<lparr>e_directive := directive_post DirectStop NullArg NullArg NullArg NullArg (e_directive e)\<rparr>"
  have inv: "owner_inv ?e1 w" using assms(1) by (simp add: owner_inv_def)
  have "wp F (service_shutdown K) (\<lambda>_ (e', w'). e_status e' = Running \<and> e_thread e' = Finished \<and> e_net_ns_fd e' = - 1
      \<and> directive_take (e_directive e') \<noteq> None \<and> released_all w ?S w') (?e1, w)"
    unfolding service_shutdown_def
    by (rule wp_release_tables [OF inv])
      (use assms in \<open>simp_all add: wp_then wp_updateE wp_release_namespace set_directive_result_def directive_defs\<close>)
  then show ?thesis
    using assms(3,4)
    by (auto simp: asock_service_stop_def asock_service_is_running_def asock_send_directive_def wp_simps
        asock_service_thread_loop_def service_main_round_def asock_get_directive_type_def directive_post_def
        join_thread_def elim!: wp_mono)
qed

text \<open>C9. Stopping a running service ends its thread and drops the service's reference to every
  connection of both tables, exactly once: those of which the application holds a reference stay,
  marked disconnected and with their descriptors open; the others go, and their descriptors are
  closed once. No other object and no other descriptor is touched, and the call does not hang.\<close>

theorem service_stop_releases_all:
  assumes "owner_inv e w" "set (cons_of e) \<inter> set (news_of e) = {}"
    and "e_status e = Running" "e_thread e = Looping" "e_net_ns_fd e = - 1"
  shows "\<exists>e' w'. asock_service_stop fuel K (e, w) = Inr ((), (e', w')) \<and> e_status e' = Aborted
    \<and> e_thread e' = Finished \<and> released_all w (set (cons_of e) \<union> set (news_of e)) w'"
  using wp_no_faultD [OF wp_service_stop [OF assms, of no_fault fuel K]] by auto

theorem service_stop_releases_all_witness:
  "\<exists>e' w'. asock_service_stop 1 calm_kernel (sample_owner, sample_world 1 True) = Inr ((), (e', w'))
    \<and> e_thread e' = Finished \<and> w_asocks w' 4096 = None \<and> closes 6 (w_log w') = 1 \<and> w_asocks w' 8192 \<noteq> None"
proof -
  have "e_status sample_owner = Running" "e_thread sample_owner = Looping" "e_net_ns_fd sample_owner = - 1"
    by (simp_all add: sample_owner_def)
  with service_stop_releases_all [of sample_owner "sample_world 1 True" 1 calm_kernel] show ?thesis
    by (auto simp: released_all_def released_def)
qed

end
