(* ===== verification/Asock_Server_Facts.thy ===== *)
theory Asock_Server_Facts
  imports Asock_Server Asock_Rounds Asock_Lifecycle
begin

text \<open>
  The properties of the server: the connections it accepts, the hand-over to the application, a
  round of its main loop, and what goes wrong on its failure paths.
\<close>

section \<open>A new connection\<close>

text \<open>The object of an accepted connection.\<close>

definition newcomer :: "asock_server \<Rightarrow> int \<Rightarrow> byte list \<Rightarrow> asock \<Rightarrow> bool" where
  "newcomer e infd peer a \<longleftrightarrow>
     asock_ok a \<and> m_sock_desc a = infd \<and> m_state a = Established \<and> m_master_id a = e_id e
     \<and> m_ref_counter a = 2 \<and> \<not> m_disconnect a \<and> m_peer_addr a = Some peer
     \<and> m_peer_addrlen a = of_nat (length peer)
     \<and> queue_data (m_in_queue a) = [] \<and> queue_data (m_out_queue a) = []"

definition welcomed :: "asock_server \<Rightarrow> world \<Rightarrow> int \<Rightarrow> byte list \<Rightarrow> asock_server \<Rightarrow> world \<Rightarrow> bool" where
  "welcomed e w infd peer e' w' \<longleftrightarrow>
     owner_ok e' w' \<and> same_but_tables e e' \<and> accepted (w_log w') = accepted (w_log w)
     \<and> (\<forall>d. traffic d (w_log w') = traffic d (w_log w)) \<and>
     ((\<exists>p a. w_asocks w p = None \<and> newcomer e infd peer a \<and> w_asocks w' = (w_asocks w)(p \<mapsto> a)
         \<and> cons_of e' = cons_of e @ [p] \<and> news_of e' = news_of e @ [p])
      \<or> e' = e \<and> w_asocks w' = w_asocks w \<and> \<not> is_open infd (w_log w'))"

text \<open>The kernel fills in addresses that fit, and epoll takes every descriptor.\<close>

definition admits :: "kernel \<Rightarrow> bool" where
  "admits K \<longleftrightarrow> (\<forall>l fd. length (k_peer K l fd) \<le> SOCKADDR_SIZE)
     \<and> (\<forall>l epolld fd ev. \<exists>r. k_ret K l (Epoll_Add epolld fd ev) = Ret r)"

lemma wp_server_register:
  assumes ok: "owner_ok e w" and K: "alloc_grants (k_malloc K)"
    and p: "w_asocks w p = None" "p \<noteq> 0" and a: "newcomer e infd peer (a\<lparr>m_ref_counter := 2\<rparr>)" "m_ref_counter a = 1"
    and fd: "0 \<le> infd" "infd < 2 ^ 31" "is_open infd (w_log w)"
      "\<forall>q \<in> set (cons_of e) \<union> set (news_of e). fd_of w q \<noteq> infd"
    and w1: "w_log w1 = w_log w" "w_asocks w1 = (w_asocks w)(p \<mapsto> a)"
  shows "wp no_fault (server_publish_connection K p infd)
    (\<lambda>_ (e', w'). welcomed e w infd peer e' w') (e, w1)"
proof -
  have inv: "con_inv (e_connections e)" "con_inv (e_new_connections e)" "\<not> e_new_connections_mutex e"
    and good: "good_set w (set (cons_of e) \<union> set (news_of e))" and dist: "distinct (cons_of e)" "distinct (news_of e)"
    using ok by (auto simp: owner_ok_good_set)
  have small: "length (cons_of e) \<le> 2 ^ 32" "length (news_of e) \<le> 2 ^ 32"
    using owner_small [of e w] ok by (auto simp: owner_ok_def)
  have "\<not> con_ok w p" using p(1) by (simp add: con_ok_def)
  then have new: "p \<notin> set (cons_of e) \<union> set (news_of e)" using good by (auto simp: good_set_def)
  let ?b = "a\<lparr>m_ref_counter := 2\<rparr>"
  have finish: "welcomed e w infd peer (e\<lparr>e_connections := v, e_new_connections := v', e_new_connections_mutex := False\<rparr>) w2"
    if v: "con_inv v" "con_ptrs v = cons_of e @ [p]" "con_inv v'" "con_ptrs v' = news_of e @ [p]"
      and w2: "w_log w2 = w_log w" "w_asocks w2 = (w_asocks w)(p \<mapsto> ?b)" for v v' w2
  proof -
    let ?S = "set (cons_of e) \<union> set (news_of e)"
      and ?e' = "e\<lparr>e_connections := v, e_new_connections := v', e_new_connections_mutex := False\<rparr>"
    have cs: "cons_of ?e' = cons_of e @ [p]" "news_of ?e' = news_of e @ [p]" using v by (simp_all add: cons_of_def news_of_def)
    have b: "m_sock_desc a = infd" "asock_ok ?b" using a(1) by (simp_all add: newcomer_def)
    have "good_set w2 ?S" by (rule good_set_frame [OF good new]) (use w2 in auto)
    then have "good_set w2 (insert p ?S)"
    proof (rule good_set_insert)
      show "con_ok w2 p" "asock_ok (the (w_asocks w2 p))" using w2 fd p(2) b by (simp_all add: con_ok_def)
      show "\<forall>q \<in> ?S. fd_of w2 q \<noteq> fd_of w2 p" using w2 fd(4) new b(1) by (auto simp: fd_of_def)
    qed
    moreover have "set (cons_of ?e') \<union> set (news_of ?e') = insert p ?S" unfolding cs by auto
    ultimately have "owner_ok ?e' w2"
      unfolding owner_ok_good_set using v dist new unfolding cs by simp
    moreover have "same_but_tables e ?e'" using inv(3) by (simp add: same_but_tables_def)
    ultimately show ?thesis
      unfolding welcomed_def using p(1) a(1) w2 unfolding cs by (intro conjI disjI1 exI [of _ p] exI [of _ ?b]) simp_all
  qed
  have inc: "a\<lparr>m_ref_counter := m_ref_counter a + 1\<rparr> = ?b" using a(2) by simp
  have push2: "wp no_fault (bindM (push_new_connection K p) (\<lambda>r.
      if r = ASOCK_FAILURE
      then bindM (getE (\<lambda>e. asock_connections_size (e_connections e))) (\<lambda>sz.
           bindM (erase_connection (sz - 1)) (\<lambda>_.
           clearing_after_failure K p infd))
      else thenM unlock_new (liftW (asock_con_counter_incr p))))
    (\<lambda>_ (e', w'). welcomed e w infd peer e' w') (e\<lparr>e_connections := v, e_new_connections_mutex := True\<rparr>, w2)"
    if v: "con_inv v" "con_ptrs v = cons_of e @ [p]" and w2: "w_log w2 = w_log w" "w_asocks w2 = (w_asocks w)(p \<mapsto> a)"
    for v w2
    unfolding wp_bind
  proof (rule wp_push_new_connection)
    show "con_inv (e_new_connections (e\<lparr>e_connections := v, e_new_connections_mutex := True\<rparr>))" using inv by simp
    show "alloc_grants (k_malloc K)" by (rule K)
    show "length (news_of (e\<lparr>e_connections := v, e_new_connections_mutex := True\<rparr>)) \<le> 2 ^ 32"
      using small by (simp add: news_of_def)
    fix v' assume v': "con_inv v'" "con_ptrs v' = news_of (e\<lparr>e_connections := v, e_new_connections_mutex := True\<rparr>) @ [p]"
    have ptrs: "con_ptrs v' = news_of e @ [p]" using v'(2) by (simp add: news_of_def)
    let ?w3 = "w2\<lparr>w_allocs := w_allocs w2 + 1, w_asocks := (w_asocks w)(p \<mapsto> ?b)\<rparr>"
    have "welcomed e w infd peer (e\<lparr>e_connections := v, e_new_connections := v', e_new_connections_mutex := False\<rparr>) ?w3"
      using finish [OF v v'(1) ptrs] w2 by simp
    then show "wp no_fault (if ASOCK_SUCCESS = ASOCK_FAILURE
      then bindM (getE (\<lambda>e. asock_connections_size (e_connections e))) (\<lambda>sz.
           bindM (erase_connection (sz - 1)) (\<lambda>_.
           clearing_after_failure K p infd))
      else thenM unlock_new (liftW (asock_con_counter_incr p))) (\<lambda>_ (e', w'). welcomed e w infd peer e' w')
      (e\<lparr>e_connections := v, e_new_connections_mutex := True, e_new_connections := v'\<rparr>, w2\<lparr>w_allocs := w_allocs w2 + 1\<rparr>)"
      using p(2) w2(2) inc by (simp add: return_code_defs asock_con_counter_incr_def wp_simps)
  qed
  show ?thesis
    unfolding server_publish_connection_def wp_bind
    by (rule wp_push_connection [OF inv(1) K small(1)])
      (use inv(3) w1 push2 in \<open>simp add: return_code_defs wp_then wp_lock_new\<close>)
qed

lemma welcomed_log: "welcomed e (w\<lparr>w_log := l\<rparr>) infd peer e' w' \<Longrightarrow> accepted l = accepted (w_log w) \<Longrightarrow>
    (\<And>d. traffic d l = traffic d (w_log w)) \<Longrightarrow> welcomed e w infd peer e' w'"
  by (simp add: welcomed_def)

lemma newcomer_made:
  assumes "fresh_asock infd n a"
  shows "newcomer e infd peer (a\<lparr>m_master_id := e_id e, m_state := Established, m_peer_addr := Some peer,
    m_peer_addrlen := of_nat (length peer), m_ref_counter := 2\<rparr>)"
  using assms by (simp add: newcomer_def fresh_asock_def asock_ok_def)

text \<open>Lines 788 to 790 when there is no object.\<close>

lemma wp_clearing_null:
  "wp F (clearing_after_failure K 0 infd) Q (e, w) =
    Q () (e, w\<lparr>w_log := (Close infd, k_ret K (w_log w) (Close infd)) # w_log w\<rparr>)"
  by (simp add: clearing_after_failure_def asock_destroy_asock_def wp_simps)

lemma wp_server_make_connection:
  assumes ok: "owner_ok e w" and K: "kernel_ok K" "alloc_grants (k_malloc K)"
    and peer: "length peer \<le> SOCKADDR_SIZE"
    and fd: "0 \<le> infd" "infd < 2 ^ 31" "is_open infd (w_log w)"
      "\<forall>q \<in> set (cons_of e) \<union> set (news_of e). fd_of w q \<noteq> infd"
  shows "wp no_fault (server_make_connection K infd peer) (\<lambda>_ (e', w'). welcomed e w infd peer e' w') (e, w)"
    (is "wp _ _ ?post _")
proof -
  let ?len = "of_nat (length peer) :: socklen_t"
  have len: "unat (ucast ?len :: size_t) = length peer" and tk: "take SOCKADDR_SIZE peer = peer"
  proof -
    have "length peer < 2 ^ 32" using peer by (simp add: SOCKADDR_SIZE_def)
    then show "unat (ucast ?len :: size_t) = length peer"
      by (simp add: unsigned_ucast_eq unsigned_of_nat take_bit_nat_eq_self)
  qed (use peer in simp)
  show ?thesis unfolding server_make_connection_def Let_def
  proof (subst wp_bind, subst wp_liftW, rule wp_mono [OF asock_fcreate_asock_spec [OF K(1)]])
    fix p w3
    assume made: "(p = 0 \<and> w3 = w\<lparr>w_allocs := w_allocs w3\<rparr>)
      \<or> (p \<noteq> 0 \<and> w_asocks w p = None \<and> fresh_asock infd (w_cons_number w) (the (w_asocks w3 p))
       \<and> w3 = w\<lparr>w_allocs := w_allocs w3, w_asocks := (w_asocks w)(p \<mapsto> the (w_asocks w3 p)),
             w_cons_number := w_cons_number w + 1\<rparr>)"
    show "wp no_fault (if p = 0 then clearing_after_failure K p infd
      else bindM (getE e_id) (\<lambda>n.
      thenM (liftW (update_asock p (\<lambda>a. a\<lparr>m_master_id := n, m_state := Established\<rparr>))) (
      bindM (liftW (malloc K (ucast ?len))) (\<lambda>peer_addr.
      thenM (liftW (update_asock p (\<lambda>a. a\<lparr>m_peer_addr := peer_addr\<rparr>))) (
      if peer_addr = None then clearing_after_failure K p infd
      else bindM (liftR (\<lambda>_. mem_copy peer_addr 0 (Some (take SOCKADDR_SIZE peer)) 0 (ucast ?len))) (\<lambda>peer_addr.
      thenM (liftW (update_asock p (\<lambda>a. a\<lparr>m_peer_addr := peer_addr, m_peer_addrlen := ?len\<rparr>)))
            (server_publish_connection K p infd))))))) ?post (e, w3)"
    proof (cases "p = 0")
      case True
      then obtain n where w3: "w3 = w\<lparr>w_allocs := n\<rparr>" using made by auto
      define w4 where "w4 = w3\<lparr>w_log := (Close infd, k_ret K (w_log w) (Close infd)) # w_log w\<rparr>"
      have same: "w_asocks w4 = w_asocks w" "is_open d (w_log w4) = (d \<noteq> infd \<and> is_open d (w_log w))" for d
        by (auto simp: w4_def w3)
      then have f4: "fd_of w4 = fd_of w" by (simp add: fd_of_def fun_eq_iff)
      have "con_ok w4 x" if "con_ok w x" "fd_of w x \<noteq> infd" for x
        using that same by (auto simp: con_ok_def fd_of_def)
      then have "good_set w4 (set (cons_of e) \<union> set (news_of e))"
        using ok fd(4) same(1) unfolding owner_ok_good_set good_set_def f4 by simp
      then have "owner_ok e w4" using ok by (simp add: owner_ok_good_set)
      then have "welcomed e w infd peer e w4" by (simp add: welcomed_def w4_def w3)
      then show ?thesis using True w3 by (simp add: wp_clearing_null w4_def)
    next
      case False
      define a where "a = the (w_asocks w3 p)"
      obtain n k where w3: "w3 = w\<lparr>w_allocs := n, w_asocks := (w_asocks w)(p \<mapsto> a), w_cons_number := k\<rparr>"
        using made False by (auto simp: a_def)
      have p: "w_asocks w p = None" "fresh_asock infd (w_cons_number w) a" using made False by (simp_all add: a_def)
      obtain d where d: "k_malloc K n (ucast ?len) = Some d" "mem_copy (Some d) 0 (Some peer) 0 (ucast ?len) = Inr (Some peer)"
        using mem_copy_address [OF K(2), of peer "ucast ?len" n] len peer by (auto simp: SOCKADDR_SIZE_def PTRDIFF_MAX_def)
      let ?a5 = "a\<lparr>m_master_id := e_id e, m_state := Established, m_peer_addr := Some peer, m_peer_addrlen := ?len\<rparr>"
      have "wp no_fault (server_publish_connection K p infd) ?post
          (e, w\<lparr>w_cons_number := k, w_allocs := Suc n, w_asocks := (w_asocks w)(p \<mapsto> ?a5)\<rparr>)"
      proof (rule wp_server_register [OF ok K(2) p(1) False _ _ fd, where a = ?a5])
        show "newcomer e infd peer (?a5\<lparr>m_ref_counter := 2\<rparr>)" using newcomer_made [OF p(2)] .
        show "m_ref_counter ?a5 = 1" using p(2) by (simp add: fresh_asock_def)
      qed simp_all
      then show ?thesis using False d by (simp add: w3 tk wp_simps)
    qed
  qed
qed

lemma wp_epoll_admitted:
  assumes "admits K"
  shows "wp F (add_socket_to_epoll_server K epolld infd)
      (\<lambda>s w'. s = 0 \<and> quiet (w_log w) (w_log w') \<and> w' = w\<lparr>w_log := w_log w'\<rparr>) w"
proof -
  obtain r where "k_ret K (w_log w) (Epoll_Add epolld infd (or EPOLLIN EPOLLET)) = Ret r"
    using assms unfolding admits_def by blast
  then show ?thesis by (simp add: add_socket_to_epoll_server_def wp_simps quiet_def)
qed

lemma wp_server_add_connection:
  assumes ok: "owner_ok e w" and K: "kernel_ok K" "alloc_grants (k_malloc K)" "admits K"
    and peer: "length peer \<le> SOCKADDR_SIZE"
    and fd: "0 \<le> infd" "infd < 2 ^ 31" "is_open infd (w_log w)"
      "\<forall>q \<in> set (cons_of e) \<union> set (news_of e). fd_of w q \<noteq> infd"
  shows "wp no_fault (server_add_connection K infd peer) (\<lambda>_ (e', w'). welcomed e w infd peer e' w') (e, w)"
    (is "wp _ _ ?post _")
proof -
  have make: "wp no_fault (server_make_connection K infd peer) ?post (e, w2)"
    if "quiet (w_log w) (w_log w2)" "w2 = w\<lparr>w_log := l\<rparr>" for w2 l
  proof -
    have q: "quiet (w_log w) l" using that by simp
    have ok2: "owner_ok e w2" using progress_log [OF ok q] that(2) by (simp add: progress_def)
    have "is_open infd (w_log w2)" "fd_of w2 = fd_of w" using q fd(3) that(2) by (simp_all add: quiet_def fd_of_def fun_eq_iff)
    then have "wp no_fault (server_make_connection K infd peer) (\<lambda>_ (e', w'). welcomed e w2 infd peer e' w') (e, w2)"
      using wp_server_make_connection [OF ok2 K(1,2) peer fd(1,2)] fd(4) by simp
    then show ?thesis
      by (rule wp_mono) (use welcomed_log q that(2) in \<open>auto simp: quiet_def\<close>)
  qed
  have epoll: "wp no_fault (add_socket_to_epoll_server K epolld infd)
      (\<lambda>s w2. wp no_fault (if s = - 1 then failM Aborted_Process else server_make_connection K infd peer) ?post (e, w2)) w1"
    if w1: "quiet (w_log w) (w_log w1)" "w1 = w\<lparr>w_log := w_log w1\<rparr>" for epolld w1
  proof (rule wp_mono [OF wp_epoll_admitted [OF K(3)]], elim conjE)
    fix s :: int and w2 assume w2: "s = 0" "quiet (w_log w1) (w_log w2)" "w2 = w1\<lparr>w_log := w_log w2\<rparr>"
    have "quiet (w_log w) (w_log w2)" using w1(1) w2(2) by (simp add: quiet_def)
    moreover have "w2 = w\<lparr>w_log := w_log w2\<rparr>" using w1(2) w2(3) by (metis world.update_convs(1) world.surjective)
    ultimately have "wp no_fault (server_make_connection K infd peer) ?post (e, w2)" by (rule make)
    then show "wp no_fault (if s = - 1 then failM Aborted_Process else server_make_connection K infd peer) ?post (e, w2)"
      using w2(1) by simp
  qed
  show ?thesis
    unfolding server_add_connection_def
  proof (subst wp_bind, subst wp_liftW, rule wp_mono [OF wp_make_socket_non_blocking], elim conjE)
    fix s w1
    assume s: "s = ASOCK_SUCCESS \<or> s = ASOCK_FAILURE" and w1: "quiet (w_log w) (w_log w1)" "w1 = w\<lparr>w_log := w_log w1\<rparr>"
    have "s \<noteq> - 1" using s by (auto simp: return_code_defs)
    then show "wp no_fault (if s = - 1 then failM Aborted_Process
     else bindM (getE e_epoll_desc) (\<lambda>epolld.
     bindM (liftW (add_socket_to_epoll_server K epolld infd)) (\<lambda>s.
     if s = - 1 then failM Aborted_Process else server_make_connection K infd peer))) ?post (e, w1)"
      using epoll [OF w1] by (simp only: if_False wp_bind wp_getE wp_liftW)
  qed
qed

section \<open>Accepting\<close>

text \<open>Since the server was \<open>e\<close> and the world \<open>w\<close>: the connections of then that are still in the table
  carry their data, the others have been accepted since, and the application, which refers to all of
  them, still finds every object in order.\<close>

definition keeping :: "kernel \<Rightarrow> asock_server \<Rightarrow> world \<Rightarrow> asock_server \<Rightarrow> world \<Rightarrow> bool" where
  "keeping K e w e' w' \<longleftrightarrow>
     (\<forall>p \<in> set (cons_of e'). if p \<in> set (cons_of e) then \<exists>n. carried K n w p w' else w_asocks w p = None)
     \<and> (\<forall>p. p \<notin> set (cons_of e) \<longrightarrow> w_asocks w p \<noteq> None \<longrightarrow> w_asocks w' p = w_asocks w p)
     \<and> (\<forall>p \<in> set (cons_of e). lasts w p w' \<and> m_ref_counter (the (w_asocks w p)) \<noteq> 1)"

lemma keeping_progress:
  assumes k: "keeping K e w e1 w1" and p: "progress K e1 w1 n e2 w2"
  shows "keeping K e w e2 w2"
proof -
  have "if q \<in> set (cons_of e) then \<exists>n. carried K n w q w2 else w_asocks w q = None" if "q \<in> set (cons_of e2)" for q
  proof -
    have "q \<in> set (cons_of e1)" "carried K n w1 q w2" using p that by (auto simp: progress_def)
    then show ?thesis using k carried_trans unfolding keeping_def by metis
  qed
  moreover have "w_asocks w2 q = w_asocks w q" if "q \<notin> set (cons_of e)" "w_asocks w q \<noteq> None" for q
  proof -
    have "q \<notin> set (cons_of e1)" "w_asocks w1 q = w_asocks w q" using k that unfolding keeping_def by metis+
    with p show ?thesis by (simp add: progress_def)
  qed
  moreover have "lasts w q w2" if q: "q \<in> set (cons_of e)" for q
  proof (cases "q \<in> set (cons_of e1)")
    case True
    then obtain m where "carried K m w q w1" using k q unfolding keeping_def by meson
    then have "m_ref_counter (the (w_asocks w1 q)) \<noteq> 1" using k q by (simp add: carried_def keeping_def)
    with True p have "lasts w1 q w2" by (simp add: progress_def)
    with k q show ?thesis by (auto simp: keeping_def intro: lasts_trans)
  next
    case False
    with k p q show ?thesis by (simp add: progress_def keeping_def lasts_def)
  qed
  ultimately show ?thesis using k by (simp add: keeping_def)
qed

lemma keeping_step:
  assumes k: "keeping K e w e1 w1" and sent: "\<And>d. traffic d (w_log w2) = traffic d (w_log w1)"
    and same: "\<And>q. w_asocks w1 q \<noteq> None \<Longrightarrow> w_asocks w2 q = w_asocks w1 q"
    and tables: "\<And>q. q \<in> set (cons_of e2) \<Longrightarrow> q \<in> set (cons_of e1) \<or> w_asocks w1 q = None"
    and live: "\<And>q. q \<in> set (cons_of e1) \<Longrightarrow> w_asocks w1 q \<noteq> None"
  shows "keeping K e w e2 w2"
proof -
  have "if q \<in> set (cons_of e) then \<exists>n. carried K n w q w2 else w_asocks w q = None" if "q \<in> set (cons_of e2)" for q
  proof (cases "q \<in> set (cons_of e1)")
    case True
    then have "carried K 0 w1 q w2" using live same by (intro carriedI) (simp_all add: trafficD [OF sent])
    with k True show ?thesis using carried_trans unfolding keeping_def by metis
  next
    case False
    then have "w_asocks w1 q = None" using tables [OF that] by blast
    moreover from this k have "q \<notin> set (cons_of e)" by (auto simp: keeping_def dest: lasts_live)
    ultimately show ?thesis using k unfolding keeping_def by metis
  qed
  moreover have "w_asocks w2 q = w_asocks w q" if "q \<notin> set (cons_of e)" "w_asocks w q \<noteq> None" for q
    using k same that unfolding keeping_def by metis
  moreover have "lasts w q w2" if "q \<in> set (cons_of e)" for q
    using k same [of q] that by (auto simp: keeping_def lasts_def)
  ultimately show ?thesis using k by (simp add: keeping_def)
qed

text \<open>The invariant of a server between events: well-formed, what the application has not accepted
  yet is in the table of connections too, no connection is the server's alone, and the input queues
  have room for \<open>n\<close> more bytes.\<close>

definition referred :: "'a endpoint_scheme \<Rightarrow> world \<Rightarrow> bool" where
  "referred e w \<longleftrightarrow> (\<forall>p \<in> set (cons_of e). m_ref_counter (the (w_asocks w p)) \<noteq> 1)"

lemma referred_progress:
  assumes "referred e w" "progress K e w n e' w'"
  shows "referred e' w'"
  unfolding referred_def
proof
  fix p assume "p \<in> set (cons_of e')"
  then have "p \<in> set (cons_of e)" "carried K n w p w'" using assms(2) by (auto simp: progress_def)
  with assms(1) show "m_ref_counter (the (w_asocks w' p)) \<noteq> 1" by (simp add: referred_def carried_def)
qed

definition serving :: "kernel \<Rightarrow> asock_server \<Rightarrow> world \<Rightarrow> nat \<Rightarrow> asock_server \<Rightarrow> world \<Rightarrow> bool" where
  "serving K e w n e' w' \<longleftrightarrow>
     owner_ok e' w' \<and> same_but_tables e e' \<and> set (news_of e') \<subseteq> set (cons_of e') \<and> roomy e' w' n
     \<and> referred e' w' \<and> keeping K e w e' w'"

lemma serving_mono: "serving K e w n e' w' \<Longrightarrow> m \<le> n \<Longrightarrow> serving K e w m e' w'"
  unfolding serving_def by (blast intro: roomy_less)

lemma serving_progress:
  assumes sv: "serving K e w (k + n) e1 w1" and p: "progress K e1 w1 k e2 w2"
  shows "serving K e w n e2 w2"
proof -
  have k: "keeping K e w e1 w1" and r: "referred e1 w1" and room: "roomy e1 w1 (k + n)" and same: "same_but_tables e e1"
    using sv by (simp_all add: serving_def)
  have "same_but_tables e1 e2" using p by (simp add: progress_def)
  with same have "same_but_tables e e2" by (rule same_but_tables_trans)
  with keeping_progress [OF k p] referred_progress [OF r p] roomy_progress [OF room p] sv p show ?thesis
    by (simp add: serving_def progress_def)
qed

lemma serving_welcomed:
  assumes "serving K e w n e1 w1" "welcomed e1 w1 infd peer e2 w2" "n \<le> 2 ^ 62"
  shows "serving K e w n e2 w2"
proof -
  have s: "owner_ok e2 w2" "same_but_tables e e2"
    using assms(1,2) same_but_tables_trans [of e e1 e2] by (auto simp: serving_def welcomed_def)
  have room: "waiting w1 p + n \<le> 2 ^ 62" if "p \<in> set (cons_of e1)" for p
    using assms(1) that by (simp add: serving_def roomy_def)
  have live: "w_asocks w1 q \<noteq> None" if "q \<in> set (cons_of e1)" for q
    using assms(1) owner_live [OF _ that, of w1] by (simp add: serving_def)
  consider p a where "w_asocks w1 p = None" "newcomer e1 infd peer a" "w_asocks w2 = (w_asocks w1)(p \<mapsto> a)"
      "cons_of e2 = cons_of e1 @ [p]" "news_of e2 = news_of e1 @ [p]"
    | "e2 = e1" "w_asocks w2 = w_asocks w1"
    using assms(2) unfolding welcomed_def by blast
  then show ?thesis
  proof cases
    case 1
    have "keeping K e w e2 w2"
      by (rule keeping_step [of K e w e1 w1]) (use 1 assms(1,2) live in \<open>auto simp: serving_def welcomed_def\<close>)
    note s = s this
    have "waiting w2 q = (if q = p then 0 else waiting w1 q)" for q
      using 1 by (simp add: waiting_def newcomer_def)
    then have "roomy e2 w2 n" using 1 room assms(3) by (auto simp: roomy_def)
    moreover have "referred e2 w2" using 1 assms(1) by (auto simp: referred_def serving_def newcomer_def)
    ultimately have "roomy e2 w2 n" "referred e2 w2" .
    with s 1 assms(1) show ?thesis by (auto simp: serving_def)
  next
    case 2
    have "keeping K e w e2 w2"
      by (rule keeping_step [of K e w e1 w1]) (use 2 assms(1,2) live in \<open>auto simp: serving_def welcomed_def\<close>)
    note s = s this
    have "roomy e2 w2 n" "referred e2 w2"
      using room 2 assms(1) by (simp_all add: roomy_def waiting_def referred_def serving_def)
    with s 2 assms(1) show ?thesis by (auto simp: serving_def)
  qed
qed

lemma serving_log:
  assumes "serving K e w n e1 w1" "owner_ok e1 (w1\<lparr>w_log := l\<rparr>)" "\<And>d. traffic d l = traffic d (w_log w1)"
  shows "serving K e w n e1 (w1\<lparr>w_log := l\<rparr>)"
proof -
  have "w_asocks w1 q \<noteq> None" if "q \<in> set (cons_of e1)" for q using owner_live [OF assms(2) that] by simp
  note live = this
  have "keeping K e w e1 (w1\<lparr>w_log := l\<rparr>)"
    by (rule keeping_step [of K e w e1 w1]) (use assms(1,3) live in \<open>simp_all add: serving_def\<close>)
  then show ?thesis using assms(1,2) by (simp add: serving_def roomy_def waiting_def referred_def)
qed

text \<open>A kernel that hands out at most \<open>limit\<close> connections.\<close>

definition arrivals_end :: "nat \<Rightarrow> kernel \<Rightarrow> bool" where
  "arrivals_end limit K \<longleftrightarrow> (\<forall>l sock_d. limit \<le> accepted l \<longrightarrow> (\<exists>errno. k_ret K l (Accept sock_d) = Err errno))"

lemma good_set_log:
  "good_set w S \<Longrightarrow> (\<And>d. is_open d (w_log w) \<Longrightarrow> is_open d l) \<Longrightarrow> good_set (w\<lparr>w_log := l\<rparr>) S"
  unfolding good_set_def by (auto simp: con_ok_def fd_of_def inj_on_def)

lemma wp_server_accept_all:
  assumes K: "kernel_ok K" "alloc_grants (k_malloc K)" "admits K" "arrivals_end limit K" and n: "n \<le> 2 ^ 62"
  shows "serving K e w n e1 w1 \<Longrightarrow> 0 < fuel \<Longrightarrow> limit < accepted (w_log w1) + fuel \<Longrightarrow>
    wp no_fault (server_accept_all fuel K) (\<lambda>_ (e', w'). serving K e w n e' w') (e1, w1)"
proof (induction fuel arbitrary: e1 w1)
  case (Suc fuel)
  let ?c = "Accept (m_server_socket e1)" and ?peer = "k_peer K (w_log w1) (m_server_socket e1)"
  have ok: "owner_ok e1 w1" using Suc.prems(1) by (simp add: serving_def)
  show ?case
  proof (cases "k_ret K (w_log w1) ?c")
    case (Err errno)
    have "owner_ok e1 (w1\<lparr>w_log := (?c, Err errno) # w_log w1\<rparr>)"
      using progress_log [OF ok, of "(?c, Err errno) # w_log w1"] by (simp add: quiet_def progress_def)
    then have "serving K e w n e1 (w1\<lparr>w_log := (?c, Err errno) # w_log w1\<rparr>)"
      by (intro serving_log [OF Suc.prems(1)]) simp_all
    with Err show ?thesis by (simp add: wp_simps)
  next
    case (Ret infd)
    let ?w2 = "w1\<lparr>w_log := (?c, Ret infd) # w_log w1\<rparr>"
    have fd: "0 \<le> infd" "infd < 2 ^ 31" "\<not> is_open infd (w_log w1)" using kernel_okD(1) [OF K(1) _ Ret] by auto
    have good: "good_set w1 (set (cons_of e1) \<union> set (news_of e1))" using ok by (simp add: owner_ok_good_set)
    have ok2: "owner_ok e1 ?w2"
      using ok good_set_log [OF good, of "(?c, Ret infd) # w_log w1"] by (simp add: owner_ok_good_set)
    have other: "\<forall>q \<in> set (cons_of e1) \<union> set (news_of e1). fd_of ?w2 q \<noteq> infd"
    proof
      fix q assume "q \<in> set (cons_of e1) \<union> set (news_of e1)"
      then have "con_ok w1 q" using good unfolding good_set_def by blast
      then have "is_open (fd_of w1 q) (w_log w1)" by (auto elim: con_okE)
      then show "fd_of ?w2 q \<noteq> infd" using fd(3) by (auto simp: fd_of_def)
    qed
    have sv2: "serving K e w n e1 ?w2" by (rule serving_log [OF Suc.prems(1) ok2]) simp
    have peer: "length ?peer \<le> SOCKADDR_SIZE" using K(3) by (simp add: admits_def)
    have "\<not> limit \<le> accepted (w_log w1)" using K(4) Ret unfolding arrivals_end_def by (metis sysres.distinct(1))
    then have fuel: "0 < fuel" "limit < accepted (w_log ?w2) + fuel" using Suc.prems(3) by auto
    have "wp no_fault (server_add_connection K infd ?peer)
        (\<lambda>_ s. wp no_fault (server_accept_all fuel K) (\<lambda>_ (e', w'). serving K e w n e' w') s) (e1, ?w2)"
    proof (rule wp_mono [OF wp_server_add_connection [OF ok2 K(1-3) peer fd(1,2) _ other]])
      fix x s assume "case s of (e', w') \<Rightarrow> welcomed e1 ?w2 infd ?peer e' w'"
      then obtain e3 w3 where s: "s = (e3, w3)" and w: "welcomed e1 ?w2 infd ?peer e3 w3" by (cases s) auto
      have "limit < accepted (w_log w3) + fuel" using fuel(2) w by (simp add: welcomed_def)
      from Suc.IH [OF serving_welcomed [OF sv2 w n] fuel(1) this]
      show "wp no_fault (server_accept_all fuel K) (\<lambda>_ (e', w'). serving K e w n e' w') s" by (simp add: s)
    qed simp
    with Ret show ?thesis by (simp add: wp_simps)
  qed
qed simp

section \<open>A round of the server\<close>

lemma wp_server_handle_event:
  assumes K: "kernel_ok K" "alloc_grants (k_malloc K)" "admits K" "arrivals_end limit K" "drains fuel K"
    and fuel: "limit < fuel" and fd: "0 \<le> fd" and n: "fuel * BUF_SIZE + n \<le> 2 ^ 62"
    and sv: "serving K e w (fuel * BUF_SIZE + n) e1 w1"
  shows "wp no_fault (server_handle_event fuel K (fd, ev)) (\<lambda>_ (e', w'). serving K e w n e' w') (e1, w1)"
proof -
  have ok: "owner_ok e1 w1" using sv by (simp add: serving_def)
  have close: "wp no_fault (asock_service_close_connection K fd) (\<lambda>_ (e', w'). serving K e w n e' w') (e1, w1)"
    by (rule wp_mono [OF wp_close_any [OF ok fd]])
      (use serving_progress [of K e w 0 n e1 w1] serving_mono [OF sv] in auto)
  have accept: "wp no_fault (server_accept_all fuel K) (\<lambda>_ (e', w'). serving K e w n e' w') (e1, w1)"
    by (rule wp_server_accept_all [OF K(1-4) _ serving_mono [OF sv]]) (use fuel n in auto)
  have "\<forall>p \<in> set (cons_of e1). waiting w1 p + fuel * BUF_SIZE \<le> 2 ^ 62"
    using serving_mono [OF sv, of "fuel * BUF_SIZE"] by (simp add: serving_def roomy_def)
  moreover have "incoming fuel K fd (w_log w1) \<noteq> None" using K(5) by (simp add: drains_def)
  ultimately have "wp no_fault (read_all_data fuel K fd)
      (\<lambda>_ (e', w'). progress K e1 w1 (fuel * BUF_SIZE) e' w') (e1, w1)"
    by (intro wp_read_any [OF K(1,2) ok fd])
  then have read: "wp no_fault (read_all_data fuel K fd) (\<lambda>_ (e', w'). serving K e w n e' w') (e1, w1)"
    by (rule wp_mono) (use serving_progress [OF sv] in auto)
  show ?thesis
    using close accept read
    by (simp add: server_handle_event_def asock_server_close_connection_def wp_bind wp_getE wp_return_fun)
qed

lemma wp_server_events:
  assumes K: "kernel_ok K" "alloc_grants (k_malloc K)" "admits K" "arrivals_end limit K" "drains fuel K"
    and fuel: "limit < fuel" "MAX_EVENTS * (fuel * BUF_SIZE) + m \<le> 2 ^ 62"
    and evs: "length events \<le> MAX_EVENTS" "\<forall>(fd, ev) \<in> set events. 0 \<le> fd"
    and sv: "serving K e w (MAX_EVENTS * (fuel * BUF_SIZE) + m) e1 w1"
  shows "wp no_fault (foreachM (server_handle_event fuel K) events) (\<lambda>_ (e', w'). serving K e w m e' w') (e1, w1)"
proof -
  let ?n = "fuel * BUF_SIZE"
  let ?I = "\<lambda>done (e', w'). serving K e w ((MAX_EVENTS - length done) * ?n + m) e' w'"
  have "wp no_fault (foreachM (server_handle_event fuel K) events) (\<lambda>_. ?I events) (e1, w1)"
  proof (rule wp_foreachM)
    show "?I [] (e1, w1)" using sv by simp
    fix evs' x todo s
    assume split: "events = evs' @ x # todo" and "?I evs' s"
    then obtain e2 w2 where s: "s = (e2, w2)" and sv2: "serving K e w ((MAX_EVENTS - length evs') * ?n + m) e2 w2"
      by (cases s) auto
    have "MAX_EVENTS - length evs' = Suc (MAX_EVENTS - length (evs' @ [x]))" using split evs(1) by simp
    then have m: "(MAX_EVENTS - length evs') * ?n + m = ?n + ((MAX_EVENTS - length (evs' @ [x])) * ?n + m)" by simp
    have "(MAX_EVENTS - length evs') * ?n \<le> MAX_EVENTS * ?n" by (rule mult_le_mono1) simp
    then have b: "?n + ((MAX_EVENTS - length (evs' @ [x])) * ?n + m) \<le> 2 ^ 62" using fuel(2) m by linarith
    have "0 \<le> fst x" using evs(2) split by (cases x) auto
    from wp_server_handle_event [OF K fuel(1) this b sv2 [unfolded m], of "snd x"]
    show "wp no_fault (server_handle_event fuel K x) (\<lambda>_. ?I (evs' @ [x])) s" by (simp add: s)
  qed
  then show ?thesis by (rule wp_mono) (auto elim: serving_mono)
qed

lemma wp_server_update_state:
  assumes K: "kernel_ok K" "alloc_grants (k_malloc K)" "admits K" "arrivals_end limit K" "drains fuel K"
    and fuel: "limit < fuel" "MAX_EVENTS * (fuel * BUF_SIZE) + m \<le> 2 ^ 62"
    and ok: "owner_ok e w" "set (news_of e) \<subseteq> set (cons_of e)"
    and ref: "\<forall>p \<in> set (cons_of e). m_ref_counter (the (w_asocks w p)) \<noteq> 1"
    and room: "\<forall>p \<in> set (cons_of e). waiting w p + (MAX_EVENTS * (fuel * BUF_SIZE) + m) \<le> 2 ^ 62"
  shows "wp no_fault (asock_server_update_state fuel K) (\<lambda>_ (e', w'). serving K e w m e' w') (e, w)"
proof -
  let ?n = "MAX_EVENTS * (fuel * BUF_SIZE) + m" and ?post = "\<lambda>_ (e', w'). serving K e w m e' w'"
  let ?rest = "bindM (getE e_epoll_desc) (\<lambda>epolld.
     bindM (liftW (getsM (\<lambda>w. k_events K (w_log w)))) (\<lambda>events.
     bindM (liftW (syscall K (Epoll_Wait epolld))) (\<lambda>r.
     let n = (case r of Ret n \<Rightarrow> nat n | Err _ \<Rightarrow> 0) in
     foreachM (server_handle_event fuel K) (take n events))))"
  have "keeping K e w e w" using ref owner_lasts [OF ok(1)] by (auto simp: keeping_def)
  then have sv: "serving K e w (0 + ?n) e w" using ok ref room by (simp add: serving_def roomy_def referred_def)
  have events: "wp no_fault ?rest ?post (e3, w3)" if sv3: "serving K e w ?n e3 w3" for e3 w3
  proof -
    let ?c = "Epoll_Wait (e_epoll_desc e3)" and ?evs = "k_events K (w_log w3)"
    let ?w4 = "w3\<lparr>w_log := (?c, k_ret K (w_log w3) ?c) # w_log w3\<rparr>"
    have "owner_ok e3 w3" using sv3 by (simp add: serving_def)
    then have "progress K e3 w3 0 e3 ?w4" by (rule progress_log) (simp add: quiet_def)
    then have sv4: "serving K e w ?n e3 ?w4" using serving_progress [of K e w 0 ?n e3 w3] sv3 by simp
    have "wp no_fault (foreachM (server_handle_event fuel K) (take k ?evs)) ?post (e3, ?w4)" for k
    proof (rule wp_server_events [OF K fuel _ _ sv4])
      show "length (take k ?evs) \<le> MAX_EVENTS" using K(5) by (auto simp: drains_def min_def intro: le_trans)
      show "\<forall>(fd, ev) \<in> set (take k ?evs). 0 \<le> fd" using K(5) by (auto simp: drains_def dest!: in_set_takeD)
    qed
    then show ?thesis by (simp add: wp_simps Let_def)
  qed
  have close: "wp no_fault (thenM (asock_service_check_for_connections_to_close K) ?rest) ?post (e2, w2)"
    if sv2: "serving K e w (0 + ?n) e2 w2" for e2 w2
  proof -
    have "owner_ok e2 w2" "set (news_of e2) \<subseteq> set (cons_of e2)" using sv2 by (simp_all add: serving_def)
    from wp_close_pass [OF this, of no_fault K]
    have "wp no_fault (asock_service_check_for_connections_to_close K) (\<lambda>_ s. wp no_fault ?rest ?post s) (e2, w2)"
      by (rule wp_mono) (use events serving_progress [OF sv2] in auto)
    then show ?thesis by (simp only: wp_then)
  qed
  have sending: "wp no_fault (asock_service_send_unsent_data K)
      (\<lambda>_ s. wp no_fault (thenM (asock_service_check_for_connections_to_close K) ?rest) ?post s) (e, w)"
  proof (rule wp_mono [OF wp_send_pass [OF ok(1) K(1) ref]])
    fix x s assume "case s of (e', w') \<Rightarrow> progress K e w 0 e' w'"
    then obtain e2 w2 where s: "s = (e2, w2)" and p: "progress K e w 0 e2 w2" by (cases s) auto
    have "serving K e w (0 + ?n) e2 w2" using serving_progress [of K e w 0 "0 + ?n", OF _ p] sv by simp
    then show "wp no_fault (thenM (asock_service_check_for_connections_to_close K) ?rest) ?post s"
      unfolding s by (rule close)
  qed
  show ?thesis
    unfolding asock_server_update_state_def server_copies by (subst wp_then) (rule sending)
qed

text \<open>One round of the server's main loop, sending, closing, accepting and receiving together, comes
  to its end without a fault and leaves the server well-formed: its tables hold live connections
  with open descriptors that no two of them share, unlocked queues and a free mutex, and every
  connection that waits for \<open>asock_server_accept\<close> is also served. The kernel must stop delivering
  data and connections within \<open>fuel\<close> calls, memory be granted, epoll take every descriptor, peer
  addresses fit into a \<open>sockaddr\<close>, and the application hold a reference to every connection.\<close>

theorem server_round_keeps_owner:
  assumes "kernel_ok K" "alloc_grants (k_malloc K)" "admits K" "arrivals_end limit K" "drains fuel K"
    and "limit < fuel" "MAX_EVENTS * (fuel * BUF_SIZE) \<le> 2 ^ 62"
    and "owner_ok e w" "set (news_of e) \<subseteq> set (cons_of e)"
    and "\<forall>p \<in> set (cons_of e). m_ref_counter (the (w_asocks w p)) \<noteq> 1"
    and "\<forall>p \<in> set (cons_of e). waiting w p + MAX_EVENTS * (fuel * BUF_SIZE) \<le> 2 ^ 62"
  shows "\<exists>e' w'. asock_server_update_state fuel K (e, w) = Inr ((), (e', w')) \<and> owner_ok e' w'
    \<and> same_but_tables e e' \<and> set (news_of e') \<subseteq> set (cons_of e')"
  using wp_no_faultD [OF wp_server_update_state [where m = 0, unfolded add_0_right, OF assms]] by (auto simp: serving_def)

text \<open>A server with the sample connections and a listening socket 8, and a kernel from which one
  connection can be accepted.\<close>

definition sample_server :: asock_server where
  "sample_server =
     \<lparr>e_connections = sample_table, e_new_connections = sample_table\<lparr>v_size := 0\<rparr>,
      e_new_connections_mutex = False, e_epoll_desc = 5, e_status = Running, e_id = 1,
      e_directive = asock_init_directive, e_net_ns = None, e_net_ns_fd = - 1, e_thread = Looping,
      m_server_socket = 8, m_domain = 2, m_type = 1, m_protocol = 0\<rparr>"

lemma sample_server_tables [simp]: "cons_of sample_server = [4096, 8192]" "news_of sample_server = []"
  using sample_tables by (simp_all add: cons_of_def news_of_def sample_server_def sample_owner_def)

lemma sample_server_ok [simp]: "1 \<le> ref \<Longrightarrow> owner_ok sample_server (sample_world ref gone)"
  using sample_owner_ok(1) [of ref gone]
  unfolding owner_ok_good_set sample_server_tables sample_tables
  by (simp add: sample_server_def sample_owner_def)

definition one_caller :: kernel where
  "one_caller = calm_kernel\<lparr>
     k_ret := (\<lambda>l c. case c of
         Accept s \<Rightarrow> if accepted l = 0 then fresh_fd l else Err EAGAIN
       | Epoll_Wait e \<Rightarrow> Ret 1
       | _ \<Rightarrow> calm_ret l c),
     k_peer := (\<lambda>_ _. replicate 16 0), k_events := (\<lambda>_. [(8, EPOLLIN)])\<rparr>"

lemma one_caller_ok:
  "kernel_ok one_caller" "alloc_grants (k_malloc one_caller)" "admits one_caller" "arrivals_end 1 one_caller"
  "drains 2 one_caller"
proof -
  have r: "0 \<le> r \<and> r < 2 ^ 31 \<and> \<not> is_open r l" if "opens c" "k_ret one_caller l c = Ret r" for l c r
    using that calm_ret_opens [of c l r] fresh_fd_open [of l r]
    by (cases c) (auto simp: one_caller_def split: if_splits)
  then show "kernel_ok one_caller"
    unfolding kernel_ok_def
    by (intro conjI allI impI)
      (use calm_kernel_ok in \<open>auto simp: one_caller_def calm_kernel_def kernel_ok_def split: if_splits\<close>)
  show "alloc_grants (k_malloc one_caller)" by (simp add: one_caller_def calm_kernel_def)
  show "admits one_caller" by (simp add: admits_def one_caller_def calm_kernel_def SOCKADDR_SIZE_def)
  show "arrivals_end 1 one_caller" by (simp add: arrivals_end_def one_caller_def)
  show "drains 2 one_caller" by (simp add: drains_def one_caller_def MAX_EVENTS_def EAGAIN_def eval_nat_numeral)
qed

theorem server_round_keeps_owner_witness:
  "\<exists>e' w'. asock_server_update_state 2 one_caller (sample_server, sample_world 2 False) = Inr ((), (e', w'))
    \<and> owner_ok e' w' \<and> set (news_of e') \<subseteq> set (cons_of e')"
proof -
  have "waiting (sample_world 2 False) p = 2 \<and> m_ref_counter (the (w_asocks (sample_world 2 False) p)) = 2"
    if "p \<in> {4096, 8192}" for p
    using that by (auto simp: waiting_def)
  then show ?thesis
    using server_round_keeps_owner [OF one_caller_ok, of sample_server "sample_world 2 False"]
    by (simp add: MAX_EVENTS_def BUF_SIZE_def) blast
qed

section \<open>Handing connections to the application\<close>

text \<open>A round of the server's main loop loses, repeats and reorders no byte either: a connection
  that was in the table and still is keeps its descriptor, what the kernel took on it during the
  round is exactly what has left the front of its output queue, and what the kernel delivered on it is
  exactly what its input queue has grown by, at the end. Every other connection of the table is an object that did not exist before, and no
  object outside the table is touched.\<close>

theorem server_round_keeps_bytes:
  assumes "kernel_ok K" "alloc_grants (k_malloc K)" "admits K" "arrivals_end limit K" "drains fuel K"
    and "limit < fuel" "MAX_EVENTS * (fuel * BUF_SIZE) \<le> 2 ^ 62"
    and "owner_ok e w" "set (news_of e) \<subseteq> set (cons_of e)"
    and "\<forall>p \<in> set (cons_of e). m_ref_counter (the (w_asocks w p)) \<noteq> 1"
    and "\<forall>p \<in> set (cons_of e). waiting w p + MAX_EVENTS * (fuel * BUF_SIZE) \<le> 2 ^ 62"
  shows "\<exists>e' w'. asock_server_update_state fuel K (e, w) = Inr ((), (e', w'))
    \<and> (\<forall>p \<in> set (cons_of e').
          if p \<in> set (cons_of e)
          then fd_of w' p = fd_of w p
            \<and> sent (fd_of w p) (w_log w') @ out_data w' p = sent (fd_of w p) (w_log w) @ out_data w p
            \<and> (\<exists>bs. in_data w' p = in_data w p @ bs
                \<and> got K (fd_of w p) (w_log w') = got K (fd_of w p) (w_log w) @ bs)
          else w_asocks w p = None)
    \<and> (\<forall>p. p \<notin> set (cons_of e) \<longrightarrow> w_asocks w p \<noteq> None \<longrightarrow> w_asocks w' p = w_asocks w p)"
proof -
  obtain r e' w' where run: "asock_server_update_state fuel K (e, w) = Inr (r, (e', w'))" and k: "keeping K e w e' w'"
    using wp_no_faultD [OF wp_server_update_state [where m = 0, unfolded add_0_right, OF assms]] by (auto simp: serving_def)
  have "if p \<in> set (cons_of e)
      then fd_of w' p = fd_of w p
        \<and> sent (fd_of w p) (w_log w') @ out_data w' p = sent (fd_of w p) (w_log w) @ out_data w p
        \<and> (\<exists>bs. in_data w' p = in_data w p @ bs
                \<and> got K (fd_of w p) (w_log w') = got K (fd_of w p) (w_log w) @ bs)
      else w_asocks w p = None" if "p \<in> set (cons_of e')" for p
  proof (cases "p \<in> set (cons_of e)")
    case True
    with k that have "\<exists>n. carried K n w p w'" unfolding keeping_def by (metis (full_types))
    then obtain n where "carried K n w p w'" ..
    from carried_data [OF this] True show ?thesis by simp
  next
    case False
    with k that show ?thesis by (simp add: keeping_def)
  qed
  then have "\<forall>p \<in> set (cons_of e'). if p \<in> set (cons_of e)
      then fd_of w' p = fd_of w p
        \<and> sent (fd_of w p) (w_log w') @ out_data w' p = sent (fd_of w p) (w_log w) @ out_data w p
        \<and> (\<exists>bs. in_data w' p = in_data w p @ bs
                \<and> got K (fd_of w p) (w_log w') = got K (fd_of w p) (w_log w) @ bs)
      else w_asocks w p = None" by blast
  moreover have "\<forall>p. p \<notin> set (cons_of e) \<longrightarrow> w_asocks w p \<noteq> None \<longrightarrow> w_asocks w' p = w_asocks w p"
    using k unfolding keeping_def by blast
  moreover have "asock_server_update_state fuel K (e, w) = Inr ((), (e', w'))" using run by simp
  ultimately show ?thesis by blast
qed

theorem server_round_keeps_bytes_witness:
  "\<exists>e' w'. asock_server_update_state 2 one_caller (sample_server, sample_world 2 False) = Inr ((), (e', w'))
    \<and> (4096 \<in> set (cons_of e') \<longrightarrow> sent 6 (w_log w') @ out_data w' 4096 = [11, 22])"
proof -
  let ?w = "sample_world 2 False"
  have w: "waiting ?w p = 2 \<and> m_ref_counter (the (w_asocks ?w p)) = 2 \<and> out_data ?w p = [11, 22]" if "p \<in> {4096, 8192}" for p
    using that by (auto simp: waiting_def out_data_def)
  obtain e' w' where r: "asock_server_update_state 2 one_caller (sample_server, ?w) = Inr ((), (e', w'))"
      "\<forall>p \<in> set (cons_of e'). if p \<in> set (cons_of sample_server) then fd_of w' p = fd_of ?w p
            \<and> sent (fd_of ?w p) (w_log w') @ out_data w' p = sent (fd_of ?w p) (w_log ?w) @ out_data ?w p
            \<and> (\<exists>bs. in_data w' p = in_data ?w p @ bs
                \<and> got one_caller (fd_of ?w p) (w_log w') = got one_caller (fd_of ?w p) (w_log ?w) @ bs)
          else w_asocks ?w p = None"
    using server_round_keeps_bytes [OF one_caller_ok, of sample_server ?w] w by (auto simp: MAX_EVENTS_def BUF_SIZE_def)
  have "sent 6 (w_log w') @ out_data w' 4096 = [11, 22]" if "4096 \<in> set (cons_of e')"
    using bspec [OF r(2) that] w [of 4096] by simp
  with r(1) show ?thesis by blast
qed



lemma wp_accept_next:
  assumes "owner_inv e w" "server \<noteq> 0"
  shows "wp no_fault (asock_server_accept server) (\<lambda>r (e', w'). w' = w
    \<and> same_but_tables e e' \<and> e_connections e' = e_connections e \<and> con_inv (e_new_connections e')
    \<and> (case news_of e of [] \<Rightarrow> r = 0 \<and> news_of e' = [] | p # ps \<Rightarrow> r = p \<and> r \<noteq> 0 \<and> news_of e' = ps)) (e, w)"
proof -
  have v: "con_inv (e_new_connections e)" and m: "\<not> e_new_connections_mutex e"
    and ok: "\<forall>p \<in> set (news_of e). con_ok w p" using assms(1) by (simp_all add: owner_inv_def)
  have sz: "asock_connections_size (e_new_connections e) = 0 \<longleftrightarrow> news_of e = []"
    using cons.count_zero [OF v] by (simp add: news_of_def)
  show ?thesis
  proof (cases "news_of e")
    case Nil
    then show ?thesis
      using assms(2) m sz v by (simp add: asock_server_accept_def wp_simps same_but_tables_def)
  next
    case (Cons p ps)
    have p: "p \<noteq> 0" using ok Cons by (auto simp: con_ok_def)
    have len: "0 < length (con_ptrs (e_new_connections e))" "con_ptrs (e_new_connections e) ! 0 = p"
      using Cons by (simp_all add: news_of_def)
    obtain v' where v': "asock_connections_erase (e_new_connections e) 0 = Inr (ASOCK_SUCCESS, v')" "con_inv v'"
        "con_ptrs v' = delete_at 0 (con_ptrs (e_new_connections e))"
      using cons.erase_law [OF v len(1)] by auto
    have at: "asock_connections_at (e_new_connections e) 0 = Inr p"
      using cons.get_law [OF v len(1)] len(2) by simp
    have ps: "con_ptrs v' = ps" using v'(3) Cons by (simp add: news_of_def delete_at_def)
    have "asock_connections_size (e_new_connections e) \<noteq> 0" using sz Cons by simp
    then show ?thesis
      using assms(2) m v' at p Cons ps
      by (simp add: asock_server_accept_def wp_simps connection_at_def erase_new_connection_def same_but_tables_def)
        (simp add: news_of_def)
  qed
qed

text \<open>C18. \<open>asock_server_accept\<close> hands out the accepted connections in the order they came in, each
  once, and null exactly when there is none; it changes nothing else and leaves the mutex free.\<close>

theorem server_accept_in_order:
  assumes "owner_inv e w" "server \<noteq> 0"
  shows "\<exists>r e'. asock_server_accept server (e, w) = Inr (r, (e', w))
    \<and> same_but_tables e e' \<and> e_connections e' = e_connections e \<and> con_inv (e_new_connections e')
    \<and> (case news_of e of [] \<Rightarrow> r = 0 \<and> news_of e' = [] | p # ps \<Rightarrow> r = p \<and> r \<noteq> 0 \<and> news_of e' = ps)"
  using wp_no_faultD [OF wp_accept_next [OF assms]] by auto

text \<open>The sample server with its connections not yet accepted.\<close>

definition unaccepted_server :: asock_server where
  "unaccepted_server = sample_server\<lparr>e_new_connections := sample_table\<rparr>"

lemma unaccepted_tables [simp]: "cons_of unaccepted_server = [4096, 8192]" "news_of unaccepted_server = [4096, 8192]"
  using sample_tables by (simp_all add: cons_of_def news_of_def unaccepted_server_def sample_server_def sample_owner_def)

lemma unaccepted_server_ok [simp]: "1 \<le> ref \<Longrightarrow> owner_ok unaccepted_server (sample_world ref gone)"
  using sample_owner_ok(1) [of ref gone] sample_table_inv(1)
  unfolding owner_ok_good_set unaccepted_tables sample_tables
  by (simp add: unaccepted_server_def sample_server_def sample_owner_def)

theorem server_accept_in_order_witness:
  "\<exists>e'. asock_server_accept 1 (unaccepted_server, sample_world 2 False) = Inr (4096, (e', sample_world 2 False))
    \<and> news_of e' = [8192]"
  using server_accept_in_order [of unaccepted_server "sample_world 2 False" 1] unaccepted_server_ok [of 2 False]
  by (auto simp: owner_ok_def)

section \<open>Failure paths\<close>

lemma connections_push_room:
  assumes "con_inv v" "alloc_ok mem" "v_size v \<noteq> v_capacity v"
  shows "\<exists>v'. asock_connections_push mem v p = Inr (ASOCK_SUCCESS, v') \<and> con_inv v' \<and> con_ptrs v' = con_ptrs v @ [p]"
proof -
  have "vector_inv v" "length (ptr_bytes p) = unat (v_item_size v)" using assms(1) by (simp_all add: con_inv_def CON_PTR_SIZE_def)
  from asock_vector_push_spec [OF this(1) assms(2) this(2)] assms(1,3) show ?thesis
    by (auto simp: asock_connections_push_def con_inv_def con_ptrs_def)
qed

lemma connections_push_refused:
  assumes "con_inv v" "alloc_ok mem" "v_size v = v_capacity v" "\<forall>n. mem 0 n = None"
  shows "asock_connections_push mem v p = Inr (ASOCK_FAILURE, v\<lparr>v_data := None\<rparr>)"
  using assms vector_grow_spec(1) [of v mem]
  by (simp add: con_inv_def asock_connections_push_def asock_vector_push_def)

text \<open>C35. When the second push of a new connection is refused, the server cleans up with the mutex of
  the table of new connections still held, so that the next \<open>asock_server_accept\<close>, and the next
  connection that is closed, wait for ever. The connection's descriptor is closed twice.\<close>

theorem server_refused_push_keeps_mutex:
  assumes "kernel_ok K" "p \<noteq> 0" "w_asocks w p = Some a" "m_ref_counter a = 1" "m_sock_desc a \<noteq> - 1"
    and "con_inv (e_connections e)" "con_inv (e_new_connections e)" "\<not> e_new_connections_mutex e"
    and "v_size (e_connections e) \<noteq> v_capacity (e_connections e)"
    and "v_size (e_new_connections e) = v_capacity (e_new_connections e)"
    and "\<forall>n. k_malloc K (w_allocs w + 1) n = None" "server \<noteq> 0"
  shows "\<exists>e' w'. server_publish_connection K p (m_sock_desc a) (e, w) = Inr ((), (e', w'))
    \<and> cons_of e' = cons_of e \<and> w_asocks w' p = None
    \<and> closes (m_sock_desc a) (w_log w') = closes (m_sock_desc a) (w_log w) + 2
    \<and> e_new_connections_mutex e' \<and> asock_server_accept server (e', w') = Inl Self_Deadlock"
proof -
  note mem = allocator_at_ok [OF assms(1)]
  obtain v where v: "asock_connections_push (allocator_at K w) (e_connections e) p = Inr (ASOCK_SUCCESS, v)"
      "con_inv v" "con_ptrs v = cons_of e @ [p]"
    using connections_push_room [OF assms(6) mem assms(9)] unfolding cons_of_def by blast
  let ?w1 = "w\<lparr>w_allocs := w_allocs w + 1\<rparr>"
  have refused: "asock_connections_push (allocator_at K ?w1) (e_new_connections e) p
      = Inr (ASOCK_FAILURE, (e_new_connections e)\<lparr>v_data := None\<rparr>)"
    by (rule connections_push_refused [OF assms(7) mem assms(10)]) (use assms(11) in \<open>simp add: allocator_at_def\<close>)
  have sz: "asock_connections_size v - 1 = of_nat (length (cons_of e))"
  proof -
    have "asock_connections_size v = 1 + of_nat (length (cons_of e))"
      using cons.count_law [OF v(2)] v(3) of_nat_unat_size [of "asock_connections_size v"] by simp
    then show ?thesis by simp
  qed
  obtain v2 where v2: "asock_connections_erase v (of_nat (length (cons_of e))) = Inr (ASOCK_SUCCESS, v2)" "con_inv v2"
      "con_ptrs v2 = delete_at (length (cons_of e)) (con_ptrs v)"
    using cons.erase_law [OF v(2), of "length (cons_of e)"] v(3) by auto
  have undone: "con_ptrs v2 = cons_of e" using v2(3) v(3) by (simp add: delete_at_def)
  have "wp no_fault (server_publish_connection K p (m_sock_desc a)) (\<lambda>_ (e', w'). cons_of e' = cons_of e
      \<and> w_asocks w' p = None \<and> closes (m_sock_desc a) (w_log w') = closes (m_sock_desc a) (w_log w) + 2
      \<and> e_new_connections_mutex e') (e, w)"
    using v(1) refused assms(2-5,8) v2(1) sz undone
    by (simp add: server_publish_connection_def push_connection_def push_new_connection_def wp_simps
        return_code_defs erase_connection_def clearing_after_failure_def asock_destroy_asock_def)
      (simp add: cons_of_def)
  then obtain e' w' where run: "server_publish_connection K p (m_sock_desc a) (e, w) = Inr ((), (e', w'))"
      "cons_of e' = cons_of e" "w_asocks w' p = None"
      "closes (m_sock_desc a) (w_log w') = closes (m_sock_desc a) (w_log w) + 2" "e_new_connections_mutex e'"
    using wp_no_faultD by fastforce
  moreover have "asock_server_accept server (e', w') = Inl Self_Deadlock"
    using run(5) assms(12) by (simp add: asock_server_accept_def lock_new_def getE_def op_defs)
  ultimately show ?thesis by blast
qed

definition second_refusal :: kernel where
  "second_refusal = calm_kernel\<lparr>k_malloc := (\<lambda>i n. if i = 1 then None else zero_alloc i n)\<rparr>"

theorem server_refused_push_keeps_mutex_witness:
  "\<exists>e' w'. server_publish_connection second_refusal 4096 6
      (unaccepted_server\<lparr>e_connections := sample_table\<lparr>v_size := 1\<rparr>\<rparr>, sample_world 1 False) = Inr ((), (e', w'))
    \<and> closes 6 (w_log w') = 2 \<and> asock_server_accept 1 (e', w') = Inl Self_Deadlock"
proof -
  have K: "kernel_ok second_refusal"
    using calm_kernel_ok alloc_ok_zero_alloc
    by (simp add: kernel_ok_def second_refusal_def alloc_ok_def) (simp add: calm_kernel_def)
  have v: "con_inv sample_table" "con_inv (sample_table\<lparr>v_size := 1\<rparr>)"
    using sample_table_inv(1) lonely_owner_ok(1) by (simp_all add: owner_inv_def lonely_owner_def)
  let ?e = "unaccepted_server\<lparr>e_connections := sample_table\<lparr>v_size := 1\<rparr>\<rparr>"
  have e: "e_connections ?e = sample_table\<lparr>v_size := 1\<rparr>" "e_new_connections ?e = sample_table" "\<not> e_new_connections_mutex ?e"
    by (simp_all add: unaccepted_server_def sample_server_def)
  have m: "\<forall>n. k_malloc second_refusal (w_allocs (sample_world 1 False) + 1) n = None"
    by (simp add: second_refusal_def sample_world_def)
  have c: "w_asocks (sample_world 1 False) 4096 = Some (sample_con 6 0 1 False)" by simp
  show ?thesis
    using server_refused_push_keeps_mutex [OF K _ c, of ?e 1] e v m by (auto simp: sample_table_def)
qed

end
