(* ===== verification/Asock_Server_Lifecycle.thy ===== *)
theory Asock_Server_Lifecycle
  imports Asock_Lifecycle
begin

text \<open>
  The life of a server: creation with the thread's basic configuration, binding, listening, and
  what is left of a server that could not listen.
\<close>

section \<open>Configuration\<close>

definition keeps_open :: "world \<Rightarrow> world \<Rightarrow> bool" where
  "keeps_open w w' \<longleftrightarrow> w_asocks w' = w_asocks w \<and> w_services_created w' = w_services_created w
     \<and> (\<forall>fd. is_open fd (w_log w) \<longrightarrow> is_open fd (w_log w'))"

lemma keeps_open_refl [simp]: "keeps_open w w"
  by (simp add: keeps_open_def)

lemma keeps_open_trans: "keeps_open w w1 \<Longrightarrow> keeps_open w1 w2 \<Longrightarrow> keeps_open w w2"
  by (simp add: keeps_open_def)

text \<open>Calls that close nothing.\<close>

lemma keeps_open_call:
  "\<forall>fd. c \<noteq> Close fd \<Longrightarrow> keeps_open w (w\<lparr>w_log := (c, r) # w_log w\<rparr>)"
  by (cases c; cases r) (simp_all add: keeps_open_def)

lemma keeps_open_quiet: "quiet (w_log w) (w_log w') \<Longrightarrow> w' = w\<lparr>w_log := w_log w'\<rparr> \<Longrightarrow> keeps_open w w'"
  by (cases w, cases w') (simp add: keeps_open_def quiet_def)

text \<open>A descriptor that was opened since may be closed.\<close>

lemma keeps_open_close:
  "keeps_open w w1 \<Longrightarrow> \<not> is_open fd (w_log w) \<Longrightarrow> keeps_open w (w1\<lparr>w_log := (Close fd, r) # w_log w1\<rparr>)"
  by (auto simp: keeps_open_def)

definition same_but_config :: "'a endpoint_scheme \<Rightarrow> 'a endpoint_scheme \<Rightarrow> bool" where
  "same_but_config e e' \<longleftrightarrow> e_connections e' = e_connections e \<and> e_new_connections e' = e_new_connections e
     \<and> e_new_connections_mutex e' = e_new_connections_mutex e \<and> e_epoll_desc e' = e_epoll_desc e
     \<and> e_id e' = e_id e \<and> e_directive e' = e_directive e"

lemma wp_change_namespace:
  assumes "kernel_ok K" "e_net_ns e \<noteq> None"
    and Q: "\<And>r e' w'. same_but_config e e' \<Longrightarrow> keeps_open w w' \<Longrightarrow> m_domain e' = m_domain e \<Longrightarrow> m_type e' = m_type e
      \<Longrightarrow> m_protocol e' = m_protocol e \<Longrightarrow> Q r (e', w')"
  shows "wp F (asock_server_change_namespace K) Q (e, w)"
proof -
  from assms(2) obtain name where name: "e_net_ns e = Some name" by auto
  have same: "same_but_config e (e\<lparr>e_net_ns := x\<rparr>)" "same_but_config e (e\<lparr>e_net_ns_fd := y\<rparr>)" for x y
    by (simp_all add: same_but_config_def)
  let ?open = "\<lambda>r. w\<lparr>w_log := (Open name, r) # w_log w\<rparr>"
  have opened: "keeps_open w (?open r)" for r by (rule keeps_open_call) simp
  show ?thesis
  proof (cases "name = []")
    case True
    with name same Q show ?thesis by (simp add: asock_server_change_namespace_def wp_simps)
  next
    case named: False
    show ?thesis
    proof (cases "k_ret K (w_log w) (Open name)")
      case (Err errno)
      with name named same Q opened show ?thesis by (simp add: asock_server_change_namespace_def wp_simps)
    next
      case (Ret fd)
      let ?r = "k_ret K (w_log (?open (Ret fd))) (Setns fd)"
      let ?w2 = "?open (Ret fd)\<lparr>w_log := (Setns fd, ?r) # w_log (?open (Ret fd))\<rparr>"
      have k2: "keeps_open w ?w2" by (rule keeps_open_trans [OF opened keeps_open_call]) simp
      have "\<not> is_open fd (w_log w)" using kernel_okD(1) [OF assms(1) _ Ret] by simp
      from keeps_open_close [OF k2 this]
      have "keeps_open w (?w2\<lparr>w_log := (Close fd, r) # w_log ?w2\<rparr>)" for r .
      with k2 name named Ret same Q show ?thesis
        by (cases ?r) (simp_all add: asock_server_change_namespace_def wp_simps)
    qed
  qed
qed

definition basic_configured :: "world \<Rightarrow> asock_server \<Rightarrow> asock_server \<Rightarrow> world \<Rightarrow> bool" where
  "basic_configured w e e' w' \<longleftrightarrow> same_but_config e e' \<and> keeps_open w w'
     \<and> (e_status e' = Aborted \<and> e_thread e' = Finished
        \<or> e_status e' = Configuration \<and> e_thread e' = Configuring
            \<and> is_open (m_server_socket e') (w_log w') \<and> \<not> is_open (m_server_socket e') (w_log w))"

lemma wp_server_socket:
  assumes K: "kernel_ok K" and e1: "same_but_config e e1" "keeps_open w w1"
  shows "wp F (bindM (getE (\<lambda>e. Socket (m_domain e) (m_type e) (m_protocol e))) (\<lambda>socket.
     bindM (liftW (syscall K socket)) (\<lambda>r.
       case r of
         Err _ \<Rightarrow> updateE (\<lambda>e. e\<lparr>e_status := Aborted, e_thread := Finished\<rparr>)
       | Ret sock_d \<Rightarrow>
           bindM (liftW (syscall K (Setsockopt sock_d))) (\<lambda>r.
             case r of
               Err _ \<Rightarrow>
                 bindM (liftW (syscall K (Close sock_d))) (\<lambda>_.
                 updateE (\<lambda>e. e\<lparr>e_status := Aborted, e_thread := Finished\<rparr>))
             | Ret _ \<Rightarrow>
                 updateE (\<lambda>e. e\<lparr>e_status := Configuration, e_thread := Configuring,
                   m_server_socket := sock_d\<rparr>)))))
   (\<lambda>_ (e', w'). basic_configured w e e' w') (e1, w1)"
proof -
  let ?call = "Socket (m_domain e1) (m_type e1) (m_protocol e1)"
  have fresh: "\<not> is_open fd (w_log w1)" "\<not> is_open fd (w_log w)" if "k_ret K (w_log w1) ?call = Ret fd" for fd
    using kernel_okD(1) [OF K _ that] e1(2) by (auto simp: keeps_open_def)
  show ?thesis
    using e1 fresh
    by (auto simp: wp_simps basic_configured_def same_but_config_def keeps_open_def split: sysres.splits)
qed

lemma wp_basic_configuration:
  assumes "kernel_ok K"
  shows "wp F (server_basic_configuration K) (\<lambda>_ (e', w'). basic_configured w e e' w') (e, w)"
proof (cases "e_net_ns e")
  case None
  with wp_server_socket [OF assms, of e e w w] show ?thesis
    by (simp add: server_basic_configuration_def wp_bind wp_then wp_getE wp_return same_but_config_def)
next
  case (Some name)
  then show ?thesis
    unfolding server_basic_configuration_def
    by (simp add: wp_bind [where m = "getE e_net_ns"] wp_then wp_getE wp_bind [where m = "asock_server_change_namespace K"]
        wp_return)
      (auto simp: wp_return intro!: wp_change_namespace [OF assms] wp_server_socket [OF assms])
qed

section \<open>Creation\<close>

lemma server_first_round:
  "e_thread e = Not_Started \<Longrightarrow>
    wp F (asock_server_thread_loop fuel K) Q (e, w) = wp F (server_basic_configuration K) Q (e, w)"
  by (simp add: asock_server_thread_loop_def wp_simps)

text \<open>A server that is ready to be bound: nothing in its tables, a socket and an epoll descriptor of
  its own.\<close>

definition server_ready :: "world \<Rightarrow> asock_server \<Rightarrow> world \<Rightarrow> bool" where
  "server_ready w e w' \<longleftrightarrow> fresh_owner w e w' \<and> e_status e = Configuration \<and> e_thread e = Configuring
     \<and> is_open (m_server_socket e) (w_log w') \<and> \<not> is_open (m_server_socket e) (w_log w)
     \<and> m_server_socket e \<noteq> e_epoll_desc e"

lemma server_ready_after:
  assumes b: "basic_configured w1 e1 e w2" and s: "e_status e \<noteq> Aborted"
    and t: "con_inv (e_connections e1)" "con_ptrs (e_connections e1) = []" "con_inv (e_new_connections e1)"
      "con_ptrs (e_new_connections e1) = []" "\<not> e_new_connections_mutex e1"
    and d: "e_directive e1 = asock_init_directive" "e_id e1 = w_services_created w + 1"
    and w: "w_asocks w1 = w_asocks w" "w_services_created w1 = w_services_created w + 1"
      "\<forall>fd. is_open fd (w_log w) \<longrightarrow> is_open fd (w_log w1)"
      "is_open (e_epoll_desc e1) (w_log w1)" "\<not> is_open (e_epoll_desc e1) (w_log w)"
  shows "server_ready w e w2"
proof -
  have e: "same_but_config e1 e" "keeps_open w1 w2" using b by (simp_all add: basic_configured_def)
  have "owner_ok e w2" "cons_of e = []" "news_of e = []"
    using fresh_tables [where cs = "e_connections e" and ns = "e_new_connections e" and e = e] t e(1) by (simp_all add: same_but_config_def)
  with b s d w e show ?thesis
    unfolding server_ready_def fresh_owner_def basic_configured_def same_but_config_def keeps_open_def by auto
qed

lemma wp_server_create:
  assumes K: "kernel_ok K"
  shows "wp F (asock_server_create_ns fuel K domain type protocol net_ns)
    (\<lambda>r w'. case r of None \<Rightarrow> w_asocks w' = w_asocks w | Some e \<Rightarrow> server_ready w e w') w"
    (is "wp F _ ?post w")
proof (cases "k_ret K (w_log w) Epoll_Create")
  case (Err errno)
  then show ?thesis by (simp add: asock_server_create_ns_def wp_simps mutex_init_def)
next
  case (Ret fd)
  then have fd: "\<not> is_open fd (w_log w)" using kernel_okD(1) [OF K, of Epoll_Create "w_log w" fd] by simp
  have same: "w_asocks w2 = w_asocks w1" if "basic_configured w1 e1 e2 w2" for w1 w2 e1 e2
    using that by (simp add: basic_configured_def keeps_open_def)
  from Ret show ?thesis
    by (auto simp: asock_server_create_ns_def wp_simps mutex_init_def server_first_round fd same
        intro!: wp_create_table [OF K] wp_strdup_opt wp_mono [OF wp_basic_configuration [OF K]]
        split: option.splits sysres.splits) (erule server_ready_after; simp add: fd)+
qed

section \<open>Listening\<close>

lemma wp_start_server:
  "wp F (asock_server_start_server K)
    (\<lambda>r (e', w'). e' = e \<and> (r = ASOCK_SUCCESS \<or> r = ASOCK_FAILURE) \<and> keeps_open w w') (e, w)"
proof -
  have register: "wp F (add_socket_to_epoll_server K d s) (\<lambda>r w'. (r = 0 \<or> r = - 1) \<and> keeps_open w w') w1"
    if "keeps_open w w1" for w1 d s
    by (rule wp_mono [OF wp_add_socket_to_epoll_server]) (auto intro: keeps_open_trans [OF that] keeps_open_quiet)
  have listen: "wp F (bindM (liftW (syscall K (Listen s))) (\<lambda>r.
       case r of
         Err _ \<Rightarrow> returnM ASOCK_FAILURE
       | Ret _ \<Rightarrow>
           bindM (getE e_epoll_desc) (\<lambda>epolld.
           bindM (liftW (add_socket_to_epoll_server K epolld s)) (\<lambda>x.
           if x = - 1 then returnM ASOCK_FAILURE else returnM ASOCK_SUCCESS))))
     (\<lambda>r (e', w'). e' = e \<and> (r = ASOCK_SUCCESS \<or> r = ASOCK_FAILURE) \<and> keeps_open w w') (e, w1)"
    if w1: "keeps_open w w1" for w1 s
  proof -
    have "keeps_open w (w1\<lparr>w_log := (Listen s, r) # w_log w1\<rparr>)" for r
      by (rule keeps_open_trans [OF w1 keeps_open_call]) simp
    then show ?thesis
      by (auto simp: wp_simps intro!: wp_mono [OF register] split: sysres.splits)
  qed
  have "wp F (make_socket_non_blocking K (m_server_socket e))
     (\<lambda>r w1. (r = ASOCK_SUCCESS \<or> r = ASOCK_FAILURE) \<and> keeps_open w w1) w"
    by (rule wp_mono [OF wp_make_socket_non_blocking]) (auto intro: keeps_open_quiet)
  then show ?thesis
    unfolding asock_server_start_server_def wp_bind wp_getE wp_liftW
    by (rule wp_mono) (use listen in \<open>auto simp: wp_bind wp_return wp_liftW\<close>)
qed

definition server_ended :: "asock_server \<Rightarrow> bool" where
  "server_ended e \<longleftrightarrow> e_status e = Aborted \<and> e_thread e = Finished"

lemma wp_server_listen:
  assumes "e_status e = Configuration" "e_thread e = Configuring"
  shows "wp F (asock_server_listen fuel K 1)
    (\<lambda>r (e', w'). (r = ASOCK_SUCCESS \<and> e_status e' = Running \<and> e_thread e' = Looping
                     \<and> asock_get_directive_type (e_directive e') = DirectNone
                   \<or> r = ASOCK_FAILURE \<and> server_ended e')
       \<and> cons_of e' = cons_of e \<and> news_of e' = news_of e \<and> m_server_socket e' = m_server_socket e
       \<and> e_epoll_desc e' = e_epoll_desc e \<and> e_net_ns_fd e' = e_net_ns_fd e \<and> keeps_open w w') (e, w)"
    (is "wp F _ ?post (e, w)")
proof -
  let ?e1 = "e\<lparr>e_directive := directive_post DirectStart NullArg NullArg NullArg NullArg (e_directive e)\<rparr>"
  have "wp F (asock_server_start_server K)
      (\<lambda>r. wp F (if r = ASOCK_FAILURE
           then thenM (updateE (\<lambda>e. e\<lparr>e_status := Aborted, e_thread := Finished\<rparr>)) (set_directive_result ASOCK_FAILURE)
           else thenM (updateE (\<lambda>e. e\<lparr>e_status := Running, e_thread := Looping\<rparr>)) (set_directive_result ASOCK_SUCCESS))
         (\<lambda>_. wp F (bindM (getE (\<lambda>e. directive_take (e_directive e))) (\<lambda>r.
             case r of None \<Rightarrow> failM Diverges
             | Some (result, direct) \<Rightarrow> thenM (updateE (\<lambda>e. e\<lparr>e_directive := direct\<rparr>)) (returnM result))) ?post)) (?e1, w)"
    by (rule wp_mono [OF wp_start_server])
      (auto simp: wp_simps set_directive_result_def directive_defs server_ended_def cons_of_def news_of_def)
  with assms show ?thesis
    by (simp add: asock_server_listen_def server_configuration_call_def asock_send_directive_def wp_simps
        asock_server_thread_loop_def server_configure_def directive_post_def asock_wait_for_directive_def
        asock_get_directive_type_def)
qed

lemma calm_creates_server:
  "wp no_fault (asock_server_create_ns 1 calm_kernel 2 1 0 (Some ''blue'')) (\<lambda>r w'. r \<noteq> None) empty_world"
  by (simp add: asock_server_create_ns_def wp_simps wp_calm_resources server_first_round server_basic_configuration_def
      asock_server_change_namespace_def
      zero_alloc_def SERVER_SIZE_def PTRDIFF_MAX_def fresh_fd_def empty_world_def)

lemma calm_listens:
  "e_status e = Configuration \<Longrightarrow> e_thread e = Configuring \<Longrightarrow> wp no_fault (asock_server_listen 1 calm_kernel 1)
    (\<lambda>r (e2, _). r = ASOCK_SUCCESS \<and> e_status e2 = Running \<and> e_thread e2 = Looping) (e, w)"
  by (simp add: asock_server_listen_def server_configuration_call_def asock_send_directive_def wp_simps
      asock_server_thread_loop_def server_configure_def directive_defs asock_server_start_server_def
      make_socket_non_blocking_def add_socket_to_epoll_server_def wp_calm_resources set_directive_result_def)

text \<open>C20. \<open>asock_server_create_ns\<close> never faults. It returns a server with empty tables, a fresh id,
  and a socket and an epoll descriptor of its own, waiting for its configuration; or null, and no
  object was created. \<open>asock_server_listen\<close> then returns too: the server is running, with its
  thread in the main loop, or the call failed and the thread has ended.\<close>

theorem server_create_and_listen:
  assumes "kernel_ok K"
  shows "\<exists>r w'. asock_server_create_ns fuel K domain type protocol net_ns w = Inr (r, w') \<and>
    (case r of
       None \<Rightarrow> w_asocks w' = w_asocks w
     | Some e \<Rightarrow> server_ready w e w' \<and>
         (\<exists>rc e2 w2. asock_server_listen fuel K 1 (e, w') = Inr (rc, (e2, w2)) \<and> keeps_open w' w2
            \<and> cons_of e2 = [] \<and> news_of e2 = []
            \<and> (if rc = ASOCK_SUCCESS then e_status e2 = Running \<and> e_thread e2 = Looping
               else rc = ASOCK_FAILURE \<and> server_ended e2)))"
proof -
  obtain r w' where r: "asock_server_create_ns fuel K domain type protocol net_ns w = Inr (r, w')"
    "case r of None \<Rightarrow> w_asocks w' = w_asocks w | Some e \<Rightarrow> server_ready w e w'"
    using wp_no_faultD [OF wp_server_create [OF assms, of no_fault fuel domain type protocol net_ns w]] by blast
  show ?thesis
  proof (cases r)
    case (Some e)
    with r(2) have e: "server_ready w e w'" "e_status e = Configuration" "e_thread e = Configuring"
      "cons_of e = []" "news_of e = []"
      by (simp_all add: server_ready_def fresh_owner_def)
    obtain rc e2 w2 where "asock_server_listen fuel K 1 (e, w') = Inr (rc, (e2, w2))" "keeps_open w' w2"
      "cons_of e2 = []" "news_of e2 = []"
      "rc = ASOCK_SUCCESS \<and> e_status e2 = Running \<and> e_thread e2 = Looping \<or> rc = ASOCK_FAILURE \<and> server_ended e2"
      using wp_no_faultD [OF wp_server_listen [OF e(2,3), of no_fault fuel K w']] e(4,5) by auto
    then have "\<exists>rc e2 w2. asock_server_listen fuel K 1 (e, w') = Inr (rc, (e2, w2)) \<and> keeps_open w' w2
            \<and> cons_of e2 = [] \<and> news_of e2 = []
            \<and> (if rc = ASOCK_SUCCESS then e_status e2 = Running \<and> e_thread e2 = Looping
               else rc = ASOCK_FAILURE \<and> server_ended e2)"
      by (intro exI [of _ rc] exI [of _ e2] exI [of _ w2]) (auto simp: return_code_defs)
    with r Some e(1) show ?thesis by (intro exI [of _ r] exI [of _ w']) simp
  qed (use r in auto)
qed

theorem server_create_and_listen_witness:
  "\<exists>e e2 w' w2. asock_server_create_ns 1 calm_kernel 2 1 0 (Some ''blue'') empty_world = Inr (Some e, w')
    \<and> asock_server_listen 1 calm_kernel 1 (e, w') = Inr (ASOCK_SUCCESS, (e2, w2)) \<and> e_status e2 = Running"
proof -
  obtain r w' where r: "asock_server_create_ns 1 calm_kernel 2 1 0 (Some ''blue'') empty_world = Inr (r, w')"
    "case r of None \<Rightarrow> w_asocks w' = w_asocks empty_world
     | Some e \<Rightarrow> server_ready empty_world e w' \<and>
         (\<exists>rc e2 w2. asock_server_listen 1 calm_kernel 1 (e, w') = Inr (rc, (e2, w2)) \<and> keeps_open w' w2
            \<and> cons_of e2 = [] \<and> news_of e2 = []
            \<and> (if rc = ASOCK_SUCCESS then e_status e2 = Running \<and> e_thread e2 = Looping
               else rc = ASOCK_FAILURE \<and> server_ended e2))"
    using server_create_and_listen [OF calm_kernel_ok, of 1 2 1 0 "Some ''blue''" empty_world] by blast
  have "r \<noteq> None" using calm_creates_server r(1) by (rule wp_returns)
  then obtain e where e: "r = Some e" by auto
  have "e_status e = Configuration" "e_thread e = Configuring" using r(2) e by (simp_all add: server_ready_def)
  then have "wp no_fault (asock_server_listen 1 calm_kernel 1)
      (\<lambda>r (e2, _). r = ASOCK_SUCCESS \<and> e_status e2 = Running \<and> e_thread e2 = Looping) (e, w')"
    by (rule calm_listens)
  with r(2) e obtain e2 w2 where "asock_server_listen 1 calm_kernel 1 (e, w') = Inr (ASOCK_SUCCESS, (e2, w2))"
      "e_status e2 = Running"
    by (auto dest: wp_returns)
  with r(1) e show ?thesis by blast
qed

section \<open>A server that could not listen\<close>

text \<open>C36. A server that could not listen is of no use and cannot say so: its thread has ended, so
  every later call that sends it a directive, another \<open>asock_server_listen\<close> or
  \<open>asock_server_bind\<close>, waits for ever. Destroying it leaves its socket open.\<close>

theorem server_failed_listen_hangs:
  assumes "e_status e = Configuration" "e_thread e = Configuring" "e_net_ns_fd e = - 1"
    and "m_server_socket e \<noteq> e_epoll_desc e" "is_open (m_server_socket e) (w_log w)"
    and "asock_server_listen fuel K 1 (e, w) = Inr (ASOCK_FAILURE, (e', w'))"
  shows "asock_server_listen fuel K 1 (e', w') = Inl Diverges
    \<and> asock_server_bind fuel K 1 addr addrlen (e', w') = Inl Diverges
    \<and> (\<exists>e2 w2. asock_server_destroy fuel K 1 (e', w') = Inr ((), (e2, w2)) \<and> is_open (m_server_socket e) (w_log w2))"
proof -
  have e': "server_ended e'" "m_server_socket e' = m_server_socket e" "e_epoll_desc e' = e_epoll_desc e"
      "e_net_ns_fd e' = - 1" "keeps_open w w'"
    using wp_returns [OF wp_server_listen [OF assms(1,2)] assms(6)] assms(3) by (auto simp: return_code_defs)
  have "server_configuration_call fuel K 1 type arg1 arg2 (e', w') = Inl Diverges" for type arg1 arg2
    using e'(1) by (simp add: server_configuration_call_def server_ended_def asock_send_directive_def op_defs getE_def updateE_def
        asock_server_thread_loop_def directive_defs)
  moreover have "wp no_fault (asock_server_destroy fuel K 1) (\<lambda>_ (e2, w2). is_open (m_server_socket e) (w_log w2)) (e', w')"
    using e' assms(4,5)
    by (auto simp: asock_server_destroy_def wp_simps server_ended_def asock_server_is_running_def
        wp_release_namespace keeps_open_def)
  from wp_no_faultD [OF this]
  have "\<exists>e2 w2. asock_server_destroy fuel K 1 (e', w') = Inr ((), (e2, w2)) \<and> is_open (m_server_socket e) (w_log w2)"
    by auto
  ultimately show ?thesis by (simp add: asock_server_listen_def asock_server_bind_def)
qed

text \<open>A kernel on which \<open>listen\<close> finds the port in use.\<close>

definition port_in_use :: kernel where
  "port_in_use = calm_kernel\<lparr>k_ret := (\<lambda>l c. case c of Listen s \<Rightarrow> Err 98 | _ \<Rightarrow> calm_ret l c)\<rparr>"

definition configured_server :: asock_server where
  "configured_server =
     \<lparr>e_connections = \<lparr>v_size = 0, v_data = Some (replicate 80 0), v_capacity = 10, v_item_size = 8\<rparr>,
      e_new_connections = \<lparr>v_size = 0, v_data = Some (replicate 80 0), v_capacity = 10, v_item_size = 8\<rparr>,
      e_new_connections_mutex = False, e_epoll_desc = 3, e_status = Configuration, e_id = 1,
      e_directive = asock_init_directive, e_net_ns = Some [], e_net_ns_fd = - 1, e_thread = Configuring,
      m_server_socket = 4, m_domain = 2, m_type = 1, m_protocol = 0\<rparr>"

theorem server_failed_listen_hangs_witness:
  "\<exists>e' w'. asock_server_listen 1 port_in_use 1
      (configured_server, empty_world\<lparr>w_log := [(Socket 2 1 0, Ret 4)]\<rparr>) = Inr (ASOCK_FAILURE, (e', w'))
    \<and> asock_server_listen 1 port_in_use 1 (e', w') = Inl Diverges"
proof -
  let ?w = "empty_world\<lparr>w_log := [(Socket 2 1 0, Ret 4)]\<rparr>"
  have c: "e_status configured_server = Configuration" "e_thread configured_server = Configuring"
    by (simp_all add: configured_server_def)
  then have "wp no_fault (asock_server_listen 1 port_in_use 1) (\<lambda>r _. r = ASOCK_FAILURE) (configured_server, ?w)"
    by (simp add: asock_server_listen_def server_configuration_call_def asock_send_directive_def wp_simps
        asock_server_thread_loop_def server_configure_def directive_defs asock_server_start_server_def
        make_socket_non_blocking_def set_directive_result_def port_in_use_def)
  from wp_no_faultD [OF this] obtain e' w' where "asock_server_listen 1 port_in_use 1 (configured_server, ?w)
      = Inr (ASOCK_FAILURE, (e', w'))" by auto
  moreover from server_failed_listen_hangs [OF c _ _ _ this, of None 0]
  have "asock_server_listen 1 port_in_use 1 (e', w') = Inl Diverges" by (simp add: configured_server_def)
  ultimately show ?thesis by blast
qed

end
