(* ===== verification/Asock_Service_Manager.thy ===== *)
theory Asock_Service_Manager
  imports Asock_Service
begin

text \<open>
  \<open>src/asock_service_manager.c\<close>: at most ten services, one for each network namespace in use. An
  entry of its arrays is the null pointer, a pointer to a live object (here the object itself, a
  struct of theory Asock_Service or a name) or a pointer to an object that has been freed.
\<close>

datatype 'a cell = Null | Live 'a | Freed

record asock_service_manager =
  m_serv_counter :: int
  m_services :: "asock_service cell list"
  m_service_nms :: "string cell list"

definition MAX_ASOCK_SERVICES :: nat where "MAX_ASOCK_SERVICES = 10"

definition asock_service_mgr_init :: "asock_service_manager" where
  "asock_service_mgr_init =
     \<lparr>m_serv_counter = 0, m_services = replicate MAX_ASOCK_SERVICES Null,
      m_service_nms = replicate MAX_ASOCK_SERVICES Null\<rparr>"

text \<open>Lines 21 to 25: the first entry with the wanted name. A freed name cannot be compared.\<close>

fun find_namespace :: "string \<Rightarrow> string cell list \<Rightarrow> nat option res" where
  "find_namespace nmsp [] = Inr None"
| "find_namespace nmsp (Null # cs) = bindR (find_namespace nmsp cs) (\<lambda>i. Inr (map_option Suc i))"
| "find_namespace nmsp (Freed # cs) = Inl Use_After_Free"
| "find_namespace nmsp (Live name # cs) =
     (if name = nmsp then Inr (Some 0)
      else bindR (find_namespace nmsp cs) (\<lambda>i. Inr (map_option Suc i)))"

text \<open>Lines 28 and 29: the first unused entry.\<close>

fun find_unused :: "'a cell list \<Rightarrow> nat option" where
  "find_unused [] = None"
| "find_unused (Null # cs) = Some 0"
| "find_unused (_ # cs) = map_option Suc (find_unused cs)"

definition liftMW :: "(world, 'r) op \<Rightarrow> (asock_service_manager \<times> world, 'r) op" where
  "liftMW m = (\<lambda>(g, w). bindR (m w) (\<lambda>(x, w'). Inr (x, (g, w'))))"

definition updateG :: "(asock_service_manager \<Rightarrow> asock_service_manager) \<Rightarrow> (asock_service_manager \<times> world, unit) op" where
  "updateG f = modifyM (\<lambda>(g, w). (f g, w))"

lemma wp_liftMW [wp_simps]: "wp F (liftMW m) Q (g, w) = wp F m (\<lambda>x w'. Q x (g, w')) w"
  by (simp add: wp_def liftMW_def bindR_def split: sum.splits prod.splits)

lemma wp_updateG [wp_simps]: "wp F (updateG f) Q (g, w) = Q () (f g, w)"
  by (simp add: updateG_def wp_simps)

text \<open>An operation on a service, and the service after it.\<close>

definition with_service :: "(asock_service \<times> world, 'r) op \<Rightarrow> asock_service \<Rightarrow> (world, 'r \<times> asock_service) op" where
  "with_service m e w = bindR (m (e, w)) (\<lambda>(x, (e', w')). Inr ((x, e'), w'))"

lemma wp_with_service [wp_simps]:
  "wp F (with_service m e) Q w = wp F m (\<lambda>x (e', w'). Q (x, e') w') (e, w)"
  by (auto simp: wp_def with_service_def bindR_def split: sum.splits prod.splits)

text \<open>
  Lines 30 to 62: a service for the namespace, entered at an unused index. The result is the index,
  \<open>None\<close> for the null pointer. The pointers handed to \<open>asock_service_start\<close> and
  \<open>asock_service_destroy\<close> are not null.
\<close>

definition mgr_no_service :: "nat \<Rightarrow> (asock_service_manager \<times> world, nat option) op" where
  "mgr_no_service i =
     thenM (updateG (\<lambda>g. g\<lparr>m_service_nms := (m_service_nms g)[i := Null]\<rparr>)) (returnM None)"

definition mgr_start_service ::
    "nat \<Rightarrow> kernel \<Rightarrow> nat \<Rightarrow> asock_service \<Rightarrow> (asock_service_manager \<times> world, nat option) op" where
  "mgr_start_service fuel K i e =
     bindM (liftMW (with_service (asock_service_start fuel K 1) e)) (\<lambda>(r, e).
     if r \<noteq> ASOCK_SUCCESS
     then bindM (liftMW (with_service (asock_service_destroy fuel K 1) e)) (\<lambda>_. mgr_no_service i)
     else thenM (updateG (\<lambda>g. g\<lparr>m_services := (m_services g)[i := Live e], m_serv_counter := m_serv_counter g + 1\<rparr>))
                (returnM (Some i)))"

definition mgr_new_service ::
    "nat \<Rightarrow> kernel \<Rightarrow> string \<Rightarrow> nat \<Rightarrow> (asock_service_manager \<times> world, nat option) op" where
  "mgr_new_service fuel K nmsp i =
     bindM (liftMW (strdup K nmsp)) (\<lambda>name.
     case name of
       None \<Rightarrow> mgr_no_service i
     | Some name \<Rightarrow>
         thenM (updateG (\<lambda>g. g\<lparr>m_service_nms := (m_service_nms g)[i := Live name]\<rparr>)) (
         bindM (liftMW (asock_service_create_ns fuel K (Some name))) (\<lambda>service.
         case service of None \<Rightarrow> mgr_no_service i | Some e \<Rightarrow> mgr_start_service fuel K i e)))"

definition asock_service_mgr_get_service_for_nmsp ::
    "nat \<Rightarrow> kernel \<Rightarrow> string \<Rightarrow> (asock_service_manager \<times> world, nat option) op" where
  "asock_service_mgr_get_service_for_nmsp fuel K nmsp =
     bindM (liftR (\<lambda>(g, w). find_namespace nmsp (m_service_nms g))) (\<lambda>found.
       case found of
         Some i \<Rightarrow> bindM (getsM (\<lambda>(g, w). m_services g ! i)) (\<lambda>c. returnM (if c = Null then None else Some i))
       | None \<Rightarrow>
           bindM (getsM (\<lambda>(g, w). find_unused (m_services g))) (\<lambda>unused.
             case unused of None \<Rightarrow> returnM None | Some i \<Rightarrow> mgr_new_service fuel K nmsp i))"

text \<open>The arrays keep the pointers to what has been freed.\<close>

definition mgr_free_entry :: "nat \<Rightarrow> kernel \<Rightarrow> nat \<Rightarrow> (asock_service_manager \<times> world, unit) op" where
  "mgr_free_entry fuel K i =
     bindM (getsM (\<lambda>(g, w). (m_services g ! i, m_service_nms g ! i))) (\<lambda>(service, name).
       case service of
         Null \<Rightarrow> returnM ()
       | Freed \<Rightarrow> failM Use_After_Free
       | Live e \<Rightarrow>
           if name = Freed then failM Use_After_Free
           else
             thenM (updateG (\<lambda>g. g\<lparr>m_service_nms := (m_service_nms g)[i := if name = Null then Null else Freed]\<rparr>)) (
             bindM (liftMW (with_service (asock_service_destroy fuel K 1) e)) (\<lambda>_.
             updateG (\<lambda>g. g\<lparr>m_services := (m_services g)[i := Freed]\<rparr>))))"

definition asock_service_mgr_free_resources :: "nat \<Rightarrow> kernel \<Rightarrow> (asock_service_manager \<times> world, unit) op" where
  "asock_service_mgr_free_resources fuel K = foreachM (mgr_free_entry fuel K) [0..<MAX_ASOCK_SERVICES]"

end
