(* ===== verification/Asock_Library.thy ===== *)
theory Asock_Library
  imports Asock_Service_Manager
begin

text \<open>
  The entry points of \<open>include/asock.h\<close> for client connections (lines 20 to 68 of
  \<open>src/asock_impl.c\<close>): they pick the service of a namespace from the global manager and hand the
  call on. The state is the manager and the world.
\<close>

definition asock_init :: "(asock_service_manager \<times> world, AsockReturnCode) op" where
  "asock_init = thenM (updateG (\<lambda>_. asock_service_mgr_init)) (returnM ASOCK_SUCCESS)"

definition asock_deinit :: "nat \<Rightarrow> kernel \<Rightarrow> (asock_service_manager \<times> world, unit) op" where
  "asock_deinit fuel K = asock_service_mgr_free_resources fuel K"

text \<open>An operation on the service at an index of the manager.\<close>

definition on_service :: "nat \<Rightarrow> (asock_service \<times> world, 'r) op \<Rightarrow> (asock_service_manager \<times> world, 'r) op" where
  "on_service i m =
     bindM (getsM (\<lambda>(g, w). m_services g ! i)) (\<lambda>c.
       case c of
         Null \<Rightarrow> failM Null_Deref
       | Freed \<Rightarrow> failM Use_After_Free
       | Live e \<Rightarrow>
           bindM (liftMW (with_service m e)) (\<lambda>(r, e).
           thenM (updateG (\<lambda>g. g\<lparr>m_services := (m_services g)[i := Live e]\<rparr>)) (returnM r)))"

definition asock_create_ns ::
    "nat \<Rightarrow> kernel \<Rightarrow> int \<Rightarrow> int \<Rightarrow> int \<Rightarrow> string \<Rightarrow> (asock_service_manager \<times> world, ptr) op" where
  "asock_create_ns fuel K domain type protocol net_ns =
     bindM (liftMW (strdup K net_ns)) (\<lambda>tmp.
     if tmp = None then returnM 0
     else bindM (asock_service_mgr_get_service_for_nmsp fuel K net_ns) (\<lambda>service.
       case service of
         None \<Rightarrow> returnM 0
       | Some i \<Rightarrow>
           bindM (on_service i (asock_service_create_asock fuel K 1 domain type protocol)) (\<lambda>con.
           if con = 0 then returnM 0
           else thenM (liftMW (update_asock con (\<lambda>a. a\<lparr>m_net_ns := tmp\<rparr>))) (returnM con))))"

definition asock_create ::
    "nat \<Rightarrow> kernel \<Rightarrow> int \<Rightarrow> int \<Rightarrow> int \<Rightarrow> (asock_service_manager \<times> world, ptr) op" where
  "asock_create fuel K domain type protocol = asock_create_ns fuel K domain type protocol []"

definition asock_destroy :: "kernel \<Rightarrow> ptr \<Rightarrow> (asock_service_manager \<times> world, unit) op" where
  "asock_destroy K con = liftMW (asock_destroy_asock K con)"

text \<open>The manager asserts that the name is not null.\<close>

definition asock_connect ::
    "nat \<Rightarrow> kernel \<Rightarrow> ptr \<Rightarrow> block \<Rightarrow> socklen_t \<Rightarrow> (asock_service_manager \<times> world, AsockReturnCode) op" where
  "asock_connect fuel K con addr addrlen =
     bindM (liftMW (read_asock con)) (\<lambda>a.
       case m_net_ns a of
         None \<Rightarrow> failM Assert_Failed
       | Some net_ns \<Rightarrow>
           bindM (asock_service_mgr_get_service_for_nmsp fuel K net_ns) (\<lambda>service.
             case service of
               None \<Rightarrow> returnM ASOCK_FAILURE
             | Some i \<Rightarrow> on_service i (asock_service_connect K con addr addrlen)))"

end
