(* ===== verification/Asock_Manager_Facts.thy ===== *)
theory Asock_Manager_Facts
  imports Asock_Library Asock_Lifecycle
begin

text \<open>
  The manager's arrays as a finite map from namespaces to running services: what the lookup that
  creates services on demand does to that map, and what is left after the arrays were freed.
\<close>

section \<open>The arrays as a map\<close>

definition serves :: "string \<Rightarrow> asock_service \<Rightarrow> bool" where
  "serves nmsp e \<longleftrightarrow> e_net_ns e = Some nmsp \<and> e_status e = Running \<and> e_thread e = Looping
     \<and> e_net_ns_fd e = - 1"

fun entry_ok :: "asock_service cell \<Rightarrow> string cell \<Rightarrow> bool" where
  "entry_ok Null Null = True"
| "entry_ok (Live e) (Live nmsp) = serves nmsp e"
| "entry_ok _ _ = False"

definition used :: "'a cell list \<Rightarrow> 'a cell list" where
  "used cs = filter (\<lambda>c. c \<noteq> Null) cs"

definition mgr_ok :: "asock_service_manager \<Rightarrow> bool" where
  "mgr_ok g \<longleftrightarrow> length (m_services g) = MAX_ASOCK_SERVICES \<and> list_all2 entry_ok (m_services g) (m_service_nms g)
     \<and> distinct (used (m_service_nms g)) \<and> m_serv_counter g = int (length (used (m_services g)))"

definition service_of :: "asock_service_manager \<Rightarrow> string \<Rightarrow> asock_service option" where
  "service_of g nmsp =
     (case map_of (zip (m_service_nms g) (m_services g)) (Live nmsp) of Some (Live e) \<Rightarrow> Some e | _ \<Rightarrow> None)"

lemma mgr_init_ok: "mgr_ok asock_service_mgr_init" "service_of asock_service_mgr_init = Map.empty"
  by (auto simp: mgr_ok_def asock_service_mgr_init_def used_def service_of_def MAX_ASOCK_SERVICES_def
      eval_nat_numeral fun_eq_iff)

lemma find_namespace_first: "Freed \<notin> set cs \<Longrightarrow> find_namespace nmsp cs = Inr (first_index (\<lambda>c. c = Live nmsp) cs)"
  by (induction nmsp cs rule: find_namespace.induct) auto

lemma find_unused_first: "find_unused cs = first_index (\<lambda>c. c = Null) cs"
  by (induction cs rule: find_unused.induct) auto

text \<open>Where the two arrays have an entry, and what filling one does to the map.\<close>

lemma entry_of_index:
  assumes "list_all2 entry_ok ss ns" "i < length ns"
  shows "ns ! i = Live nmsp \<Longrightarrow> \<exists>e. ss ! i = Live e \<and> serves nmsp e"
    "ss ! i = Null \<longleftrightarrow> ns ! i = Null"
  using list_all2_nthD2 [OF assms] by (cases "ss ! i"; cases "ns ! i"; simp)+

lemma no_freed_name: "list_all2 entry_ok ss ns \<Longrightarrow> Freed \<notin> set ns \<and> Freed \<notin> set ss"
  by (induction rule: list_all2_induct) (auto elim: entry_ok.elims)

lemma map_of_first:
  "length ks = length vs \<Longrightarrow> map_of (zip ks vs) k = map_option (\<lambda>i. vs ! i) (first_index (\<lambda>c. c = k) ks)"
  by (induction ks vs rule: list_induct2) (auto simp: option.map_comp comp_def)

lemma map_of_fill:
  "length ks = length vs \<Longrightarrow> i < length ks \<Longrightarrow> ks ! i = Null \<Longrightarrow> k \<notin> set ks \<Longrightarrow> k' \<noteq> Null \<Longrightarrow>
    map_of (zip (ks[i := k]) (vs[i := v])) k' = (if k' = k then Some v else map_of (zip ks vs) k')"
proof (induction ks vs arbitrary: i rule: list_induct2)
  case (Cons x xs y ys)
  then show ?case by (cases i) auto
qed simp

lemma used_fill:
  "i < length cs \<Longrightarrow> cs ! i = Null \<Longrightarrow> v \<noteq> Null \<Longrightarrow>
    length (used (cs[i := v])) = Suc (length (used cs)) \<and> set (used (cs[i := v])) = insert v (set (used cs))
    \<and> (distinct (used cs) \<longrightarrow> v \<notin> set cs \<longrightarrow> distinct (used (cs[i := v])))"
proof (induction cs arbitrary: i)
  case (Cons x xs)
  then show ?case by (cases i) (auto simp: used_def)
qed simp

lemma mgr_okD:
  assumes "mgr_ok g"
  shows "list_all2 entry_ok (m_services g) (m_service_nms g)" "length (m_services g) = MAX_ASOCK_SERVICES"
    "length (m_service_nms g) = length (m_services g)" "distinct (used (m_service_nms g))"
    "m_serv_counter g = int (length (used (m_services g)))"
    "Freed \<notin> set (m_service_nms g)" "Freed \<notin> set (m_services g)"
  using assms no_freed_name [of "m_services g" "m_service_nms g"] list_all2_lengthD [of entry_ok "m_services g" "m_service_nms g"]
  unfolding mgr_ok_def by auto

lemma service_of_Some:
  assumes "mgr_ok g" "first_index (\<lambda>c. c = Live nmsp) (m_service_nms g) = Some i"
  shows "\<exists>e. m_services g ! i = Live e \<and> service_of g nmsp = Some e \<and> serves nmsp e"
proof -
  note l = mgr_okD [OF assms(1)]
  from first_index_Some [OF assms(2)] entry_of_index(1) [OF l(1), of i nmsp]
  obtain e where "m_services g ! i = Live e" "serves nmsp e" by auto
  with assms(2) show ?thesis by (simp add: service_of_def map_of_first l(3))
qed

lemma service_of_None:
  assumes "mgr_ok g" "first_index (\<lambda>c. c = Live nmsp) (m_service_nms g) = None"
  shows "service_of g nmsp = None"
  using assms(2) by (simp add: service_of_def map_of_first mgr_okD(3) [OF assms(1)])

lemma mgr_fill:
  assumes ok: "mgr_ok g" and free: "service_of g nmsp = None" and i: "find_unused (m_services g) = Some i"
    and e: "serves nmsp e"
  defines "g' \<equiv> g\<lparr>m_service_nms := (m_service_nms g)[i := Live nmsp], m_services := (m_services g)[i := Live e],
      m_serv_counter := m_serv_counter g + 1\<rparr>"
  shows "mgr_ok g'" "service_of g' = (service_of g)(nmsp \<mapsto> e)" "m_services g' ! i = Live e"
    "m_serv_counter g < int MAX_ASOCK_SERVICES"
proof -
  let ?ss = "m_services g" and ?ns = "m_service_nms g"
  note l = mgr_okD [OF ok]
  have i': "i < length ?ss" "?ss ! i = Null" using first_index_Some i unfolding find_unused_first by fastforce+
  then have n: "?ns ! i = Null" using entry_of_index(2) [OF l(1)] l(3) by simp
  have new: "Live nmsp \<notin> set ?ns"
    using service_of_Some [OF ok, of nmsp] free by (fastforce simp: first_index_None)
  note fill = used_fill [OF i', of "Live e"] used_fill [OF _ n, of "Live nmsp"]
  have "list_all2 entry_ok (?ss[i := Live e]) (?ns[i := Live nmsp])"
    using l(1) e by (intro list_all2_update_cong) auto
  then show "mgr_ok g'"
    using l i' new fill by (simp add: mgr_ok_def g'_def)
  show "service_of g' = (service_of g)(nmsp \<mapsto> e)"
    using map_of_fill [OF l(3) _ n new, of _ "Live e"] i' l(3)
    by (auto simp: service_of_def g'_def fun_eq_iff)
  show "m_services g' ! i = Live e" using i' by (simp add: g'_def)
  have "length (used ?ss) < length ?ss"
    unfolding used_def by (rule length_filter_less [of "?ss ! i"]) (use i' nth_mem [OF i'(1)] in auto)
  then show "m_serv_counter g < int MAX_ASOCK_SERVICES" using l(2,5) by simp
qed

text \<open>Creating a service for a namespace that has none.\<close>

definition entered :: "asock_service_manager \<Rightarrow> string \<Rightarrow> world \<Rightarrow> nat option \<Rightarrow> asock_service_manager \<times> world \<Rightarrow> bool" where
  "entered g nmsp w r = (\<lambda>(g', w'). mgr_ok g' \<and> w_asocks w' = w_asocks w
     \<and> (r = None \<and> g' = g
         \<or> m_serv_counter g < int MAX_ASOCK_SERVICES
             \<and> (\<exists>i e. r = Some i \<and> m_services g' ! i = Live e \<and> serves nmsp e \<and> cons_of e = [] \<and> news_of e = []
                   \<and> owner_ok e w' \<and> service_of g' = (service_of g)(nmsp \<mapsto> e))))"

lemma wp_mgr_no_service:
  assumes "mgr_ok g" "m_service_nms g ! i = Null" "w_asocks w' = w_asocks w"
  shows "wp F (mgr_no_service i) (entered g nmsp w) (g\<lparr>m_service_nms := (m_service_nms g)[i := c]\<rparr>, w')"
proof -
  have "(m_service_nms g)[i := Null] = m_service_nms g" using assms(2) by (metis list_update_id)
  with assms(1,3) show ?thesis by (simp add: mgr_no_service_def wp_simps entered_def)
qed

lemma wp_mgr_start_service:
  assumes "mgr_ok g" "service_of g nmsp = None" "find_unused (m_services g) = Some i"
    and e: "fresh_owner w e w'" "e_status e = Configuration" "e_thread e = Configuring"
      "e_net_ns_fd e = - 1" "e_net_ns e = Some nmsp"
  shows "wp F (mgr_start_service fuel K i e) (entered g nmsp w)
    (g\<lparr>m_service_nms := (m_service_nms g)[i := Live nmsp]\<rparr>, w')"
proof -
  obtain e' where start: "asock_service_start fuel K 1 (e, w') = Inr (ASOCK_SUCCESS, (e', w'))" and up: "service_up e e'"
    using service_starts [OF e(2,3), of fuel K w'] by blast
  note u = service_upD [OF up]
  have s: "serves nmsp e'" using u e by (simp add: serves_def)
  note fill = mgr_fill [OF assms(1-3) s]
  have "cons_of e' = []" "news_of e' = []" "owner_ok e' w'" "w_asocks w' = w_asocks w"
    using e(1) u by (simp_all add: fresh_owner_def)
  with s fill show ?thesis
    by (simp add: mgr_start_service_def wp_simps wp_Inr [where m = "asock_service_start fuel K 1", OF start] entered_def)
qed

lemma wp_mgr_new_service:
  assumes "mgr_ok g" "service_of g nmsp = None" "find_unused (m_services g) = Some i" and K: "kernel_ok K"
  shows "wp F (mgr_new_service fuel K nmsp i) (entered g nmsp w) (g, w)"
proof -
  note l = mgr_okD [OF assms(1)]
  have "m_services g ! i = Null" "i < length (m_services g)"
    using assms(3) first_index_Some unfolding find_unused_first by fastforce+
  then have n: "m_service_nms g ! i = Null" using entry_of_index(2) [OF l(1)] l(3) by simp
  note failed = wp_mgr_no_service [OF assms(1) n, of _ w]
  let ?g1 = "g\<lparr>m_service_nms := (m_service_nms g)[i := Live nmsp]\<rparr>" and ?w1 = "w\<lparr>w_allocs := Suc (w_allocs w)\<rparr>"
  have unnamed: "g = g\<lparr>m_service_nms := (m_service_nms g)[i := Null]\<rparr>"
    using n by (metis list_update_id asock_service_manager.surjective asock_service_manager.update_convs(3))
  have "wp F (asock_service_create_ns fuel K (Some nmsp))
      (\<lambda>r w'. wp F (case r of None \<Rightarrow> mgr_no_service i | Some e \<Rightarrow> mgr_start_service fuel K i e) (entered g nmsp w) (?g1, w')) ?w1"
    using wp_service_create [OF K]
  proof (rule wp_mono)
    fix r :: "asock_service option" and w'
    assume r: "case r of None \<Rightarrow> w_asocks w' = w_asocks ?w1
       | Some e \<Rightarrow> fresh_owner ?w1 e w' \<and> e_status e = Configuration \<and> e_thread e = Configuring
           \<and> e_net_ns_fd e = - 1 \<and> e_net_ns e = Some nmsp"
    then show "wp F (case r of None \<Rightarrow> mgr_no_service i | Some e \<Rightarrow> mgr_start_service fuel K i e) (entered g nmsp w) (?g1, w')"
      using failed [of w' F nmsp "Live nmsp"] wp_mgr_start_service [OF assms(1-3), of w]
      by (auto simp: fresh_owner_def split: option.splits)
  qed
  moreover have "wp F (mgr_no_service i) (entered g nmsp w) (g, ?w1)"
    by (subst unnamed) (rule failed, simp)
  ultimately show ?thesis by (simp add: mgr_new_service_def strdup_def wp_simps split: option.split)
qed


text \<open>A manager with one service.\<close>

definition sample_service :: asock_service where
  "sample_service =
     \<lparr>e_connections = \<lparr>v_size = 0, v_data = Some (replicate 80 0), v_capacity = 10, v_item_size = 8\<rparr>,
      e_new_connections = \<lparr>v_size = 0, v_data = Some (replicate 80 0), v_capacity = 10, v_item_size = 8\<rparr>,
      e_new_connections_mutex = False, e_epoll_desc = 5, e_status = Running, e_id = 1,
      e_directive = asock_init_directive, e_net_ns = Some ''blue'', e_net_ns_fd = - 1, e_thread = Looping\<rparr>"

definition sample_manager :: asock_service_manager where
  "sample_manager =
     \<lparr>m_serv_counter = 1, m_services = Live sample_service # replicate 9 Null,
      m_service_nms = Live ''blue'' # replicate 9 Null\<rparr>"

lemma sample_manager_ok [simp]: "mgr_ok sample_manager" "service_of sample_manager ''blue'' = Some sample_service"
  by (simp_all add: mgr_ok_def sample_manager_def used_def service_of_def MAX_ASOCK_SERVICES_def list_all2_conv_all_nth
      nth_Cons' serves_def sample_service_def)


section \<open>After the end\<close>

text \<open>Services without connections, as they are when the application has destroyed its own.\<close>

definition resting :: "asock_service \<Rightarrow> bool" where
  "resting e \<longleftrightarrow> con_inv (e_connections e) \<and> con_inv (e_new_connections e) \<and> \<not> e_new_connections_mutex e
     \<and> cons_of e = [] \<and> news_of e = []"

lemma resting_owner_ok: "resting e \<Longrightarrow> owner_ok e w"
  by (auto simp: resting_def owner_ok_def owner_inv_def)

lemma wp_destroy_resting:
  assumes "resting e" "serves nmsp e"
  shows "wp F (asock_service_destroy fuel K 1) (\<lambda>_ (e', w'). w_asocks w' = w_asocks w) (e, w)"
proof -
  have "owner_inv e w" using resting_owner_ok [OF assms(1)] by (simp add: owner_ok_def)
  then have "wp F (asock_service_stop fuel K) (\<lambda>_ (e', w'). e_net_ns_fd e' = - 1 \<and> w_asocks w' = w_asocks w) (e, w)"
    using assms by (auto intro!: wp_mono [OF wp_service_stop] simp: serves_def resting_def released_all_def)
  then have "wp F (asock_service_stop fuel K)
      (\<lambda>_. wp F (bindM (getE e_epoll_desc) (\<lambda>epolld. bindM (liftW (syscall K (Close epolld))) (\<lambda>_. release_namespace K)))
        (\<lambda>_ (e', w'). w_asocks w' = w_asocks w)) (e, w)"
    by (rule wp_mono) (auto simp: wp_simps wp_release_namespace)
  then show ?thesis
    using assms(2) by (simp add: asock_service_destroy_def wp_simps asock_service_is_running_def serves_def)
qed

fun gone :: "'a cell \<Rightarrow> 'a cell" where
  "gone Null = Null"
| "gone _ = Freed"

lemma gone_eq: "gone c = (if c = Null then Null else Freed)"
  by (cases c) simp_all

lemma gone_set: "set (map gone cs) \<subseteq> {Null, Freed}"
  by (auto simp: gone_eq)

lemma gone_used: "used cs \<noteq> [] \<Longrightarrow> Freed \<in> set (map gone cs)"
  by (induction cs) (auto simp: used_def gone_eq split: if_splits)

lemma gone_step:
  "k < length cs \<Longrightarrow> (map gone (take k cs) @ drop k cs)[k := gone (cs ! k)] = map gone (take (Suc k) cs) @ drop (Suc k) cs"
  "k < length cs \<Longrightarrow> (map gone (take k cs) @ drop k cs) ! k = cs ! k"
  by (simp_all add: take_Suc_conv_app_nth list_update_append nth_append min_def Cons_nth_drop_Suc [symmetric])

definition freed_up_to :: "nat \<Rightarrow> asock_service_manager \<Rightarrow> asock_service_manager" where
  "freed_up_to k g = g\<lparr>m_services := map gone (take k (m_services g)) @ drop k (m_services g),
     m_service_nms := map gone (take k (m_service_nms g)) @ drop k (m_service_nms g)\<rparr>"

lemma wp_mgr_free_entry:
  assumes ok: "mgr_ok g" and rest: "\<forall>e. Live e \<in> set (m_services g) \<longrightarrow> resting e" and k: "k < MAX_ASOCK_SERVICES"
  shows "wp F (mgr_free_entry fuel K k) (\<lambda>_ (g', w'). g' = freed_up_to (Suc k) g \<and> w_asocks w' = w_asocks w)
    (freed_up_to k g, w)"
proof -
  note l = mgr_okD [OF ok]
  let ?g = "freed_up_to k g"
  have k': "k < length (m_services g)" "k < length (m_service_nms g)" using k l(2,3) by simp_all
  have at: "m_services ?g ! k = m_services g ! k" "m_service_nms ?g ! k = m_service_nms g ! k"
    using k' by (simp_all add: freed_up_to_def gone_step)
  have step: "freed_up_to (Suc k) g = ?g\<lparr>m_services := (m_services ?g)[k := gone (m_services g ! k)],
      m_service_nms := (m_service_nms ?g)[k := gone (m_service_nms g ! k)]\<rparr>"
    using k' by (simp add: freed_up_to_def gone_step)
  have entry: "entry_ok (m_services g ! k) (m_service_nms g ! k)" using list_all2_nthD [OF l(1) k'(1)] .
  show ?thesis
  proof (cases "m_services g ! k")
    case Null
    then have "m_service_nms g ! k = Null" using entry by (cases "m_service_nms g ! k") simp_all
    with Null at have "freed_up_to (Suc k) g = ?g"
      unfolding step by (simp add: list_update_same_conv) (metis list_update_id asock_service_manager.surjective asock_service_manager.update_convs)
    with Null at show ?thesis by (simp add: mgr_free_entry_def wp_simps)
  next
    case (Live e)
    with entry obtain nmsp where n: "m_service_nms g ! k = Live nmsp" "serves nmsp e"
      by (cases "m_service_nms g ! k") simp_all
    have "resting e" using Live rest nth_mem [OF k'(1)] by metis
    from wp_destroy_resting [OF this n(2)] show ?thesis
      unfolding step using Live n at by (simp add: mgr_free_entry_def wp_simps)
  next
    case Freed
    with entry show ?thesis by simp
  qed
qed

lemma wp_free_resources:
  assumes "mgr_ok g" "\<forall>e. Live e \<in> set (m_services g) \<longrightarrow> resting e"
  shows "wp F (asock_service_mgr_free_resources fuel K)
    (\<lambda>_ (g', w'). g' = freed_up_to MAX_ASOCK_SERVICES g \<and> w_asocks w' = w_asocks w) (g, w)"
proof -
  let ?I = "\<lambda>done (g', w'). g' = freed_up_to (length done) g \<and> w_asocks w' = w_asocks w"
  have "wp F (foreachM (mgr_free_entry fuel K) [0..<MAX_ASOCK_SERVICES]) (\<lambda>_. ?I [0..<MAX_ASOCK_SERVICES]) (g, w)"
  proof (rule wp_foreachM)
    show "?I [] (g, w)" by (simp add: freed_up_to_def)
  next
    fix dn x todo and s :: "asock_service_manager \<times> world"
    assume xs: "[0..<MAX_ASOCK_SERVICES] = dn @ x # todo" and s: "?I dn s"
    from arg_cong [OF xs, of length] have less: "length dn < MAX_ASOCK_SERVICES" by simp
    from arg_cong [OF xs, of "\<lambda>xs. xs ! length dn"] less have "x = length dn" by simp
    moreover from s obtain y where "s = (freed_up_to (length dn) g, y)" "w_asocks y = w_asocks w" by (cases s) auto
    ultimately show "wp F (mgr_free_entry fuel K x) (\<lambda>_. ?I (dn @ [x])) s"
      by (auto intro!: wp_mono [OF wp_mgr_free_entry [OF assms less]])
  qed
  then show ?thesis by (simp add: asock_service_mgr_free_resources_def)
qed

lemma free_entries_again:
  "\<forall>i \<in> set xs. m_services g ! i \<in> {Null, Freed} \<Longrightarrow> \<exists>i \<in> set xs. m_services g ! i = Freed \<Longrightarrow>
    foreachM (mgr_free_entry fuel K) xs (g, w) = Inl Use_After_Free"
proof (induction xs)
  case (Cons x xs)
  have "mgr_free_entry fuel K x (g, w) =
      (if m_services g ! x = Null then Inr ((), (g, w)) else Inl Use_After_Free)"
    using Cons.prems(1) by (auto simp: mgr_free_entry_def op_defs)
  with Cons show ?case by (auto simp: thenM_def bindM_def)
qed simp

lemma find_namespace_again:
  "set cs \<subseteq> {Null, Freed} \<Longrightarrow> Freed \<in> set cs \<Longrightarrow> find_namespace nmsp cs = Inl Use_After_Free"
  by (induction nmsp cs rule: find_namespace.induct) auto

text \<open>C37. After \<open>asock_deinit\<close> the manager's arrays still hold the pointers to the services and names
  that were freed: a second \<open>asock_deinit\<close>, and any search for a namespace, as in \<open>asock_create\<close> and
  \<open>asock_connect\<close>, use freed memory.\<close>

theorem manager_used_after_deinit:
  assumes "mgr_ok g" "0 < m_serv_counter g" "\<forall>e. Live e \<in> set (m_services g) \<longrightarrow> resting e"
  shows "\<exists>g' w'. asock_deinit fuel K (g, w) = Inr ((), (g', w'))
    \<and> asock_deinit fuel K (g', w') = Inl Use_After_Free
    \<and> asock_service_mgr_get_service_for_nmsp fuel K nmsp (g', w') = Inl Use_After_Free"
proof -
  note l = mgr_okD [OF assms(1)]
  let ?g' = "freed_up_to MAX_ASOCK_SERVICES g"
  obtain w' where first: "asock_deinit fuel K (g, w) = Inr ((), (?g', w'))"
    using wp_no_faultD [OF wp_free_resources [OF assms(1,3), of no_fault fuel K w]] by (auto simp: asock_deinit_def)
  have g': "m_services ?g' = map gone (m_services g)" "m_service_nms ?g' = map gone (m_service_nms g)"
    using l(2,3) by (simp_all add: freed_up_to_def)
  have "used (m_services g) \<noteq> []" using assms(2) l(5) by simp
  then have freed: "Freed \<in> set (m_services ?g')" unfolding g' by (rule gone_used)
  moreover have "length (m_services ?g') = MAX_ASOCK_SERVICES" using l(2) by (simp add: g')
  moreover have sub: "set (m_services ?g') \<subseteq> {Null, Freed}" unfolding g' by (rule gone_set)
  ultimately have again: "asock_deinit fuel K (?g', w') = Inl Use_After_Free"
    unfolding asock_deinit_def asock_service_mgr_free_resources_def
    by (intro free_entries_again) (force simp: in_set_conv_nth dest: subsetD [OF _ nth_mem])+
  have "Freed \<in> set (m_service_nms ?g')"
  proof -
    from freed obtain i where "i < length (m_services g)" "gone (m_services g ! i) = Freed"
      unfolding g' by (auto simp: in_set_conv_nth)
    moreover have "gone (m_service_nms g ! i) = Freed"
      using calculation list_all2_nthD [OF l(1)] by (cases "m_services g ! i"; cases "m_service_nms g ! i") force+
    ultimately show ?thesis unfolding g' using l(3) by (force simp: in_set_conv_nth)
  qed
  then have "find_namespace nmsp (m_service_nms ?g') = Inl Use_After_Free"
    using gone_set [of "m_service_nms g"] unfolding g' by (intro find_namespace_again)
  then have "asock_service_mgr_get_service_for_nmsp fuel K nmsp (?g', w') = Inl Use_After_Free"
    by (simp add: asock_service_mgr_get_service_for_nmsp_def bindM_def liftR_def)
  with first again show ?thesis by blast
qed

theorem manager_used_after_deinit_witness:
  "\<exists>g' w'. asock_deinit 1 calm_kernel (sample_manager, empty_world) = Inr ((), (g', w'))
    \<and> asock_deinit 1 calm_kernel (g', w') = Inl Use_After_Free"
proof -
  have "resting sample_service"
    by (simp add: resting_def sample_service_def con_inv_def sized_vector_inv_def vector_inv_def vector_bytes_def
        CON_PTR_SIZE_def cons_of_def news_of_def con_ptrs_def vector_items_def chunks_def PTRDIFF_MAX_def)
  then have "\<forall>e. Live e \<in> set (m_services sample_manager) \<longrightarrow> resting e" by (simp add: sample_manager_def)
  moreover have "0 < m_serv_counter sample_manager" by (simp add: sample_manager_def)
  ultimately show ?thesis
    using manager_used_after_deinit [of sample_manager 1 calm_kernel empty_world "''blue''"] by auto
qed

end
