(* ===== verification/Asock_Phases.thy ===== *)
theory Asock_Phases
  imports Asock_Server_Lifecycle
begin

text \<open>
  What the operations of services and servers do not touch: a calculus for operations that leave
  the status, the place of the thread and the mailbox alone, without and with the mutex of the new
  connections, and the rounds of both threads in it.
\<close>

section \<open>Operations that leave the control state alone\<close>

text \<open>Status, phase and directive, without and with the mutex of the new connections.\<close>

definition control :: "'a endpoint_scheme \<Rightarrow> ServiceStatus \<times> thread_phase \<times> asock_directive" where
  "control e = (e_status e, e_thread e, e_directive e)"

definition guarded_control :: "'a endpoint_scheme \<Rightarrow> (ServiceStatus \<times> thread_phase \<times> asock_directive) \<times> bool" where
  "guarded_control e = (control e, e_new_connections_mutex e)"

text \<open>A view \<open>c\<close> of the struct is the same afterwards, and only faults that \<open>F\<close> tolerates occur.\<close>

definition steady :: "('a endpoint_scheme \<Rightarrow> 'c) \<Rightarrow> (fault \<Rightarrow> bool) \<Rightarrow> ('a endpoint_scheme \<times> world, 'r) op \<Rightarrow> bool" where
  "steady c F m \<longleftrightarrow> (\<forall>e w. wp F m (\<lambda>_ (e', w'). c e' = c e) (e, w))"

named_theorems steady_intros \<open>operations that keep the control state\<close>

lemma steadyI: "(\<And>e w. wp F m (\<lambda>_ (e', w'). c e' = c e) (e, w)) \<Longrightarrow> steady c F m"
  by (simp add: steady_def)

lemma steadyD: "steady c F m \<Longrightarrow> wp F m (\<lambda>_ (e', w'). c e' = c e) (e, w)"
  by (simp add: steady_def)

lemma steady_bind [steady_intros]:
  fixes m :: "('a endpoint_scheme \<times> world, 'r) op"
  assumes "steady c F m" "\<And>x. steady c F (f x)"
  shows "steady c F (bindM m f)"
proof (rule steadyI)
  fix e :: "'a endpoint_scheme" and w
  show "wp F (bindM m f) (\<lambda>_ (e', w'). c e' = c e) (e, w)"
    unfolding wp_bind
  proof (rule wp_mono [OF steadyD [OF assms(1)]])
    fix x and s :: "'a endpoint_scheme \<times> world"
    assume "case s of (e', w') \<Rightarrow> c e' = c e"
    then show "wp F (f x) (\<lambda>_ (e', w'). c e' = c e) s"
      using steadyD [OF assms(2), of x "fst s" "snd s"] by (cases s) simp
  qed
qed

lemma steady_then [steady_intros]: "steady c F m \<Longrightarrow> steady c F n \<Longrightarrow> steady c F (thenM m n)"
  unfolding thenM_def by (rule steady_bind)

lemma steady_return [steady_intros]: "steady c F (returnM x)"
  and steady_gets [steady_intros]: "steady c F (getsM f)"
  and steady_getE [steady_intros]: "steady c F (getE g)"
  by (auto intro!: steadyI simp: wp_simps)

lemma steady_fail [steady_intros]: "F d \<Longrightarrow> steady c F (failM d)"
  by (auto intro!: steadyI simp: wp_simps)

lemma steady_assert [steady_intros]: "F Assert_Failed \<Longrightarrow> steady c F (assertM b)"
  by (auto intro!: steadyI simp: wp_simps)

lemma steady_updateE [steady_intros]: "(\<And>e. c (f e) = c e) \<Longrightarrow> steady c F (updateE f)"
  by (auto intro!: steadyI simp: wp_simps)

lemma steady_liftR [steady_intros]: "(\<And>s d. f s = Inl d \<Longrightarrow> F d) \<Longrightarrow> steady c F (liftR f)"
  by (auto intro!: steadyI simp: wp_simps split: sum.split)

lemma steady_liftW [steady_intros]: "(\<And>w. wp F m (\<lambda>_ _. True) w) \<Longrightarrow> steady c F (liftW m)"
  by (auto intro!: steadyI simp: wp_simps elim!: wp_mono)

lemma steady_if [steady_intros]: "(b \<Longrightarrow> steady c F m) \<Longrightarrow> (\<not> b \<Longrightarrow> steady c F n) \<Longrightarrow> steady c F (if b then m else n)"
  by simp

lemma steady_option [steady_intros]:
  "steady c F m \<Longrightarrow> (\<And>x. steady c F (f x)) \<Longrightarrow> steady c F (case r of None \<Rightarrow> m | Some x \<Rightarrow> f x)"
  by (cases r) simp_all

lemma steady_sysres [steady_intros]:
  "(\<And>n. steady c F (f n)) \<Longrightarrow> (\<And>n. steady c F (g n)) \<Longrightarrow> steady c F (case r of Ret n \<Rightarrow> f n | Err n \<Rightarrow> g n)"
  by (cases r) simp_all

lemma steady_prod [steady_intros]: "(\<And>x y. steady c F (f x y)) \<Longrightarrow> steady c F (case p of (x, y) \<Rightarrow> f x y)"
  by (cases p) simp

lemma steady_Let [steady_intros]: "steady c F (f x) \<Longrightarrow> steady c F (let y = x in f y)"
  by simp

lemma steady_foreach [steady_intros]: "(\<And>x. steady c F (f x)) \<Longrightarrow> steady c F (foreachM f xs)"
  by (induction xs) (auto intro: steady_intros)

lemma steady_for_down [steady_intros]: "(\<And>i. steady c F (body i)) \<Longrightarrow> steady c F (for_down i n body)"
proof (induction i n body rule: for_down.induct)
  case (1 i n body)
  then show ?case by (subst for_down.simps) (auto intro: steady_intros)
qed

abbreviation any_fault :: "fault \<Rightarrow> bool" where
  "any_fault \<equiv> (\<lambda>_. True)"

lemma wp_any [simp, steady_intros]: "wp any_fault m (\<lambda>_ _. True) s"
  by (simp add: wp_def split: sum.split)

lemmas table_steps =
  connection_at_def erase_connection_def erase_new_connection_def
  push_connection_def push_new_connection_def asock_service_index_of_con_def
  asock_service_index_of_con_by_sock_desc_def release_namespace_def

text \<open>Views that do not look at the tables and the namespace, and that closing a connection leaves
  alone: then the rounds of both threads do.\<close>

locale control_view =
  fixes c :: "'a endpoint_scheme \<Rightarrow> 'c"
  assumes updates:
      "c (e\<lparr>e_connections := v\<rparr>) = c e" "c (e\<lparr>e_new_connections := v\<rparr>) = c e"
      "c (e\<lparr>e_net_ns := n\<rparr>) = c e" "c (e\<lparr>e_net_ns_fd := fd\<rparr>) = c e"
    and close: "steady c any_fault (asock_service_close_connection K sockd)"
begin

lemma steady_send_unsent: "steady c any_fault (asock_service_send_unsent_data K)"
proof -
  have "steady c any_fault (asock_service_try_send_data K con bs n)" for con bs n
    unfolding asock_service_try_send_data_def table_steps
    by (intro steady_intros updates close TrueI) (auto split: AsockConState.split intro!: steady_intros updates close)
  then show ?thesis
    unfolding asock_service_send_unsent_data_def send_unsent_from_def table_steps
    by (intro steady_intros updates close TrueI)
qed

lemma steady_close_pass: "steady c any_fault (asock_service_check_for_connections_to_close K)"
  unfolding asock_service_check_for_connections_to_close_def table_steps by (intro steady_intros updates close TrueI)

lemma steady_read_all: "steady c any_fault (read_all_data fuel K fd)"
proof (induction fuel)
  case (Suc fuel)
  then show ?case unfolding read_all_data.simps table_steps by (intro steady_intros updates close TrueI)
qed (simp add: steady_intros)

end

lemma control_updates [simp]:
  "control (e\<lparr>e_connections := v\<rparr>) = control e" "control (e\<lparr>e_new_connections := v\<rparr>) = control e"
  "control (e\<lparr>e_new_connections_mutex := b\<rparr>) = control e" "control (e\<lparr>e_net_ns := n\<rparr>) = control e"
  "control (e\<lparr>e_net_ns_fd := fd\<rparr>) = control e"
  by (simp_all add: control_def)

text \<open>Without the mutex this is immediate.\<close>

interpretation plain: control_view control
proof
  show "steady control any_fault (asock_service_close_connection K sockd)" for K sockd
    unfolding asock_service_close_connection_def lock_new_def unlock_new_def table_steps
    by (intro steady_intros control_updates TrueI)
qed simp_all

text \<open>With the mutex, by its sections: from one state of the mutex to another.\<close>

definition moves :: "(fault \<Rightarrow> bool) \<Rightarrow> bool \<Rightarrow> bool \<Rightarrow> ('a endpoint_scheme \<times> world, 'r) op \<Rightarrow> bool" where
  "moves F b b' m \<longleftrightarrow> (\<forall>e w. e_new_connections_mutex e = b \<longrightarrow>
     wp F m (\<lambda>_ (e', w'). control e' = control e \<and> e_new_connections_mutex e' = b') (e, w))"

named_theorems moves_intros \<open>sections of the mutex\<close>

lemma movesD:
  "moves F b b' m \<Longrightarrow> e_new_connections_mutex e = b \<Longrightarrow>
    wp F m (\<lambda>_ (e', w'). control e' = control e \<and> e_new_connections_mutex e' = b') (e, w)"
  by (simp add: moves_def)

lemma moves_steady:
  assumes "steady guarded_control F m"
  shows "moves F b b m"
  unfolding moves_def by (intro allI impI, rule wp_mono [OF steadyD [OF assms]]) (auto simp: guarded_control_def)

lemma moves_bind:
  fixes m :: "('a endpoint_scheme \<times> world, 'r) op"
  assumes "moves F b b' m" "\<And>x. moves F b' b'' (f x)"
  shows "moves F b b'' (bindM m f)"
  unfolding moves_def wp_bind
proof (intro allI impI)
  fix e :: "'a endpoint_scheme" and w assume "e_new_connections_mutex e = b"
  then have "wp F m (\<lambda>_ (e', w'). control e' = control e \<and> e_new_connections_mutex e' = b') (e, w)"
    using assms(1) by (simp add: moves_def)
  then show "wp F m (\<lambda>x. wp F (f x) (\<lambda>_ (e', w'). control e' = control e \<and> e_new_connections_mutex e' = b'')) (e, w)"
  proof (rule wp_mono)
    fix x and s :: "'a endpoint_scheme \<times> world"
    assume "case s of (e', w') \<Rightarrow> control e' = control e \<and> e_new_connections_mutex e' = b'"
    then obtain e' w' where s: "s = (e', w')" and e': "control e' = control e" "e_new_connections_mutex e' = b'"
      by (cases s) auto
    have "wp F (f x) (\<lambda>_ (e'', w''). control e'' = control e' \<and> e_new_connections_mutex e'' = b'') (e', w')"
      using assms(2) [of x] e'(2) by (simp add: moves_def)
    then show "wp F (f x) (\<lambda>_ (e', w'). control e' = control e \<and> e_new_connections_mutex e' = b'') s"
      by (simp add: s e'(1))
  qed
qed

lemma moves_if: "(b \<Longrightarrow> moves F h h' m) \<Longrightarrow> (\<not> b \<Longrightarrow> moves F h h' n) \<Longrightarrow> moves F h h' (if b then m else n)"
  by simp

lemma moves_then: "moves F b b' m \<Longrightarrow> moves F b' b'' n \<Longrightarrow> moves F b b'' (thenM m n)"
  unfolding thenM_def by (rule moves_bind)

lemma moves_lock: "moves F False True lock_new"
  and moves_unlock: "moves F b False unlock_new"
  and moves_held: "F Self_Deadlock \<Longrightarrow> moves F True b' (thenM lock_new m)"
  by (simp_all add: moves_def wp_simps)

lemma steady_moves:
  fixes m :: "('a endpoint_scheme \<times> world, 'r) op"
  assumes "moves F False False m" "moves F True True m"
  shows "steady guarded_control F m"
proof (rule steadyI)
  fix e :: "'a endpoint_scheme" and w
  have "moves F (e_new_connections_mutex e) (e_new_connections_mutex e) m"
    using assms by (cases "e_new_connections_mutex e") simp_all
  then show "wp F m (\<lambda>_ (e', w'). guarded_control e' = guarded_control e) (e, w)"
    by (simp add: moves_def guarded_control_def)
qed

lemma guarded_updates [simp]:
  "guarded_control (e\<lparr>e_connections := v\<rparr>) = guarded_control e"
  "guarded_control (e\<lparr>e_new_connections := v\<rparr>) = guarded_control e"
  "guarded_control (e\<lparr>e_net_ns := n\<rparr>) = guarded_control e"
  "guarded_control (e\<lparr>e_net_ns_fd := fd\<rparr>) = guarded_control e"
  by (simp_all add: guarded_control_def)

lemma guarded_close: "steady guarded_control any_fault (asock_service_close_connection K sockd)"
proof (rule steady_moves)
  show "moves any_fault False False (asock_service_close_connection K sockd)"
    unfolding asock_service_close_connection_def table_steps
    by (rule moves_then [OF moves_steady], intro steady_intros TrueI, rule moves_then [OF moves_lock],
        rule moves_bind [OF moves_steady], intro steady_intros TrueI, rule moves_then [OF moves_steady],
        intro steady_intros guarded_updates TrueI, rule moves_then [OF moves_unlock], rule moves_steady,
        intro steady_intros guarded_updates TrueI)
  show "moves any_fault True True (asock_service_close_connection K sockd)"
    unfolding asock_service_close_connection_def
    by (rule moves_then [OF moves_steady], intro steady_intros TrueI, rule moves_held, rule TrueI)
qed

interpretation guarded: control_view guarded_control
  by unfold_locales (simp_all add: guarded_close)

lemma guarded_adopt: "steady guarded_control any_fault (service_adopt_new_connections K)"
proof (rule steady_moves)
  show "moves any_fault True True (service_adopt_new_connections K)"
    unfolding service_adopt_new_connections_def by (rule moves_held) (rule TrueI)
  show "moves any_fault False False (service_adopt_new_connections K)"
    unfolding service_adopt_new_connections_def service_adopt_connection_def asock_service_try_connect_to_peer_def
      connect_socket_def connect_register_def connect_give_up_def table_steps
    by (rule moves_then [OF moves_lock], rule moves_bind [OF moves_steady], intro steady_intros TrueI,
        rule moves_then [OF moves_steady], intro steady_intros guarded_updates TrueI,
        rule moves_then [OF moves_steady], intro steady_intros guarded_updates TrueI, rule moves_unlock)
qed

text \<open>The rounds.\<close>

lemma guarded_service_event: "steady guarded_control any_fault (service_handle_event fuel K ev)"
  unfolding service_handle_event_def service_event_out_def table_steps
  by (intro steady_intros guarded_updates guarded_close guarded.steady_read_all TrueI)

lemma guarded_service_update: "steady guarded_control any_fault (asock_service_update_state fuel K)"
  unfolding asock_service_update_state_def
  by (intro steady_intros guarded_adopt guarded.steady_send_unsent guarded.steady_close_pass guarded_service_event TrueI)

lemma steady_server_update: "steady control any_fault (asock_server_update_state fuel K)"
proof -
  have "steady control any_fault (server_accept_all fuel K)" for fuel
  proof (induction fuel)
    case (Suc fuel)
    then show ?case
      unfolding server_accept_all.simps server_add_connection_def server_make_connection_def
        server_publish_connection_def clearing_after_failure_def lock_new_def unlock_new_def table_steps
      by (intro steady_intros control_updates TrueI)
  qed (simp add: steady_intros)
  then show ?thesis
    unfolding asock_server_update_state_def server_handle_event_def server_copies
    by (intro steady_intros plain.steady_send_unsent plain.steady_close_pass plain.steady_read_all plain.close TrueI)
qed

end
