(* ===== verification/Asock_Machines.thy ===== *)
theory Asock_Machines
  imports Asock_Phases
begin

text \<open>
  Services and servers as state machines. A step is a round of the thread or a call of the
  application that returned; between the steps anything may happen to the world. The phases only
  go forward, and stopping comes to an end in every reachable state.
\<close>

section \<open>Phases\<close>

instantiation thread_phase :: linorder
begin

fun phase_rank :: "thread_phase \<Rightarrow> nat" where
  "phase_rank Not_Started = 0"
| "phase_rank Configuring = 1"
| "phase_rank Looping = 2"
| "phase_rank Finished = 3"

definition less_eq_thread_phase :: "thread_phase \<Rightarrow> thread_phase \<Rightarrow> bool" where
  "p \<le> q \<longleftrightarrow> phase_rank p \<le> phase_rank q"

definition less_thread_phase :: "thread_phase \<Rightarrow> thread_phase \<Rightarrow> bool" where
  "p < q \<longleftrightarrow> phase_rank p < phase_rank q"

instance
proof
  fix p q :: thread_phase
  show "p \<le> q \<Longrightarrow> q \<le> p \<Longrightarrow> p = q" by (cases p; cases q) (simp_all add: less_eq_thread_phase_def)
qed (auto simp: less_eq_thread_phase_def less_thread_phase_def)

end

text \<open>The status that belongs to each place in the thread function.\<close>

fun status_of_phase :: "thread_phase \<Rightarrow> ServiceStatus" where
  "status_of_phase Not_Started = Init"
| "status_of_phase Configuring = Configuration"
| "status_of_phase Looping = Running"
| "status_of_phase Finished = Aborted"

text \<open>Between the steps: status and place agree, and no directive waits.\<close>

definition phase_ok :: "'a endpoint_scheme \<Rightarrow> bool" where
  "phase_ok e \<longleftrightarrow> e_status e = status_of_phase (e_thread e) \<and> e_thread e \<noteq> Not_Started
     \<and> asock_get_directive_type (e_directive e) = DirectNone"

lemma phase_ok_control: "control e' = control e \<Longrightarrow> phase_ok e' = phase_ok e \<and> e_thread e' = e_thread e"
  by (simp add: phase_ok_def control_def)

text \<open>Faults that are waiting for ever: for a mutex the thread itself holds, or for a thread that has ended.\<close>

definition hangs :: "fault \<Rightarrow> bool" where
  "hangs d \<longleftrightarrow> d = Self_Deadlock \<or> d = Diverges"

abbreviation no_hang :: "fault \<Rightarrow> bool" where
  "no_hang \<equiv> (\<lambda>d. \<not> hangs d)"

lemma no_hang_simps [simp]:
  "no_hang Null_Deref" "no_hang Use_After_Free" "no_hang Out_Of_Bounds" "no_hang Assert_Failed"
  by (simp_all add: hangs_def)

definition forward :: "('a endpoint_scheme \<Rightarrow> bool) \<Rightarrow> 'a endpoint_scheme \<Rightarrow> 'r \<Rightarrow> 'a endpoint_scheme \<times> world \<Rightarrow> bool" where
  "forward ok e r = (\<lambda>(e', w'). ok e' \<and> e_thread e \<le> e_thread e')"

definition stopped :: "('a endpoint_scheme \<Rightarrow> bool) \<Rightarrow> 'a endpoint_scheme \<Rightarrow> 'r \<Rightarrow> 'a endpoint_scheme \<times> world \<Rightarrow> bool" where
  "stopped ok e r = (\<lambda>(e', w'). ok e' \<and> e_thread e' = (if e_thread e = Looping then Finished else e_thread e))"

text \<open>A machine whose steps keep a condition and never go back, and that can always be stopped.\<close>

locale phase_machine =
  fixes step :: "'a endpoint_scheme \<times> world \<Rightarrow> 'a endpoint_scheme \<times> world \<Rightarrow> bool"
    and ok :: "'a endpoint_scheme \<Rightarrow> bool"
    and stop :: "nat \<Rightarrow> kernel \<Rightarrow> ('a endpoint_scheme \<times> world, unit) op"
  assumes step_forward: "ok e \<Longrightarrow> step (e, w) s \<Longrightarrow> forward ok e () s"
    and stop_ends: "ok e \<Longrightarrow> wp no_hang (stop fuel K) (stopped ok e) (e, w)"
begin

lemma reachable:
  assumes "rtranclp step (e, w) (e', w')" "ok e"
  shows "ok e' \<and> e_thread e \<le> e_thread e'"
  using assms
proof (induction "(e', w')" arbitrary: e' w' rule: rtranclp_induct)
  case (step s)
  obtain e1 w1 where "s = (e1, w1)" by (cases s)
  with step step_forward [of e1 w1 "(e', w')"] show ?case by (auto simp: forward_def)
qed simp

lemma reachable_stops:
  assumes "rtranclp step (e, w) (e', w')" "ok e"
  shows "case stop fuel K (e', w') of Inl d \<Rightarrow> no_hang d
    | Inr (_, e2, w2) \<Rightarrow> e_thread e2 = (if e_thread e' = Looping then Finished else e_thread e')"
proof -
  have "ok e'" using reachable [OF assms] by simp
  from stop_ends [OF this, of fuel K w'] show ?thesis
    by (auto simp: wp_def stopped_def split: sum.splits prod.splits if_splits)
qed

end

section \<open>Sending directives\<close>

lemma wp_send_forward:
  assumes worker: "wp any_fault worker (\<lambda>x s. forward ok e x s \<or> directive_take (e_directive (fst s)) = None)
      (e\<lparr>e_directive := directive_post type a1 a2 a3 a4 (e_directive e)\<rparr>, w)"
    and ok: "\<And>e' r d. ok e' \<Longrightarrow> directive_take (e_directive e') = Some (r, d) \<Longrightarrow> ok (e'\<lparr>e_directive := d\<rparr>)"
  shows "wp any_fault (asock_send_directive worker type a1 a2 a3 a4) (forward ok e) (e, w)"
proof -
  have "wp any_fault (bindM (getE (\<lambda>e. directive_take (e_directive e))) (\<lambda>r.
       case r of
         None \<Rightarrow> failM Diverges
       | Some (result, direct) \<Rightarrow>
           thenM (updateE (\<lambda>e. e\<lparr>e_directive := direct\<rparr>)) (returnM result))) (forward ok e) s"
    if "forward ok e x s \<or> directive_take (e_directive (fst s)) = None" for x s
    using that ok by (cases s) (auto simp: wp_simps forward_def split: option.split)
  then show ?thesis
    unfolding asock_send_directive_def wp_then wp_updateE by (intro wp_mono [OF worker]) simp
qed

lemma phase_ok_take:
  "phase_ok e \<Longrightarrow> directive_take (e_directive e) = Some (r, d) \<Longrightarrow> phase_ok (e\<lparr>e_directive := d\<rparr>)"
  by (auto simp: phase_ok_def directive_defs split: if_splits)

text \<open>Shutting down waits for nobody.\<close>

lemma no_hang_destroy: "wp no_hang (asock_destroy_asock K con) (\<lambda>_ _. True) w"
  by (auto simp: asock_destroy_asock_def update_asock_def read_asock_def free_asock_def deref_def wp_simps split: option.split)

lemma steady_destroy_connections: "steady c no_hang (destroy_connections K table)"
proof -
  have "no_hang d" if "asock_connections_at v i = Inl d" for v :: asock_vector and i d
    using that by (auto simp: asock_connections_at_def mem_read_def bindR_def split: option.splits if_splits sum.splits)
  then show ?thesis
    unfolding destroy_connections_def connection_at_def by (intro steady_intros no_hang_destroy) (auto split: prod.splits)
qed

lemma steady_release_namespace: "steady guarded_control no_hang (release_namespace K)"
  unfolding release_namespace_def by (intro steady_intros guarded_updates) (simp add: wp_simps)

lemma steady_release_control: "steady control no_hang (release_namespace K)"
  unfolding release_namespace_def by (intro steady_intros control_updates) (simp add: wp_simps)

section \<open>The service\<close>

definition service_ok :: "asock_service \<Rightarrow> bool" where
  "service_ok e \<longleftrightarrow> phase_ok e \<and> \<not> e_new_connections_mutex e"

lemma guarded_forward: "service_ok e \<Longrightarrow> guarded_control e' = guarded_control e \<Longrightarrow> forward service_ok e r (e', w')"
  using phase_ok_control [of e' e] by (simp add: service_ok_def guarded_control_def forward_def)

lemma wp_update_forward:
  assumes "service_ok e" "e_thread e1 = e_thread e" "service_ok e1"
  shows "wp any_fault (asock_service_update_state fuel K) (forward service_ok e) (e1, w)"
proof (rule wp_mono [OF steadyD [OF guarded_service_update]])
  fix x and s :: "asock_service \<times> world"
  assume "case s of (e', w') \<Rightarrow> guarded_control e' = guarded_control e1"
  then obtain e' w' where s: "s = (e', w')" and g: "guarded_control e' = guarded_control e1" by (cases s) auto
  from guarded_forward [OF assms(3) g, of x w'] assms(2) show "forward service_ok e x s" by (simp add: s forward_def)
qed

lemma wp_service_thread:
  assumes ok: "service_ok e"
  shows "wp any_fault (asock_service_thread_loop fuel K) (forward service_ok e) (e, w)"
proof (cases "e_thread e")
  case Looping
  have "wp any_fault (asock_service_update_state fuel K) (forward service_ok e) (e, w)"
    using ok by (intro wp_update_forward) simp_all
  with ok Looping show ?thesis
    by (simp add: asock_service_thread_loop_def service_main_round_def wp_simps service_ok_def phase_ok_def)
qed (use ok in \<open>simp_all add: asock_service_thread_loop_def wp_simps service_ok_def phase_ok_def forward_def
    asock_wait_for_directive_def asock_get_directive_type_def less_eq_thread_phase_def\<close>)

text \<open>What the thread makes of a directive.\<close>

lemma wp_create_directive:
  "wp any_fault (bindM (asock_service_process_create_asock_directive K) set_directive_result)
     (\<lambda>_ (e', w'). e_status e' = e_status e \<and> e_thread e' = e_thread e
        \<and> e_new_connections_mutex e' = e_new_connections_mutex e
        \<and> asock_get_directive_type (e_directive e') = DirectNone) (e, w)"
  unfolding asock_service_process_create_asock_directive_def set_directive_result_def
  by (auto simp: wp_simps asock_set_directive_result_def asock_get_directive_type_def
      intro!: wp_mono [OF wp_any] split: direct_arg.split)

definition with_directive :: "asock_service \<Rightarrow> asock_service \<Rightarrow> bool" where
  "with_directive e e1 \<longleftrightarrow> e_status e1 = e_status e \<and> e_thread e1 = e_thread e
     \<and> e_new_connections_mutex e1 = e_new_connections_mutex e"

lemma wp_service_serves:
  assumes ok: "service_ok e" and e1: "with_directive e e1"
    and type: "asock_get_directive_type (e_directive e1) = DirectStart \<or> asock_get_directive_type (e_directive e1) = DirectCreateAsock"
    and started: "e_thread e \<noteq> Finished"
  shows "wp any_fault (asock_service_thread_loop fuel K) (forward service_ok e) (e1, w)"
proof -
  have s: "e_status e = status_of_phase (e_thread e)" "e_thread e \<noteq> Not_Started" "\<not> e_new_connections_mutex e"
    using ok by (simp_all add: service_ok_def phase_ok_def)
  have create: "wp any_fault (bindM (asock_service_process_create_asock_directive K) set_directive_result)
      (\<lambda>_ (e', w'). service_ok e' \<and> e_thread e' = e_thread e) (e1, w)"
    by (rule wp_mono [OF wp_create_directive]) (use s e1 in \<open>auto simp: service_ok_def phase_ok_def with_directive_def\<close>)
  show ?thesis
  proof (cases "e_thread e")
    case Configuring
    show ?thesis
    proof (cases "asock_get_directive_type (e_directive e1) = DirectStart")
      case True
      with s e1 Configuring show ?thesis
        by (simp add: asock_service_thread_loop_def service_configure_def wp_simps with_directive_def directive_defs
            set_directive_result_def forward_def service_ok_def phase_ok_def less_eq_thread_phase_def)
    next
      case False
      then have "asock_get_directive_type (e_directive e1) = DirectCreateAsock" using type by simp
      moreover have "wp any_fault (bindM (asock_service_process_create_asock_directive K) set_directive_result) (forward service_ok e) (e1, w)"
        by (rule wp_mono [OF create]) (auto simp: forward_def)
      ultimately show ?thesis using e1 Configuring
        by (simp add: asock_service_thread_loop_def service_configure_def wp_bind wp_getE with_directive_def
            asock_wait_for_directive_def asock_get_directive_type_def)
    qed
  next
    case Looping
    have update: "wp any_fault (asock_service_update_state fuel K) (forward service_ok e) (e2, w2)"
      if "service_ok e2" "e_thread e2 = e_thread e" for e2 w2
      using wp_update_forward [OF ok that(2,1)] .
    show ?thesis
    proof (cases "asock_get_directive_type (e_directive e1) = DirectStart")
      case True
      let ?e2 = "e1\<lparr>e_directive := asock_set_directive_result (e_directive e1) ASOCK_ERR_BADSTATE\<rparr>"
      have "service_ok ?e2" "e_thread ?e2 = e_thread e"
        using s e1 by (simp_all add: service_ok_def phase_ok_def with_directive_def directive_defs)
      from update [OF this] True e1 Looping show ?thesis
        by (simp add: asock_service_thread_loop_def service_main_round_def wp_simps with_directive_def set_directive_result_def)
    next
      case False
      then have "asock_get_directive_type (e_directive e1) = DirectCreateAsock" using type by simp
      moreover have "wp any_fault (thenM (bindM (asock_service_process_create_asock_directive K) set_directive_result)
          (asock_service_update_state fuel K)) (forward service_ok e) (e1, w)"
        unfolding wp_then by (rule wp_mono [OF create]) (use update in auto)
      ultimately show ?thesis using e1 Looping
        by (simp add: asock_service_thread_loop_def service_main_round_def wp_bind wp_getE with_directive_def)
    qed
  qed (use started ok in \<open>simp_all add: service_ok_def phase_ok_def\<close>)
qed

lemma service_ok_take:
  "service_ok e \<Longrightarrow> directive_take (e_directive e) = Some (r, d) \<Longrightarrow> service_ok (e\<lparr>e_directive := d\<rparr>)"
  using phase_ok_take [of e r d] by (simp add: service_ok_def)

lemma wp_service_send:
  assumes ok: "service_ok e" and type: "type = DirectStart \<or> type = DirectCreateAsock"
  shows "wp any_fault (asock_send_directive (asock_service_thread_loop fuel K) type a1 a2 a3 a4) (forward service_ok e) (e, w)"
proof (rule wp_send_forward)
  fix e' r d
  assume "service_ok e'" "directive_take (e_directive e') = Some (r, d)"
  then show "service_ok (e'\<lparr>e_directive := d\<rparr>)" by (rule service_ok_take)
next
  let ?e1 = "e\<lparr>e_directive := directive_post type a1 a2 a3 a4 (e_directive e)\<rparr>"
  have e1: "with_directive e ?e1" "asock_get_directive_type (e_directive ?e1) = type" "directive_take (e_directive ?e1) = None"
    by (simp_all add: with_directive_def directive_defs)
  show "wp any_fault (asock_service_thread_loop fuel K)
      (\<lambda>x s. forward service_ok e x s \<or> directive_take (e_directive (fst s)) = None) (?e1, w)"
  proof (cases "e_thread e = Finished")
    case True
    then show ?thesis by (auto simp: asock_service_thread_loop_def wp_simps e1(3) directive_defs)
  next
    case False
    then show ?thesis by (intro wp_mono [OF wp_service_serves [OF ok e1(1)]]) (use e1(2) type in auto)
  qed
qed

section \<open>The calls of the application\<close>

lemma wp_service_start:
  assumes "service_ok e"
  shows "wp any_fault (asock_service_start fuel K service) (forward service_ok e) (e, w)"
  using assms wp_service_send [OF assms, of DirectStart]
  by (auto simp: asock_service_start_def wp_simps forward_def)

lemma wp_service_create_asock:
  assumes "service_ok e"
  shows "wp any_fault (asock_service_create_asock fuel K service domain type protocol) (forward service_ok e) (e, w)"
proof -
  have "wp any_fault (bindM (asock_send_directive (asock_service_thread_loop fuel K) DirectCreateAsock
                 (IntArg domain) (IntArg type) (IntArg protocol) (AsockArg 0)) (\<lambda>_.
        bindM (getE (\<lambda>e. m_arg4 (e_directive e))) (\<lambda>result.
        case result of AsockArg con \<Rightarrow> returnM con | _ \<Rightarrow> failM Null_Deref))) (forward service_ok e) (e, w)"
    unfolding wp_bind by (rule wp_mono [OF wp_service_send [OF assms]])
      (auto simp: wp_simps forward_def split: direct_arg.split)
  with assms show ?thesis by (simp add: asock_service_create_asock_def wp_bind wp_getE wp_return forward_def)
qed

lemma wp_service_connect:
  assumes "service_ok e"
  shows "wp any_fault (asock_service_connect K socket addr addrlen) (forward service_ok e) (e, w)"
proof -
  have push: "moves any_fault False False (thenM lock_new (bindM (push_new_connection K socket) (\<lambda>_.
      thenM unlock_new (returnM ASOCK_SUCCESS)))) "
    unfolding table_steps
    by (rule moves_then [OF moves_lock], rule moves_bind [OF moves_steady], intro steady_intros guarded_updates TrueI,
        rule moves_then [OF moves_unlock], rule moves_steady, rule steady_return)
  have "moves any_fault False False (asock_service_connect K socket addr addrlen)"
    unfolding asock_service_connect_def
    by (intro moves_if moves_steady [OF steady_return] moves_bind [OF moves_steady] moves_then [OF moves_steady] push
        steady_intros TrueI wp_any)
  from movesD [OF this, of e w] assms have "wp any_fault (asock_service_connect K socket addr addrlen)
      (\<lambda>_ (e', w'). control e' = control e \<and> e_new_connections_mutex e' = False) (e, w)"
    by (simp add: service_ok_def)
  then show ?thesis
    by (rule wp_mono) (use assms in \<open>auto simp: forward_def service_ok_def dest: phase_ok_control\<close>)
qed

lemma wp_service_stop_ends:
  assumes ok: "service_ok e"
  shows "wp no_hang (asock_service_stop fuel K) (stopped service_ok e) (e, w)"
proof (cases "e_thread e = Looping")
  case True
  let ?e1 = "e\<lparr>e_directive := directive_post DirectStop NullArg NullArg NullArg NullArg (e_directive e)\<rparr>"
  have e: "e_status e = Running" "\<not> e_new_connections_mutex e"
    using ok True by (simp_all add: service_ok_def phase_ok_def)
  let ?locked = "thenM lock_new (thenM (destroy_connections K e_new_connections) (
     thenM unlock_new (thenM (destroy_connections K e_connections) (release_namespace K))))"
  let ?finish = "thenM (updateE (\<lambda>e. e\<lparr>e_thread := Finished\<rparr>)) (set_directive_result ASOCK_SUCCESS)"
  let ?Q = "\<lambda>_ (e', w'). e_thread e' = Finished \<and> \<not> e_new_connections_mutex e'
      \<and> (\<exists>d. asock_get_directive_type d = DirectNone \<and> directive_take (e_directive e') = Some (ASOCK_SUCCESS, d))"
  have "moves no_hang False False ?locked"
    by (intro moves_then [OF moves_lock] moves_then [OF moves_steady] moves_then [OF moves_unlock] moves_steady
        steady_destroy_connections steady_release_namespace)
  from movesD [OF this, of ?e1 w] e
  have "wp no_hang ?locked (\<lambda>_ (e', w'). control e' = control ?e1 \<and> e_new_connections_mutex e' = False) (?e1, w)"
    by simp
  then have "wp no_hang ?locked (\<lambda>_. wp no_hang ?finish ?Q) (?e1, w)"
    by (rule wp_mono) (auto simp: wp_simps set_directive_result_def directive_defs control_def)
  then have "wp no_hang (service_shutdown K) ?Q (?e1, w)"
    by (simp only: service_shutdown_def wp_then_eq)
  then show ?thesis
    using True e
    by (auto simp: asock_service_stop_def asock_service_is_running_def asock_send_directive_def wp_simps
        asock_service_thread_loop_def service_main_round_def asock_get_directive_type_def directive_post_def
        join_thread_def stopped_def service_ok_def phase_ok_def elim!: wp_mono)
next
  case False
  then have "e_status e \<noteq> Running" using ok by (cases "e_thread e") (simp_all add: service_ok_def phase_ok_def)
  with ok False show ?thesis
    by (simp add: asock_service_stop_def asock_service_is_running_def wp_simps stopped_def)
qed

section \<open>The machine of a service\<close>

text \<open>The steps: a round of the thread, the calls of the application as far as they return, and
  whatever the other threads, the kernel and the application do to the world.\<close>

inductive service_step :: "asock_service \<times> world \<Rightarrow> asock_service \<times> world \<Rightarrow> bool" where
  thread: "asock_service_thread_loop fuel K s = Inr ((), s') \<Longrightarrow> service_step s s'"
| start: "asock_service_start fuel K service s = Inr (r, s') \<Longrightarrow> service_step s s'"
| create: "asock_service_create_asock fuel K service domain type protocol s = Inr (p, s') \<Longrightarrow> service_step s s'"
| connect: "asock_service_connect K socket addr addrlen s = Inr (r, s') \<Longrightarrow> service_step s s'"
| stop: "asock_service_stop fuel K s = Inr ((), s') \<Longrightarrow> service_step s s'"
| others: "service_step (e, w) (e, w')"

inductive_cases service_stepE: "service_step s s'"

lemma stopped_forward: "stopped ok e r s \<Longrightarrow> forward ok e () s"
  by (cases "e_thread e") (auto simp: stopped_def forward_def less_eq_thread_phase_def)

interpretation service: phase_machine service_step service_ok asock_service_stop
proof
  fix e w s
  assume ok: "service_ok e" and "service_step (e, w) s"
  from this(2) show "forward service_ok e () s"
  proof cases
    case (thread fuel K)
    with wp_returns [OF wp_service_thread [OF ok]] show ?thesis by simp
  next
    case (start fuel K p r)
    from wp_returns [OF wp_service_start [OF ok] start] show ?thesis by (simp add: forward_def)
  next
    case (create fuel K p domain type protocol r)
    from wp_returns [OF wp_service_create_asock [OF ok] create] show ?thesis by (simp add: forward_def)
  next
    case (connect K p addr n r)
    from wp_returns [OF wp_service_connect [OF ok] connect] show ?thesis by (simp add: forward_def)
  next
    case (stop fuel K)
    have "wp any_fault (asock_service_stop fuel K) (stopped service_ok e) (e, w)"
      by (rule wp_mono_fault [OF wp_service_stop_ends [OF ok]]) simp
    from stopped_forward [OF wp_returns [OF this stop]] show ?thesis .
  qed (use ok in \<open>simp add: forward_def\<close>)
qed (rule wp_service_stop_ends)

lemma fresh_service_ok:
  assumes "kernel_ok K" "asock_service_create_ns fuel K net_ns w = Inr (Some e, w')"
  shows "service_ok e" "e_thread e = Configuring" "fresh_owner w e w'" "e_net_ns_fd e = - 1"
  using wp_returns [OF wp_service_create [OF assms(1), of any_fault] assms(2)]
  by (simp_all add: service_ok_def phase_ok_def fresh_owner_def owner_ok_def owner_inv_def directive_defs)

text \<open>A service on the calm kernel, just created.\<close>

lemma calm_service:
  obtains e w where "asock_service_create_ns 1 calm_kernel (Some ''blue'') empty_world = Inr (Some e, w)"
  using wp_no_faultD [OF calm_creates_service] by auto

text \<open>C10. In every state that a created service reaches, by rounds of its thread, calls of
  \<open>asock_service_start\<close>, \<open>asock_service_create_asock\<close>, \<open>asock_service_connect\<close> and
  \<open>asock_service_stop\<close> in any order, and whatever else happens in the process: the status agrees with
  the place of the thread in its function, no directive is left in the mailbox and the mutex of the
  new connections is free. The phases only go forward. \<open>asock_service_stop\<close> does not wait for ever
  there, neither for the mutex nor for the thread, and if the thread was in its main loop and the
  call returns then the thread has ended.\<close>

theorem service_phases:
  assumes "kernel_ok K0" "asock_service_create_ns fuel0 K0 net_ns w0 = Inr (Some e0, w1)"
    and "rtranclp service_step (e0, w1) (e1, w2)" "rtranclp service_step (e1, w2) (e, w)"
  shows "e_status e = status_of_phase (e_thread e) \<and> asock_get_directive_type (e_directive e) = DirectNone
    \<and> \<not> e_new_connections_mutex e \<and> Configuring \<le> e_thread e1 \<and> e_thread e1 \<le> e_thread e
    \<and> (case asock_service_stop fuel K (e, w) of Inl d \<Rightarrow> \<not> hangs d
       | Inr (_, e', w') \<Rightarrow> e_thread e' = (if e_thread e = Looping then Finished else e_thread e))"
proof -
  have e0: "service_ok e0" "e_thread e0 = Configuring" using fresh_service_ok [OF assms(1,2)] by simp_all
  have e1: "service_ok e1" "Configuring \<le> e_thread e1" using service.reachable [OF assms(3) e0(1)] e0(2) by simp_all
  from service.reachable [OF assms(4) e1(1)] service.reachable_stops [OF assms(4) e1(1), of fuel K] e1(2)
  show ?thesis by (simp add: service_ok_def phase_ok_def)
qed

theorem service_phases_witness:
  "\<exists>e w. e_status e = Running \<and> e_thread e = Looping
    \<and> (case asock_service_stop 1 calm_kernel (e, w) of Inl d \<Rightarrow> \<not> hangs d | Inr (_, e', w') \<Rightarrow> e_thread e' = Finished)"
proof -
  obtain e0 w where e0: "asock_service_create_ns 1 calm_kernel (Some ''blue'') empty_world = Inr (Some e0, w)"
    by (rule calm_service)
  note fresh = fresh_service_ok [OF calm_kernel_ok e0]
  have "e_status e0 = Configuration" using fresh(1,2) by (simp add: service_ok_def phase_ok_def)
  then obtain e where e: "asock_service_start 1 calm_kernel 1 (e0, w) = Inr (ASOCK_SUCCESS, (e, w))" "service_up e0 e"
    using service_starts [of e0 1 calm_kernel w] fresh(2) by auto
  have "rtranclp service_step (e0, w) (e, w)" using service_step.start [OF e(1)] by (rule r_into_rtranclp)
  from service_phases [OF calm_kernel_ok e0 this rtranclp.rtrancl_refl, of 1 calm_kernel] service_upD(1,2) [OF e(2)]
  show ?thesis by (intro exI [of _ e] exI [of _ w]) (simp split: sum.splits prod.splits)
qed

text \<open>C32. A service may only be destroyed while its thread is running or has ended. A service that was
  created and never started has a thread too, which waits for a directive in the configuration loop;
  \<open>asock_service_destroy\<close> neither stops it nor waits for it: it closes the epoll descriptor, frees the
  struct and returns, and the thread goes on polling the mailbox inside it. After a start, the
  thread has ended when \<open>asock_service_destroy\<close> returns.\<close>

theorem service_destroyed_before_start:
  assumes "kernel_ok K" "asock_service_create_ns fuel K net_ns w = Inr (Some e, w')"
  shows "(\<exists>e1 w1. asock_service_destroy fuel K 1 (e, w') = Inr ((), (e1, w1)) \<and> e_thread e1 = Configuring
      \<and> \<not> is_open (e_epoll_desc e) (w_log w1))
    \<and> (\<exists>e2 e3 w3. asock_service_start fuel K 1 (e, w') = Inr (ASOCK_SUCCESS, (e2, w'))
      \<and> asock_service_destroy fuel K 1 (e2, w') = Inr ((), (e3, w3)) \<and> e_thread e3 = Finished)"
proof -
  note fresh = fresh_service_ok [OF assms]
  have e: "e_status e = Configuration" using fresh(1,2) by (simp add: service_ok_def phase_ok_def)
  have early: "wp no_fault (asock_service_destroy fuel K 1)
      (\<lambda>_ (e1, w1). e_thread e1 = Configuring \<and> \<not> is_open (e_epoll_desc e) (w_log w1)) (e, w')"
    using fresh(2,4) e by (simp add: asock_service_destroy_def asock_service_is_running_def wp_simps wp_release_namespace)
  obtain e2 where e2: "asock_service_start fuel K 1 (e, w') = Inr (ASOCK_SUCCESS, (e2, w'))" "service_up e e2"
    using service_starts [OF e fresh(2)] by blast
  note up = service_upD [OF e2(2)]
  have "owner_inv e2 w'" "set (cons_of e2) \<inter> set (news_of e2) = {}" "e_net_ns_fd e2 = - 1"
    using fresh(3,4) up by (simp_all add: fresh_owner_def owner_ok_def)
  from wp_service_stop [OF this(1,2) up(1,2) this(3), of no_fault fuel K] up(1)
  have late: "wp no_fault (asock_service_destroy fuel K 1) (\<lambda>_ (e3, w3). e_thread e3 = Finished) (e2, w')"
    by (auto simp: asock_service_destroy_def asock_service_is_running_def wp_simps wp_release_namespace elim!: wp_mono)
  from wp_no_faultD [OF early] wp_no_faultD [OF late] e2(1) show ?thesis by fastforce
qed

theorem service_destroyed_before_start_witness:
  "\<exists>e w' e1 w1. asock_service_create_ns 1 calm_kernel (Some ''blue'') empty_world = Inr (Some e, w')
    \<and> asock_service_destroy 1 calm_kernel 1 (e, w') = Inr ((), (e1, w1)) \<and> e_thread e1 = Configuring"
proof -
  obtain e w where e: "asock_service_create_ns 1 calm_kernel (Some ''blue'') empty_world = Inr (Some e, w)"
    by (rule calm_service)
  from service_destroyed_before_start [OF calm_kernel_ok e] e show ?thesis by blast
qed

section \<open>The server\<close>

text \<open>A refused push leaves the mutex of a server held, so its condition says nothing of it.\<close>

lemma control_forward: "phase_ok e \<Longrightarrow> control e' = control e \<Longrightarrow> forward phase_ok e r (e', w')"
  using phase_ok_control [of e' e] by (simp add: forward_def)

lemma wp_steady_forward:
  assumes "steady control any_fault m" "phase_ok e1" "e_thread e \<le> e_thread e1"
  shows "wp any_fault m (forward phase_ok e) (e1, w)"
  by (rule wp_mono [OF steadyD [OF assms(1)]])
    (use assms(2,3) in \<open>auto simp: forward_def dest: phase_ok_control\<close>)

lemma wp_server_thread:
  assumes ok: "phase_ok e"
  shows "wp any_fault (asock_server_thread_loop fuel K) (forward phase_ok e) (e, w)"
proof (cases "e_thread e")
  case Looping
  have "wp any_fault (asock_server_update_state fuel K) (forward phase_ok e) (e, w)"
    by (rule wp_steady_forward [OF steady_server_update ok order_refl])
  with ok Looping show ?thesis
    by (simp add: asock_server_thread_loop_def server_main_round_def wp_simps phase_ok_def)
qed (use ok in \<open>simp_all add: asock_server_thread_loop_def wp_simps phase_ok_def forward_def
    asock_wait_for_directive_def asock_get_directive_type_def\<close>)

lemma steady_start_server: "steady control any_fault (asock_server_start_server K)"
  unfolding asock_server_start_server_def by (intro steady_intros TrueI)

lemma steady_bind_directive: "steady control any_fault (asock_server_process_bind_directive K)"
  unfolding asock_server_process_bind_directive_def
  by (intro steady_intros TrueI) (auto split: direct_arg.split intro!: steady_intros)

text \<open>While a directive is being served.\<close>

definition posted :: "'a endpoint_scheme \<Rightarrow> DirectiveType \<Rightarrow> 'a endpoint_scheme \<Rightarrow> bool" where
  "posted e type e1 \<longleftrightarrow> e_status e1 = e_status e \<and> e_thread e1 = e_thread e
     \<and> asock_get_directive_type (e_directive e1) = type"

lemma posted_control: "posted e type e1 \<Longrightarrow> control e' = control e1 \<Longrightarrow> posted e type e'"
  by (simp add: posted_def control_def)

lemma posted_answered:
  "phase_ok e \<Longrightarrow> posted e type e1 \<Longrightarrow>
    phase_ok (e1\<lparr>e_directive := asock_set_directive_result (e_directive e1) result\<rparr>)"
  by (simp add: phase_ok_def posted_def directive_defs)

lemma wp_server_serves:
  assumes ok: "phase_ok e" and e1: "posted e type e1"
    and type: "type = DirectStart \<or> type = DirectBind \<or> type = DirectSetns" and alive: "e_thread e \<noteq> Finished"
  shows "wp any_fault (asock_server_thread_loop fuel K) (forward phase_ok e) (e1, w)"
proof (cases "e_thread e")
  case Looping
  note st = e1 [unfolded posted_def]
  have "wp any_fault (asock_server_update_state fuel K) (forward phase_ok e)
      (e1\<lparr>e_directive := asock_set_directive_result (e_directive e1) ASOCK_ERR_BADSTATE\<rparr>, w)"
    by (rule wp_steady_forward [OF steady_server_update posted_answered [OF ok e1]]) (simp add: st)
  with st type Looping show ?thesis
    by (auto simp: asock_server_thread_loop_def server_main_round_def wp_simps set_directive_result_def)
next
  case Configuring
  note st = e1 [unfolded posted_def]
  have start: "wp any_fault (asock_server_start_server K) (\<lambda>_ (e', w'). posted e type e') (e1, w)"
    and bind: "wp any_fault (asock_server_process_bind_directive K) (\<lambda>_ (e', w'). posted e type e') (e1, w)"
    by (rule wp_mono [OF steadyD [OF steady_start_server]] wp_mono [OF steadyD [OF steady_bind_directive]];
        use e1 in \<open>auto intro: posted_control\<close>)+
  have "wp any_fault (server_configure K) (forward phase_ok e) (e1, w)"
    using type st Configuring ok
    by (auto simp: server_configure_def wp_simps set_directive_result_def forward_def phase_ok_def posted_def directive_defs
        less_eq_thread_phase_def intro!: wp_mono [OF start] wp_mono [OF bind])
  with st type Configuring show ?thesis
    by (auto simp: asock_server_thread_loop_def wp_simps asock_wait_for_directive_def asock_get_directive_type_def)
qed (use alive ok in \<open>simp_all add: phase_ok_def\<close>)

lemma wp_server_call:
  assumes ok: "phase_ok e" and type: "type = DirectStart \<or> type = DirectBind \<or> type = DirectSetns"
  shows "wp any_fault (server_configuration_call fuel K server type a1 a2) (forward phase_ok e) (e, w)"
proof -
  let ?e1 = "e\<lparr>e_directive := directive_post type a1 a2 NullArg NullArg (e_directive e)\<rparr>"
  have e1: "posted e type ?e1" "directive_take (e_directive ?e1) = None"
    by (simp_all add: posted_def directive_defs)
  have "wp any_fault (asock_send_directive (asock_server_thread_loop fuel K) type a1 a2 NullArg NullArg)
      (forward phase_ok e) (e, w)"
  proof (rule wp_send_forward)
    show "wp any_fault (asock_server_thread_loop fuel K)
        (\<lambda>x s. forward phase_ok e x s \<or> directive_take (e_directive (fst s)) = None) (?e1, w)"
    proof (cases "e_thread e = Finished")
      case True
      then show ?thesis by (auto simp: asock_server_thread_loop_def wp_simps e1(2) directive_defs)
    next
      case False
      then show ?thesis by (intro wp_mono [OF wp_server_serves [OF ok e1(1) type]]) auto
    qed
  qed (rule phase_ok_take)
  with ok show ?thesis by (simp add: server_configuration_call_def wp_simps forward_def)
qed

lemma wp_server_accept:
  assumes "phase_ok e"
  shows "wp any_fault (asock_server_accept server) (forward phase_ok e) (e, w)"
proof -
  have "steady control any_fault (asock_server_accept server)"
    unfolding asock_server_accept_def lock_new_def unlock_new_def table_steps
    by (intro steady_intros control_updates TrueI)
  from wp_steady_forward [OF this assms order_refl] show ?thesis .
qed

lemma wp_server_stop_ends:
  assumes ok: "phase_ok e"
  shows "wp no_hang (asock_server_stop fuel K) (stopped phase_ok e) (e, w)"
proof (cases "e_thread e = Looping")
  case True
  let ?e1 = "e\<lparr>e_directive := directive_post DirectStop NullArg NullArg NullArg NullArg (e_directive e)\<rparr>"
  have e: "e_status e = Running" using ok True by (simp add: phase_ok_def)
  let ?finish = "thenM (updateE (\<lambda>e. e\<lparr>e_thread := Finished\<rparr>)) (set_directive_result ASOCK_SUCCESS)"
  let ?Q = "\<lambda>_ (e', w'). e_thread e' = Finished
      \<and> (\<exists>d. asock_get_directive_type d = DirectNone \<and> directive_take (e_directive e') = Some (ASOCK_SUCCESS, d))"
  have close: "wp no_hang (thenM (release_namespace K) ?finish) ?Q (e2, w2)" if "control e2 = control ?e1" for e2 w2
    unfolding wp_then_eq [of _ "release_namespace K"]
    by (rule wp_mono [OF steadyD [OF steady_release_control]])
      (use that in \<open>auto simp: wp_simps set_directive_result_def directive_defs control_def\<close>)
  have "wp no_hang (server_shutdown K) ?Q (?e1, w)"
    unfolding server_shutdown_def wp_then_eq [of _ "destroy_connections K e_connections"]
  proof (rule wp_mono [OF steadyD [OF steady_destroy_connections]])
    fix x and s :: "asock_server \<times> world"
    assume "case s of (e', w') \<Rightarrow> control e' = control ?e1"
    then obtain e2 w2 where s: "s = (e2, w2)" and c: "control e2 = control ?e1" by (cases s) blast
    show "wp no_hang (bindM (getE m_server_socket) (\<lambda>sock_d. bindM (liftW (syscall K (Close sock_d)))
        (\<lambda>_. thenM (release_namespace K) ?finish))) ?Q s"
      unfolding s by (simp only: wp_bind wp_getE wp_liftW wp_syscall close [OF c])
  qed
  then show ?thesis
    using True e
    by (auto simp: asock_server_stop_def asock_server_is_running_def asock_send_directive_def wp_simps
        asock_server_thread_loop_def server_main_round_def asock_get_directive_type_def directive_post_def
        stopped_def phase_ok_def elim!: wp_mono)
next
  case False
  then have "e_status e \<noteq> Running" using ok by (cases "e_thread e") (simp_all add: phase_ok_def)
  with ok False show ?thesis
    by (simp add: asock_server_stop_def asock_server_is_running_def wp_simps stopped_def)
qed

inductive server_step :: "asock_server \<times> world \<Rightarrow> asock_server \<times> world \<Rightarrow> bool" where
  thread: "asock_server_thread_loop fuel K s = Inr ((), s') \<Longrightarrow> server_step s s'"
| bind: "asock_server_bind fuel K server addr addrlen s = Inr (r, s') \<Longrightarrow> server_step s s'"
| setns: "asock_server_setns fuel K server name s = Inr (r, s') \<Longrightarrow> server_step s s'"
| listen: "asock_server_listen fuel K server s = Inr (r, s') \<Longrightarrow> server_step s s'"
| accept: "asock_server_accept server s = Inr (p, s') \<Longrightarrow> server_step s s'"
| stop: "asock_server_stop fuel K s = Inr ((), s') \<Longrightarrow> server_step s s'"
| others: "server_step (e, w) (e, w')"

inductive_cases server_stepE: "server_step s s'"

interpretation server: phase_machine server_step phase_ok asock_server_stop
proof
  fix e w s
  assume ok: "phase_ok e" and "server_step (e, w) s"
  note call = wp_returns [OF wp_server_call [OF ok]]
  from \<open>server_step (e, w) s\<close> show "forward phase_ok e () s"
  proof cases
    case (thread fuel K)
    with wp_returns [OF wp_server_thread [OF ok]] show ?thesis by simp
  next
    case (bind fuel K p addr n r)
    from call [OF _ bind [unfolded asock_server_bind_def]] show ?thesis by (simp add: forward_def)
  next
    case (setns fuel K p name r)
    from call [OF _ setns [unfolded asock_server_setns_def]] show ?thesis by (simp add: forward_def)
  next
    case (listen fuel K p r)
    from call [OF _ listen [unfolded asock_server_listen_def]] show ?thesis by (simp add: forward_def)
  next
    case (accept p r)
    from wp_returns [OF wp_server_accept [OF ok] accept] show ?thesis by (simp add: forward_def)
  next
    case (stop fuel K)
    have "wp any_fault (asock_server_stop fuel K) (stopped phase_ok e) (e, w)"
      by (rule wp_mono_fault [OF wp_server_stop_ends [OF ok]]) simp
    from stopped_forward [OF wp_returns [OF this stop]] show ?thesis .
  qed (use ok in \<open>simp add: forward_def\<close>)
qed (rule wp_server_stop_ends)

lemma fresh_server_ok:
  assumes "kernel_ok K" "asock_server_create_ns fuel K domain type protocol net_ns w = Inr (Some e, w')"
  shows "phase_ok e" "e_thread e = Configuring"
  using wp_returns [OF wp_server_create [OF assms(1), of any_fault] assms(2)]
  by (simp_all add: server_ready_def phase_ok_def fresh_owner_def directive_defs)



end
