(* ===== verification/Asock_Streams.thy ===== *)
theory Asock_Streams
  imports Asock_Rounds Asock_Impl_Facts
begin

text \<open>
  Services and servers in use: a thread takes rounds while the application writes to its connections
  and reads from them, in any order. What is common to both is the locale \<open>thread_rounds\<close>: from the
  laws of one round follows what arrives at the other end of the queues after any sequence of steps.
\<close>

section \<open>The application and the thread\<close>

datatype app_step = Round | Write ptr "byte list" | Receive ptr nat

text \<open>The steps one after the other, where a round is a pass of the thread's loop; the result is what
  the reads delivered.\<close>

fun session ::
    "('a endpoint_scheme \<times> world, unit) op \<Rightarrow> kernel \<Rightarrow> app_step list \<Rightarrow> ('a endpoint_scheme \<times> world, (ptr \<times> byte list) list) op" where
  "session loop K [] = returnM []"
| "session loop K (Round # steps) = thenM loop (session loop K steps)"
| "session loop K (Write p bs # steps) =
     bindM (liftW (asock_write K p (Some bs) (of_nat (length bs)))) (\<lambda>_. session loop K steps)"
| "session loop K (Receive p n # steps) =
     bindM (liftW (asock_read p (Some (replicate n 0)) (of_nat n))) (\<lambda>(c, buf).
     bindM (session loop K steps) (\<lambda>ds. returnM ((p, take (nat c) (the buf)) # ds)))"

definition written :: "ptr \<Rightarrow> app_step list \<Rightarrow> byte list" where
  "written p steps = concat (map (\<lambda>s. case s of Write q bs \<Rightarrow> if q = p then bs else [] | _ \<Rightarrow> []) steps)"

definition delivered :: "ptr \<Rightarrow> (ptr \<times> byte list) list \<Rightarrow> byte list" where
  "delivered p ds = concat (map snd (filter (\<lambda>d. fst d = p) ds))"

lemma written_simps [simp]:
  "written p [] = []" "written p (Round # steps) = written p steps"
  "written p (Write q bs # steps) = (if q = p then bs else []) @ written p steps"
  "written p (Receive q n # steps) = written p steps"
  by (simp_all add: written_def)

lemma delivered_simps [simp]:
  "delivered p [] = []" "delivered p ((q, bs) # ds) = (if q = p then bs else []) @ delivered p ds"
  by (simp_all add: delivered_def)

text \<open>The number of rounds, and how much a round can receive.\<close>

definition rounds :: "app_step list \<Rightarrow> nat" where
  "rounds steps = length (filter (\<lambda>s. s = Round) steps)"

definition round_size :: "nat \<Rightarrow> nat" where
  "round_size fuel = MAX_EVENTS * (fuel * BUF_SIZE)"

lemma rounds_simps [simp]:
  "rounds [] = 0" "rounds (Round # steps) = Suc (rounds steps)"
  "rounds (Write p bs # steps) = rounds steps" "rounds (Receive p n # steps) = rounds steps"
  by (simp_all add: rounds_def)

text \<open>The application writes to and reads from connections it refers to.\<close>

definition addressed :: "ptr set \<Rightarrow> app_step list \<Rightarrow> bool" where
  "addressed A steps \<longleftrightarrow>
     (\<forall>s \<in> set steps. case s of Round \<Rightarrow> True | Write p bs \<Rightarrow> p \<in> A | Receive p n \<Rightarrow> p \<in> A \<and> n < 2 ^ 62)"

section \<open>Following a connection\<close>

lemma waiting_in_data: "waiting w p = length (in_data w p)"
  by (simp add: waiting_def in_data_def)

definition in_tables :: "'a endpoint_scheme \<Rightarrow> ptr set" where
  "in_tables e = set (cons_of e) \<union> set (news_of e)"

text \<open>Between two states, of which the second has the connection in its table: the application has
  written \<open>bs\<close> and read \<open>rs\<close>. Both streams are counted on the descriptor the connection has at the end.\<close>

definition followed ::
    "kernel \<Rightarrow> 'a endpoint_scheme \<Rightarrow> world \<Rightarrow> byte list \<Rightarrow> byte list \<Rightarrow> world \<Rightarrow> ptr \<Rightarrow> bool" where
  "followed K e w bs rs w' p \<longleftrightarrow>
     p \<in> in_tables e
     \<and> sent (fd_of w' p) (w_log w') @ out_data w' p = sent (fd_of w' p) (w_log w) @ out_data w p @ bs
     \<and> (\<exists>cs. rs @ in_data w' p = in_data w p @ cs
          \<and> got K (fd_of w' p) (w_log w') = got K (fd_of w' p) (w_log w) @ cs)
     \<and> (p \<in> set (cons_of e) \<longrightarrow> fd_of w' p = fd_of w p)"

lemma followed_refl: "p \<in> in_tables e \<Longrightarrow> followed K e w [] [] w p"
  by (simp add: followed_def)

text \<open>After a round, which has taken the connection over, its descriptor stays.\<close>

lemma followed_trans:
  assumes "followed K e w bs rs w1 p" "followed K e1 w1 bs' rs' w' p" "p \<in> set (cons_of e1)"
  shows "followed K e w (bs @ bs') (rs @ rs') w' p"
proof -
  have fd: "fd_of w' p = fd_of w1 p" using assms(2,3) by (simp add: followed_def)
  obtain cs ds where data: "rs @ in_data w1 p = in_data w p @ cs" "rs' @ in_data w' p = in_data w1 p @ ds"
    and log: "got K (fd_of w' p) (w_log w') = got K (fd_of w' p) (w_log w1) @ ds"
      "got K (fd_of w' p) (w_log w1) = got K (fd_of w' p) (w_log w) @ cs"
    using assms(1,2) unfolding followed_def fd by blast
  have "(rs @ rs') @ in_data w' p = rs @ in_data w1 p @ ds" using data(2) by simp
  also have "\<dots> = in_data w p @ cs @ ds" using data(1) by (metis append_assoc)
  finally have "\<exists>cs. (rs @ rs') @ in_data w' p = in_data w p @ cs
      \<and> got K (fd_of w' p) (w_log w') = got K (fd_of w' p) (w_log w) @ cs"
    using log by (intro exI [of _ "cs @ ds"]) simp
  with fd show ?thesis using assms(1,2) by (simp add: followed_def)
qed

text \<open>A call of the application on a queue leaves log and descriptors alone.\<close>

lemma followed_touch:
  assumes "followed K e w1 bs' rs' w' p"
    and "w_log w1 = w_log w" "fd_of w1 p = fd_of w p" "out_data w1 p = out_data w p @ bs" "rs @ in_data w1 p = in_data w p"
  shows "followed K e w (bs @ bs') (rs @ rs') w' p"
proof -
  obtain cs where data: "rs' @ in_data w' p = in_data w1 p @ cs"
    and log: "got K (fd_of w' p) (w_log w') = got K (fd_of w' p) (w_log w) @ cs"
    using assms(1,2) by (auto simp: followed_def)
  have "(rs @ rs') @ in_data w' p = rs @ in_data w1 p @ cs" using data by simp
  also have "\<dots> = in_data w p @ cs" using assms(5) by (metis append_assoc)
  finally have "\<exists>cs. (rs @ rs') @ in_data w' p = in_data w p @ cs
      \<and> got K (fd_of w' p) (w_log w') = got K (fd_of w' p) (w_log w) @ cs"
    using log by blast
  with assms show ?thesis by (simp add: followed_def)
qed

text \<open>A call of the application on the queue \<open>q\<close>: what it appended and what it took.\<close>

definition touched :: "world \<Rightarrow> ptr \<Rightarrow> byte list \<Rightarrow> byte list \<Rightarrow> world \<Rightarrow> bool" where
  "touched w q bs rs w' \<longleftrightarrow>
     w_log w' = w_log w
     \<and> (\<forall>p. fd_of w' p = fd_of w p \<and> out_data w' p = out_data w p @ (if p = q then bs else [])
          \<and> (if p = q then rs else []) @ in_data w' p = in_data w p)"

lemma touchedD:
  assumes "touched w q bs rs w'"
  shows "w_log w' = w_log w" "fd_of w' p = fd_of w p" "out_data w' p = out_data w p @ (if p = q then bs else [])"
    "(if p = q then rs else []) @ in_data w' p = in_data w p"
  using assms by (simp_all add: touched_def)

lemma followed_touched:
  assumes "touched w q bs rs w1" "followed K e w1 bs' rs' w' p"
  shows "followed K e w ((if p = q then bs else []) @ bs') ((if p = q then rs else []) @ rs') w' p"
  by (rule followed_touch [OF assms(2)]) (use touchedD [OF assms(1)] in auto)

lemma touched_object:
  assumes "w_asocks w q = Some a" "m_sock_desc b = m_sock_desc a"
    and "queue_data (m_out_queue b) = queue_data (m_out_queue a) @ bs"
    and "rs @ queue_data (m_in_queue b) = queue_data (m_in_queue a)"
    and "w_log w' = w_log w" "w_asocks w' = (w_asocks w)(q \<mapsto> b)"
  shows "touched w q bs rs w'"
  using assms by (simp add: touched_def fd_of_def out_data_def in_data_def)

section \<open>The laws of a round\<close>

text \<open>\<open>A\<close> are connections the application refers to, \<open>n\<close> the bytes the input queues must still be able to
  take; a round may receive \<open>chunk\<close> bytes for each.\<close>

locale thread_rounds =
  fixes loop :: "('a endpoint_scheme \<times> world, unit) op" and K :: kernel and chunk :: nat
    and ready :: "ptr set \<Rightarrow> nat \<Rightarrow> 'a endpoint_scheme \<Rightarrow> world \<Rightarrow> bool"
  assumes grants: "ready A n e w \<Longrightarrow> alloc_grants (k_malloc K)"
    and held: "ready A n e w \<Longrightarrow> p \<in> A \<Longrightarrow> p \<noteq> 0 \<and> lasts w p w"
    and used: "ready A n e w \<Longrightarrow> w_asocks w p = Some a \<Longrightarrow> asock_ok b \<Longrightarrow> m_sock_desc b = m_sock_desc a \<Longrightarrow>
      m_peer_addr b = m_peer_addr a \<Longrightarrow> m_ref_counter b = m_ref_counter a \<Longrightarrow>
      length (queue_data (m_in_queue b)) \<le> length (queue_data (m_in_queue a)) \<Longrightarrow>
      w_log w' = w_log w \<Longrightarrow> w_asocks w' = (w_asocks w)(p \<mapsto> b) \<Longrightarrow> ready A n e w'"
    and less_room: "ready A n e w \<Longrightarrow> m \<le> n \<Longrightarrow> ready A m e w"
    and round_law: "ready A (chunk + n) e w \<Longrightarrow> wp no_fault loop (\<lambda>_ (e', w'). ready A n e' w'
      \<and> (\<forall>p \<in> A. lasts w p w' \<and> (p \<in> in_tables e' \<longrightarrow> p \<in> set (cons_of e') \<and> followed K e w [] [] w' p))) (e, w)"
begin

lemma wp_write_step:
  assumes r: "ready A n e w" and q: "q \<in> A" and room: "length (out_data w q) + length bs \<le> 2 ^ 62"
  shows "wp no_fault (liftW (asock_write K q (Some bs) (of_nat (length bs))))
    (\<lambda>c (e', w'). e' = e \<and> c = int (length bs) \<and> ready A n e w' \<and> touched w q bs [] w') (e, w)"
proof -
  have q0: "q \<noteq> 0" and "lasts w q w" using held [OF r q] by auto
  then obtain a where a: "w_asocks w q = Some a" "asock_ok a" by (auto simp: lasts_def)
  have out: "length (queue_data (m_out_queue a)) + length bs \<le> 2 ^ 62" using room a(1) by (simp add: out_data_def)
  then have n: "unat (of_nat (length bs) :: size_t) = length bs" by (intro unat_of_nat_size) simp
  show ?thesis
    unfolding wp_liftW
  proof (rule wp_mono [OF wp_write_granted [OF q0 a allocator_at_grants [OF grants [OF r]] n out]])
    fix c w1
    assume c: "c = int (length bs) \<and> (\<exists>q'. byte_queue_ok q' \<and> queue_data q' = queue_data (m_out_queue a) @ bs
      \<and> w1 = w\<lparr>w_allocs := w_allocs w1, w_asocks := (w_asocks w)(q \<mapsto> a\<lparr>m_out_queue := q'\<rparr>)\<rparr>)"
    then obtain q' where q': "byte_queue_ok q'" "queue_data q' = queue_data (m_out_queue a) @ bs"
      and eq: "w1 = w\<lparr>w_allocs := w_allocs w1, w_asocks := (w_asocks w)(q \<mapsto> a\<lparr>m_out_queue := q'\<rparr>)\<rparr>"
      by blast
    have w1: "w_log w1 = w_log w" "w_asocks w1 = (w_asocks w)(q \<mapsto> a\<lparr>m_out_queue := q'\<rparr>)"
      by (subst eq, simp)+
    have "ready A n e w1"
      by (rule used [OF r a(1) _ _ _ _ _ w1]) (use a(2) q' in \<open>simp_all add: asock_ok_def\<close>)
    moreover have "touched w q bs [] w1"
      by (rule touched_object [OF a(1) _ _ _ w1]) (use q' in simp_all)
    ultimately show "case (e, w1) of (e', w') \<Rightarrow> e' = e \<and> c = int (length bs) \<and> ready A n e w' \<and> touched w q bs [] w'"
      using c by simp
  qed
qed

lemma wp_read_step:
  assumes r: "ready A n e w" and q: "q \<in> A" and m: "m < 2 ^ 62"
  shows "wp no_fault (liftW (asock_read q (Some (replicate m 0)) (of_nat m)))
    (\<lambda>r (e', w'). e' = e \<and> fst r = int (min m (length (in_data w q)))
      \<and> take (nat (fst r)) (the (snd r)) = take m (in_data w q)
      \<and> ready A n e w' \<and> touched w q [] (take m (in_data w q)) w') (e, w)"
proof -
  have q0: "q \<noteq> 0" and "lasts w q w" using held [OF r q] by auto
  then obtain a where a: "w_asocks w q = Some a" "asock_ok a" by (auto simp: lasts_def)
  have m': "unat (of_nat m :: size_t) = m" using m by (intro unat_of_nat_size) simp
  then have buf: "length (replicate m 0 :: byte list) = unat (of_nat m :: size_t)" by simp
  let ?in = "in_data w q"
  have in_a: "queue_data (m_in_queue a) = ?in" using a(1) by (simp add: in_data_def)
  show ?thesis
    unfolding wp_liftW
  proof (rule wp_mono [OF wp_read_prefix [OF q0 a buf in_a]], unfold m', elim conjE exE)
    fix r' w1 q'
    assume r': "r' = (int (min m (length ?in)), Some (take m ?in @ drop (length ?in) (replicate m 0)))"
      and q': "byte_queue_ok q'" "queue_data q' = drop m ?in"
      and eq: "w1 = w\<lparr>w_asocks := (w_asocks w)(q \<mapsto> a\<lparr>m_in_queue := q'\<rparr>)\<rparr>"
    have w1: "w_log w1 = w_log w" "w_asocks w1 = (w_asocks w)(q \<mapsto> a\<lparr>m_in_queue := q'\<rparr>)" using eq by simp_all
    have "ready A n e w1"
      by (rule used [OF r a(1) _ _ _ _ _ w1]) (use a(2) q' in_a in \<open>simp_all add: asock_ok_def\<close>)
    moreover have "touched w q [] (take m ?in) w1"
      by (rule touched_object [OF a(1) _ _ _ w1]) (use q' in_a in simp_all)
    moreover have "take (min m (length ?in)) ?in = take m ?in" by (simp add: min_def)
    ultimately show "case (e, w1) of (e', w') \<Rightarrow> e' = e \<and> fst r' = int (min m (length ?in))
        \<and> take (nat (fst r')) (the (snd r')) = take m ?in \<and> ready A n e w' \<and> touched w q [] (take m ?in) w'"
      using r' by (simp add: min_def)
  qed
qed

text \<open>Any number of rounds.\<close>

lemma wp_rounds:
  "ready A (m * chunk + n) e w \<Longrightarrow> (\<forall>p \<in> A. p \<in> in_tables e \<longrightarrow> p \<in> set (cons_of e)) \<Longrightarrow>
    wp no_fault (repeatM m loop) (\<lambda>_ (e', w'). ready A n e' w'
      \<and> (\<forall>p \<in> A. lasts w p w' \<and> (p \<in> in_tables e' \<longrightarrow> p \<in> set (cons_of e') \<and> followed K e w [] [] w' p))) (e, w)"
proof (induction m arbitrary: e w)
  case 0
  then show ?case using held by (auto simp: wp_simps followed_refl)
next
  case (Suc m)
  have r: "ready A (chunk + (m * chunk + n)) e w" using Suc.prems(1) by (simp add: add.assoc)
  show ?case
    unfolding repeatM.simps wp_then
  proof (rule wp_mono [OF round_law [OF r]])
    fix x and s :: "'a endpoint_scheme \<times> world"
    assume "case s of (e', w') \<Rightarrow> ready A (m * chunk + n) e' w'
      \<and> (\<forall>p \<in> A. lasts w p w' \<and> (p \<in> in_tables e' \<longrightarrow> p \<in> set (cons_of e') \<and> followed K e w [] [] w' p))"
    then obtain e1 w1 where s: "s = (e1, w1)" and r1: "ready A (m * chunk + n) e1 w1"
      and f: "\<forall>p \<in> A. lasts w p w1 \<and> (p \<in> in_tables e1 \<longrightarrow> p \<in> set (cons_of e1) \<and> followed K e w [] [] w1 p)"
      by (cases s) auto
    show "wp no_fault (repeatM m loop) (\<lambda>_ (e', w'). ready A n e' w'
      \<and> (\<forall>p \<in> A. lasts w p w' \<and> (p \<in> in_tables e' \<longrightarrow> p \<in> set (cons_of e') \<and> followed K e w [] [] w' p))) s"
      unfolding s
    proof (rule wp_mono [OF Suc.IH [OF r1]])
      fix x and s' :: "'a endpoint_scheme \<times> world"
      assume post: "case s' of (e', w') \<Rightarrow> ready A n e' w'
        \<and> (\<forall>p \<in> A. lasts w1 p w' \<and> (p \<in> in_tables e' \<longrightarrow> p \<in> set (cons_of e') \<and> followed K e1 w1 [] [] w' p))"
      have "followed K e w [] [] w' p" if "p \<in> A" "followed K e1 w1 [] [] w' p" for p w'
      proof -
        have "p \<in> in_tables e1" using that(2) by (simp add: followed_def)
        with f that(1) have "p \<in> set (cons_of e1)" "followed K e w [] [] w1 p" by auto
        from followed_trans [OF this(2) that(2) this(1)] show ?thesis by simp
      qed
      with post f show "case s' of (e', w') \<Rightarrow> ready A n e' w'
        \<and> (\<forall>p \<in> A. lasts w p w' \<and> (p \<in> in_tables e' \<longrightarrow> p \<in> set (cons_of e') \<and> followed K e w [] [] w' p))"
        by (cases s') (auto intro: lasts_trans)
    qed (use f in blast)
  qed
qed

text \<open>Any sequence of steps.\<close>

lemma wp_session:
  "ready A (rounds steps * chunk) e w \<Longrightarrow> addressed A steps \<Longrightarrow>
    (\<forall>p \<in> A. length (out_data w p) + length (written p steps) \<le> 2 ^ 62) \<Longrightarrow>
    wp no_fault (session loop K steps) (\<lambda>ds (e', w'). ready A 0 e' w'
      \<and> (\<forall>p \<in> A \<inter> set (cons_of e'). followed K e w (written p steps) (delivered p ds) w' p)) (e, w)"
proof (induction steps arbitrary: e w)
  case Nil
  then show ?case by (simp add: wp_simps in_tables_def followed_refl)
next
  case (Cons step steps)
  have addr: "addressed A steps" using Cons.prems(2) by (simp add: addressed_def)
  let ?post = "\<lambda>steps e w ds (e', w'). ready A 0 e' w'
      \<and> (\<forall>p \<in> A \<inter> set (cons_of e'). followed K e w (written p steps) (delivered p ds) w' p)"
  show ?case
  proof (cases step)
    case Round
    show ?thesis
      unfolding Round session.simps wp_then
    proof (rule wp_mono [OF round_law])
      show "ready A (chunk + rounds steps * chunk) e w" using Cons.prems(1) Round by simp
      fix x and s :: "'a endpoint_scheme \<times> world"
      assume "case s of (e', w') \<Rightarrow> ready A (rounds steps * chunk) e' w'
        \<and> (\<forall>p \<in> A. lasts w p w' \<and> (p \<in> in_tables e' \<longrightarrow> p \<in> set (cons_of e') \<and> followed K e w [] [] w' p))"
      then obtain e1 w1 where s: "s = (e1, w1)" and r1: "ready A (rounds steps * chunk) e1 w1"
        and l: "\<forall>p \<in> A. lasts w p w1" and f: "\<forall>p \<in> A. p \<in> in_tables e1 \<longrightarrow> p \<in> set (cons_of e1) \<and> followed K e w [] [] w1 p"
        by (cases s) auto
      have "length (out_data w1 p) \<le> length (out_data w p)" if "p \<in> A" for p
        using l that by (auto simp: lasts_def out_data_def)
      then have "\<forall>p \<in> A. length (out_data w1 p) + length (written p steps) \<le> 2 ^ 62"
        using Cons.prems(3) Round by (fastforce intro: order_trans [OF add_right_mono])
      from Cons.IH [OF r1 addr this]
      show "wp no_fault (session loop K steps) (?post (Round # steps) e w) s"
        unfolding s
      proof (rule wp_mono)
        fix ds and s' :: "'a endpoint_scheme \<times> world"
        assume a: "?post steps e1 w1 ds s'"
        moreover have "followed K e w (written p (Round # steps)) (delivered p ds) w' p"
          if "p \<in> A" "followed K e1 w1 (written p steps) (delivered p ds) w' p" for p w'
        proof -
          have "p \<in> in_tables e1" using that(2) by (simp add: followed_def)
          with f that(1) have "p \<in> set (cons_of e1)" "followed K e w [] [] w1 p" by auto
          from followed_trans [OF this(2) that(2) this(1)] show ?thesis by simp
        qed
        ultimately show "?post (Round # steps) e w ds s'" by (cases s') auto
      qed
    qed
  next
    case (Write q bs)
    have q: "q \<in> A" "length (out_data w q) + length bs \<le> 2 ^ 62"
      using Cons.prems(2,3) Write by (fastforce simp: addressed_def)+
    have r: "ready A (rounds steps * chunk) e w" using Cons.prems(1) Write by simp
    show ?thesis
      unfolding Write session.simps wp_bind
    proof (rule wp_mono [OF wp_write_step [OF r q]])
      fix c and s :: "'a endpoint_scheme \<times> world"
      assume "case s of (e', w') \<Rightarrow> e' = e \<and> c = int (length bs) \<and> ready A (rounds steps * chunk) e w' \<and> touched w q bs [] w'"
      then obtain w1 where s: "s = (e, w1)" and r1: "ready A (rounds steps * chunk) e w1" and t: "touched w q bs [] w1"
        by (cases s) auto
      have "\<forall>p \<in> A. length (out_data w1 p) + length (written p steps) \<le> 2 ^ 62"
        using Cons.prems(3) Write touchedD(3) [OF t] by auto
      from Cons.IH [OF r1 addr this]
      show "wp no_fault (session loop K steps) (?post (Write q bs # steps) e w) s"
        unfolding s
        by (rule wp_mono) (use followed_touched [OF t] in \<open>fastforce split: if_splits\<close>)
    qed
  next
    case (Receive q m)
    have q: "q \<in> A" "m < 2 ^ 62" using Cons.prems(2) Receive by (simp_all add: addressed_def)
    have r: "ready A (rounds steps * chunk) e w" using Cons.prems(1) Receive by simp
    show ?thesis
      unfolding Receive session.simps wp_bind
    proof (rule wp_mono [OF wp_read_step [OF r q]])
      fix c and s :: "'a endpoint_scheme \<times> world"
      let ?rs = "take m (in_data w q)"
      assume a: "case s of (e', w') \<Rightarrow> e' = e \<and> fst c = int (min m (length (in_data w q))) \<and> take (nat (fst c)) (the (snd c)) = ?rs
        \<and> ready A (rounds steps * chunk) e w' \<and> touched w q [] ?rs w'"
      then obtain w1 where s: "s = (e, w1)" and r1: "ready A (rounds steps * chunk) e w1" and t: "touched w q [] ?rs w1"
        by (cases s) auto
      have c: "take (nat (fst c)) (the (snd c)) = ?rs" using a unfolding s prod.case by blast
      have "\<forall>p \<in> A. length (out_data w1 p) + length (written p steps) \<le> 2 ^ 62"
        using Cons.prems(3) Receive touchedD(3) [OF t] by auto
      from Cons.IH [OF r1 addr this]
      have "wp no_fault (session loop K steps) (\<lambda>ds. ?post (Receive q m # steps) e w ((q, ?rs) # ds)) s"
        unfolding s
        by (rule wp_mono) (use followed_touched [OF t] in \<open>fastforce split: if_splits\<close>)
      then show "wp no_fault (case c of (c, buf) \<Rightarrow> bindM (session loop K steps)
            (\<lambda>ds. returnM ((q, take (nat c) (the buf)) # ds))) (?post (Receive q m # steps) e w) s"
        using c by (cases c) (simp add: wp_simps)
    qed
  qed
qed

end

end
