(* ===== verification/Asock_Session.thy ===== *)
theory Asock_Session
  imports Asock_Streams
begin

text \<open>
  A service in use: its rounds obey the laws of the locale \<open>thread_rounds\<close>, so that the bytes of its
  connections can be followed through any session; and connecting.
\<close>

section \<open>The invariant\<close>

text \<open>\<open>A\<close> are the connections the application holds a reference to.\<close>

definition session_ok :: "ptr set \<Rightarrow> asock_service \<Rightarrow> world \<Rightarrow> bool" where
  "session_ok A e w \<longleftrightarrow>
     owner_ok e w \<and> set (cons_of e) \<inter> set (news_of e) = {} \<and> in_tables e \<subseteq> A
     \<and> e_thread e = Looping \<and> asock_get_directive_type (e_directive e) = DirectNone
     \<and> (\<forall>p \<in> set (news_of e). m_peer_addr (the (w_asocks w p)) \<noteq> None)
     \<and> (\<forall>p \<in> in_tables e. m_ref_counter (the (w_asocks w p)) \<noteq> 1)
     \<and> (\<forall>p \<in> A. p \<noteq> 0 \<and> lasts w p w)"

text \<open>A call of the application that changes a queue of one connection.\<close>

lemma session_ok_touch:
  assumes ok: "session_ok A e w" and p: "w_asocks w p = Some a" and b: "asock_ok b"
    and same: "m_sock_desc b = m_sock_desc a" "m_peer_addr b = m_peer_addr a" "m_ref_counter b = m_ref_counter a"
    and w': "w_log w' = w_log w" "w_asocks w' = (w_asocks w)(p \<mapsto> b)"
  shows "session_ok A e w'"
proof -
  have "owner_ok e w'"
    by (rule owner_ok_same_descs [of e w w' p]) (use ok p b same w' in \<open>auto simp: session_ok_def same_descs_def\<close>)
  moreover have "lasts w' q w'" if "q \<in> A" for q
    using ok that b w'(2) by (cases "q = p") (auto simp: session_ok_def lasts_def)
  ultimately show ?thesis
    using ok p same w'(2) by (auto simp: session_ok_def)
qed

section \<open>A round\<close>

definition moved :: "kernel \<Rightarrow> nat \<Rightarrow> asock_service \<Rightarrow> world \<Rightarrow> world \<Rightarrow> ptr \<Rightarrow> bool" where
  "moved K n e w w' p \<longleftrightarrow> waiting w' p \<le> waiting w p + n \<and> followed K e w [] [] w' p"

lemma round_lasts:
  assumes a: "adoption e w e1 w1" and pr: "progress K e1 w1 n e' w'"
    and apart: "set (cons_of e) \<inter> set (news_of e) = {}"
    and ref: "\<forall>p \<in> in_tables e. m_ref_counter (the (w_asocks w p)) \<noteq> 1" and l: "lasts w p w"
  shows "lasts w p w'"
proof (cases "p \<in> set (cons_of e1)")
  case True
  note keeps = adoption_keeps [OF a apart True]
  have "m_ref_counter (the (w_asocks w1 p)) \<noteq> 1" using keeps(1,3) ref by (simp add: in_tables_def)
  then have "lasts w1 p w'" using pr True by (simp add: progress_def)
  moreover have "sent (fd_of w p) (w_log w1) = sent (fd_of w p) (w_log w)"
    using a by (intro trafficD(1)) (simp add: adoption_def)
  then have "out_data w1 p = out_data w p" using adoption_data(1) [OF a apart True, of "fd_of w p"] by simp
  ultimately show ?thesis by (simp add: lasts_def out_data_def)
next
  case False
  then have same: "w_asocks w' p = w_asocks w1 p" using pr by (simp add: progress_def)
  show ?thesis
  proof (cases "p \<in> set (news_of e)")
    case True
    then have "refused w p w1" "p \<in> in_tables e" using False a by (auto simp: adoption_def in_tables_def)
    then obtain b where "w_asocks w p = Some b" "w_asocks w1 p = Some (b\<lparr>m_sock_desc := - 1, m_state := Failed,
        m_disconnect := True, m_ref_counter := m_ref_counter b - 1\<rparr>)" "m_ref_counter b \<noteq> 1"
      using ref by (force simp: refused_def)
    with l asock_ok_released(2) [of b] show ?thesis by (simp add: lasts_def same)
  next
    case False
    then have "w_asocks w1 p = w_asocks w p" using a by (simp add: adoption_def)
    with l same show ?thesis by (simp add: lasts_def)
  qed
qed

lemma wp_session_round:
  assumes K: "kernel_ok K" "alloc_grants (k_malloc K)" "drains fuel K" and ok: "session_ok A e w"
    and room: "\<forall>p \<in> in_tables e. waiting w p + round_size fuel \<le> 2 ^ 62"
  shows "wp no_fault (asock_service_thread_loop fuel K) (\<lambda>_ (e', w'). session_ok A e' w'
    \<and> (\<forall>p \<in> A. lasts w p w') \<and> (\<forall>p \<in> in_tables e'. moved K (round_size fuel) e w w' p \<and> p \<in> set (cons_of e'))) (e, w)"
proof -
  have e: "owner_ok e w" "set (cons_of e) \<inter> set (news_of e) = {}"
      "\<forall>p \<in> set (news_of e). m_peer_addr (the (w_asocks w p)) \<noteq> None"
      "\<forall>p \<in> in_tables e. m_ref_counter (the (w_asocks w p)) \<noteq> 1"
    and live: "\<forall>p \<in> A. p \<noteq> 0 \<and> lasts w p w" and sub: "in_tables e \<subseteq> A"
    and loop: "e_thread e = Looping" "asock_get_directive_type (e_directive e) = DirectNone"
    using ok by (simp_all add: session_ok_def)
  have post: "session_ok A e' w' \<and> (\<forall>p \<in> A. lasts w p w')
      \<and> (\<forall>p \<in> in_tables e'. moved K (round_size fuel) e w w' p \<and> p \<in> set (cons_of e'))"
    if a: "adoption e w e1 w1" and p: "progress K e1 w1 (round_size fuel) e' w'" for e1 w1 e' w'
  proof -
    have l: "lasts w q w'" if "q \<in> A" for q using round_lasts [OF a p e(2,4)] live that by blast
    have news: "news_of e' = []" and tabs: "in_tables e' = set (cons_of e')" "set (cons_of e') \<subseteq> set (cons_of e1)"
      using a p by (auto simp: adoption_def progress_def in_tables_def)
    have m: "moved K (round_size fuel) e w w' q"
        and r: "m_ref_counter (the (w_asocks w' q)) = m_ref_counter (the (w_asocks w q))"
      if q: "q \<in> set (cons_of e')" for q
    proof -
      have q1: "q \<in> set (cons_of e1)" and c: "carried K (round_size fuel) w1 q w'" using p q by (auto simp: progress_def)
      note k = adoption_keeps [OF a e(2) q1] and d = adoption_data [OF a e(2) q1]
      show "moved K (round_size fuel) e w w' q"
        using k(1,2) d carried_data [OF c] carried_waiting [OF c] by (simp add: moved_def followed_def in_tables_def)
      show "m_ref_counter (the (w_asocks w' q)) = m_ref_counter (the (w_asocks w q))"
        using k(3) c by (simp add: carried_def)
    qed
    have "same_but_tables e e'" using a p by (auto simp: adoption_def progress_def intro: same_but_tables_trans)
    then have "e_thread e' = Looping" "asock_get_directive_type (e_directive e') = DirectNone"
      using loop by (simp_all add: same_but_tables_def)
    moreover have "owner_ok e' w'" using p by (simp add: progress_def)
    moreover have "lasts w' q w'" if "q \<in> A" for q using l [OF that] by (auto simp: lasts_def)
    moreover have "q \<in> in_tables e" if "q \<in> set (cons_of e')" for q using m [OF that] by (simp add: moved_def followed_def)
    ultimately have "session_ok A e' w'"
      using live sub news tabs e(4) r by (auto simp: session_ok_def)
    with l m tabs show ?thesis by simp
  qed
  have "wp no_fault (asock_service_update_state fuel K) (\<lambda>_ (e', w'). \<exists>e1 w1. adoption e w e1 w1
      \<and> progress K e1 w1 (round_size fuel) e' w') (e, w)"
    using wp_service_update_state [OF K e(1-3)] e(4) room by (simp add: in_tables_def round_size_def)
  then have "wp no_fault (asock_service_update_state fuel K) (\<lambda>_ (e', w'). session_ok A e' w'
    \<and> (\<forall>p \<in> A. lasts w p w') \<and> (\<forall>p \<in> in_tables e'. moved K (round_size fuel) e w w' p \<and> p \<in> set (cons_of e'))) (e, w)"
    by (rule wp_mono) (use post in blast)
  with loop show ?thesis
    by (simp add: asock_service_thread_loop_def service_main_round_def wp_simps)
qed

text \<open>The laws of a round. What is asked of the kernel, and the room in the input queues, are part of
  the invariant.\<close>

definition service_ready :: "nat \<Rightarrow> kernel \<Rightarrow> ptr set \<Rightarrow> nat \<Rightarrow> asock_service \<Rightarrow> world \<Rightarrow> bool" where
  "service_ready fuel K A n e w \<longleftrightarrow> kernel_ok K \<and> alloc_grants (k_malloc K) \<and> drains fuel K
     \<and> session_ok A e w \<and> (\<forall>p \<in> in_tables e. waiting w p + n \<le> 2 ^ 62)"

interpretation service_rounds:
  thread_rounds "asock_service_thread_loop fuel K" K "round_size fuel" "service_ready fuel K" for fuel K
proof
  fix A n and e :: asock_service and w
  assume "service_ready fuel K A n e w"
  then show "alloc_grants (k_malloc K)" by (simp add: service_ready_def)
next
  fix A n p and e :: asock_service and w
  assume "service_ready fuel K A n e w" "p \<in> A"
  then show "p \<noteq> 0 \<and> lasts w p w" by (simp add: service_ready_def session_ok_def)
next
  fix A n p and e :: asock_service and w w' :: world and a b
  assume r: "service_ready fuel K A n e w" and p: "w_asocks w p = Some a" and b: "asock_ok b"
    and same: "m_sock_desc b = m_sock_desc a" "m_peer_addr b = m_peer_addr a" "m_ref_counter b = m_ref_counter a"
    and shorter: "length (queue_data (m_in_queue b)) \<le> length (queue_data (m_in_queue a))"
    and w': "w_log w' = w_log w" "w_asocks w' = (w_asocks w)(p \<mapsto> b)"
  have "session_ok A e w'" using session_ok_touch [OF _ p b same w'] r by (simp add: service_ready_def)
  moreover have "waiting w' q + n \<le> 2 ^ 62" if "q \<in> in_tables e" for q
  proof -
    have "waiting w' q \<le> waiting w q" using shorter p w'(2) by (simp add: waiting_def)
    moreover have "waiting w q + n \<le> 2 ^ 62" using r that by (simp add: service_ready_def)
    ultimately show ?thesis by linarith
  qed
  ultimately show "service_ready fuel K A n e w'" using r by (simp add: service_ready_def)
next
  fix A n m and e :: asock_service and w
  assume "service_ready fuel K A n e w" "m \<le> n"
  then show "service_ready fuel K A m e w" by (fastforce simp: service_ready_def intro: order_trans [OF add_left_mono])
next
  fix A n and e :: asock_service and w
  assume r: "service_ready fuel K A (round_size fuel + n) e w"
  then have room: "waiting w p + (round_size fuel + n) \<le> 2 ^ 62" if "p \<in> in_tables e" for p
    using that by (simp add: service_ready_def)
  have K: "kernel_ok K" "alloc_grants (k_malloc K)" "drains fuel K"
    and ok: "session_ok A e w" and round_room: "\<forall>p \<in> in_tables e. waiting w p + round_size fuel \<le> 2 ^ 62"
    using r room by (fastforce simp: service_ready_def)+
  show "wp no_fault (asock_service_thread_loop fuel K) (\<lambda>_ (e', w'). service_ready fuel K A n e' w'
      \<and> (\<forall>p \<in> A. lasts w p w' \<and> (p \<in> in_tables e' \<longrightarrow> p \<in> set (cons_of e') \<and> followed K e w [] [] w' p))) (e, w)"
  proof (rule wp_mono [OF wp_session_round [OF K ok round_room]])
    fix x and s :: "asock_service \<times> world"
    assume post: "case s of (e', w') \<Rightarrow> session_ok A e' w' \<and> (\<forall>p \<in> A. lasts w p w')
      \<and> (\<forall>p \<in> in_tables e'. moved K (round_size fuel) e w w' p \<and> p \<in> set (cons_of e'))"
    obtain e' w' where s: "s = (e', w')" by (cases s)
    have "waiting w' p + n \<le> 2 ^ 62" if "p \<in> in_tables e'" for p
    proof -
      have "p \<in> in_tables e" "waiting w' p \<le> waiting w p + round_size fuel"
        using post that by (simp_all add: s moved_def followed_def)
      with room [of p] show ?thesis by linarith
    qed
    with post K show "case s of (e', w') \<Rightarrow> service_ready fuel K A n e' w'
      \<and> (\<forall>p \<in> A. lasts w p w' \<and> (p \<in> in_tables e' \<longrightarrow> p \<in> set (cons_of e') \<and> followed K e w [] [] w' p))"
      by (simp add: s service_ready_def moved_def)
  qed
qed

section \<open>A session\<close>

text \<open>The application writes to and reads from connections it refers to, and the queues have room.\<close>

definition room_for :: "ptr set \<Rightarrow> nat \<Rightarrow> app_step list \<Rightarrow> asock_service \<Rightarrow> world \<Rightarrow> bool" where
  "room_for A fuel steps e w \<longleftrightarrow>
     (\<forall>p \<in> A. length (out_data w p) + length (written p steps) \<le> 2 ^ 62)
     \<and> (\<forall>p \<in> in_tables e. waiting w p + rounds steps * round_size fuel \<le> 2 ^ 62)"

text \<open>C2. A service in use, from the application's side of the queues. Whatever rounds of the thread,
  writes and reads follow each other, every one of them returns without a fault and the service stays
  well-formed. For every connection that is in its table at the end: what the kernel has taken on its
  descriptor, followed by what is still queued, is what was there before followed by all that the
  application wrote, in order; and what the reads delivered, followed by what waits to be read, is
  what was waiting before followed by exactly what the kernel delivered on its descriptor. The
  application must refer to the connections it uses, the kernel stop delivering within \<open>fuel\<close> reads
  of a round, memory be granted, and the queues keep below 2^62 bytes.\<close>

theorem session_keeps_streams:
  assumes "kernel_ok K" "alloc_grants (k_malloc K)" "drains fuel K"
    and "session_ok A e w" "addressed A steps" "room_for A fuel steps e w"
  shows "\<exists>ds e' w'. session (asock_service_thread_loop fuel K) K steps (e, w) = Inr (ds, (e', w')) \<and> session_ok A e' w'
    \<and> (\<forall>p \<in> set (cons_of e').
          sent (fd_of w' p) (w_log w') @ out_data w' p = sent (fd_of w' p) (w_log w) @ out_data w p @ written p steps
          \<and> (\<exists>bs. delivered p ds @ in_data w' p = in_data w p @ bs
                \<and> got K (fd_of w' p) (w_log w') = got K (fd_of w' p) (w_log w) @ bs)
          \<and> (p \<in> set (cons_of e) \<longrightarrow> fd_of w' p = fd_of w p))"
proof -
  have ready: "service_ready fuel K A (rounds steps * round_size fuel) e w"
    using assms by (simp add: service_ready_def room_for_def)
  have room: "\<forall>p \<in> A. length (out_data w p) + length (written p steps) \<le> 2 ^ 62"
    using assms(6) by (simp add: room_for_def)
  obtain ds e' w' where run: "session (asock_service_thread_loop fuel K) K steps (e, w) = Inr (ds, (e', w'))"
      and ok: "session_ok A e' w'" and f: "\<forall>p \<in> A \<inter> set (cons_of e'). followed K e w (written p steps) (delivered p ds) w' p"
    using wp_no_faultD [OF service_rounds.wp_session [OF ready assms(5) room]] by (auto simp: service_ready_def)
  moreover have "set (cons_of e') \<subseteq> A" using ok by (auto simp: session_ok_def in_tables_def)
  ultimately show ?thesis unfolding followed_def by blast
qed

lemma sample_session: "session_ok {4096, 8192} sample_owner (sample_world 2 False)"
proof -
  have "e_thread sample_owner = Looping" "asock_get_directive_type (e_directive sample_owner) = DirectNone"
    by (simp_all add: sample_owner_def directive_defs)
  then show ?thesis by (simp add: session_ok_def in_tables_def lasts_def)
qed

theorem session_keeps_streams_witness:
  "\<exists>ds e' w'. session (asock_service_thread_loop 1 calm_kernel) calm_kernel [Write 4096 [33], Round, Receive 8192 10] (sample_owner, sample_world 2 False)
      = Inr (ds, (e', w'))
    \<and> (4096 \<in> set (cons_of e') \<longrightarrow> sent (fd_of w' 4096) (w_log w') @ out_data w' 4096 = [11, 22, 33])"
proof -
  let ?steps = "[Write 4096 [33], Round, Receive 8192 10]"
  have g: "alloc_grants (k_malloc calm_kernel)" by (simp add: calm_kernel_def)
  have d: "out_data (sample_world 2 False) p = [11, 22]" "waiting (sample_world 2 False) p = 2" if "p \<in> {4096, 8192}" for p
    using that by (auto simp: out_data_def waiting_def)
  have "addressed {4096, 8192} ?steps" by (simp add: addressed_def)
  moreover have "room_for {4096, 8192} 1 ?steps sample_owner (sample_world 2 False)"
    using d by (simp add: room_for_def in_tables_def round_size_def MAX_EVENTS_def BUF_SIZE_def)
  ultimately show ?thesis
    using session_keeps_streams [OF calm_kernel_ok g calm_drains [of 0, folded One_nat_def] sample_session] d(1) [of 4096]
    by fastforce
qed

section \<open>Connecting\<close>

text \<open>The object of a connection that is on its way.\<close>

definition on_its_way :: "asock_service \<Rightarrow> byte list \<Rightarrow> asock \<Rightarrow> asock" where
  "on_its_way e addr a = a\<lparr>m_peer_addr := Some addr, m_peer_addrlen := of_nat (length addr), m_master_id := e_id e,
     m_state := InProgress, m_ref_counter := m_ref_counter a + 1\<rparr>"

lemma on_its_way_simps [simp]:
  "m_sock_desc (on_its_way e addr a) = m_sock_desc a" "m_peer_addr (on_its_way e addr a) = Some addr"
  "m_ref_counter (on_its_way e addr a) = m_ref_counter a + 1"
  "asock_ok a \<Longrightarrow> asock_ok (on_its_way e addr a)"
  by (simp_all add: on_its_way_def asock_ok_def)

definition connected :: "asock_service \<Rightarrow> world \<Rightarrow> ptr \<Rightarrow> byte list \<Rightarrow> asock_service \<Rightarrow> world \<Rightarrow> bool" where
  "connected e w p addr e' w' \<longleftrightarrow>
     same_but_tables e e' \<and> e_connections e' = e_connections e
     \<and> con_inv (e_new_connections e') \<and> news_of e' = news_of e @ [p]
     \<and> w_log w' = w_log w \<and> w_asocks w' = (w_asocks w)(p \<mapsto> on_its_way e addr (the (w_asocks w p)))"

lemma connected_session:
  assumes ok: "session_ok A e w" and p: "p \<notin> in_tables e" "con_ok w p" "asock_ok (the (w_asocks w p))"
    and fd: "fd_of w p \<notin> fd_of w ` in_tables e" and c: "connected e w p addr e' w'"
  shows "session_ok (insert p A) e' w'"
proof -
  obtain a where a: "w_asocks w p = Some a" "p \<noteq> 0" using p(2) by (rule con_okE)
  have w': "w_log w' = w_log w" "w_asocks w' = (w_asocks w)(p \<mapsto> on_its_way e addr a)"
    and news: "news_of e' = news_of e @ [p]" "con_inv (e_new_connections e')" and sb: "same_but_tables e e'"
    and cons: "e_connections e' = e_connections e" "cons_of e' = cons_of e"
    using c a by (simp_all add: connected_def cons_of_def)
  have tabs: "in_tables e' = insert p (in_tables e)" by (simp add: in_tables_def news cons)
  have fds: "fd_of w' q = fd_of w q" "con_ok w' q = con_ok w q" for q
    using a w' by (auto simp: fd_of_def con_ok_def)
  have "inj_on (fd_of w) (in_tables e)"
    using ok by (simp add: session_ok_def owner_ok_def owner_inv_def in_tables_def)
  then have "inj_on (fd_of w) (in_tables e')" using fd p(1) by (simp add: tabs)
  moreover have "fd_of w' = fd_of w" using fds(1) by blast
  ultimately have "inj_on (fd_of w') (in_tables e')" by simp
  then have "owner_inv e' w'"
    using ok p sb news cons tabs
    by (auto simp: owner_inv_def session_ok_def owner_ok_def in_tables_def fds same_but_tables_def)
  then have "owner_ok e' w'"
    using ok p(1,3) a w' by (auto simp: owner_ok_def session_ok_def in_tables_def news cons)
  moreover have "lasts w' q w'" if "q \<in> insert p A" for q
    using ok that a p(3) w' by (auto simp: session_ok_def lasts_def)
  ultimately show ?thesis
    using ok p a w' sb tabs unfolding session_ok_def
    by (auto simp: news cons in_tables_def same_but_tables_def asock_ok_def)
qed

lemma wp_service_connects:
  assumes K: "alloc_grants (k_malloc K)" and e: "owner_inv e w"
    and p: "p \<noteq> 0" "w_asocks w p = Some a" and n: "length addr = unat n"
  shows "wp F (asock_service_connect K p (Some addr) n)
    (\<lambda>r (e', w'). r = ASOCK_SUCCESS \<and> connected e w p addr e' w') (e, w)"
proof -
  have "unat n < 2 ^ 32" by (rule order_less_le_trans [OF unsigned_less]) simp
  moreover from this have un: "unat (ucast n :: size_t) = unat n"
    by (simp add: unsigned_ucast_eq take_bit_nat_eq_self)
  ultimately
  have small: "unat (ucast n :: size_t) \<le> PTRDIFF_MAX" by (simp add: un PTRDIFF_MAX_def)
  obtain d where d: "k_malloc K (w_allocs w) (ucast n) = Some d" "mem_copy (Some d) 0 (Some addr) 0 (ucast n) = Inr (Some addr)"
    using mem_copy_address [OF K _ small] n by (auto simp: un)
  have way: "a\<lparr>m_peer_addr := Some addr, m_peer_addrlen := n, m_master_id := e_id e, m_state := InProgress,
      m_ref_counter := m_ref_counter a + 1\<rparr> = on_its_way e addr a"
    using n by (simp add: on_its_way_def)
  have free: "\<not> e_new_connections_mutex e" and inv: "con_inv (e_new_connections e)" using e by (simp_all add: owner_inv_def)
  have room: "length (news_of e) \<le> 2 ^ 32" using owner_small(2) [OF e] by simp
  let ?e1 = "e\<lparr>e_new_connections_mutex := True\<rparr>"
  have finish: "wp F (push_new_connection K p) (\<lambda>_. wp F (thenM unlock_new (returnM ASOCK_SUCCESS))
      (\<lambda>r (e', w'). r = ASOCK_SUCCESS \<and> connected e w p addr e' w')) (?e1, w1)"
    if "w_log w1 = w_log w" "w_asocks w1 = (w_asocks w)(p \<mapsto> on_its_way e addr a)" for w1
    by (rule wp_push_new_connection [of ?e1, OF _ K])
      (use inv room that p free in \<open>simp_all add: news_of_def wp_simps connected_def same_but_tables_def\<close>)
  show ?thesis
    using p d free finish
    by (simp add: asock_service_connect_def wp_simps asock_con_counter_incr_def way)
qed

text \<open>C6. \<open>asock_service_connect\<close> enters a connection of the application that is in no table into the
  table of new connections, at its end: the object carries a copy of the address, the service's
  identifier, the state \<open>InProgress\<close> and one more reference, no other object and no descriptor is
  touched, and the service stays fit for use, so that the next round takes the connection over.
  Without an address nothing happens.\<close>

theorem service_connect_registers:
  assumes "alloc_grants (k_malloc K)" "session_ok A e w"
    and "p \<notin> in_tables e" "con_ok w p" "w_asocks w p = Some a" "asock_ok a" "fd_of w p \<notin> fd_of w ` in_tables e"
    and "length addr = unat n"
  shows "(\<exists>e' w'. asock_service_connect K p (Some addr) n (e, w) = Inr (ASOCK_SUCCESS, (e', w'))
      \<and> session_ok (insert p A) e' w' \<and> cons_of e' = cons_of e \<and> news_of e' = news_of e @ [p]
      \<and> w_log w' = w_log w \<and> w_asocks w' = (w_asocks w)(p \<mapsto> on_its_way e addr a))
    \<and> asock_service_connect K p None n (e, w) = Inr (ASOCK_ERR_INVAL, (e, w))"
proof -
  have "owner_inv e w" "p \<noteq> 0" using assms(2,4) by (auto simp: session_ok_def owner_ok_def con_ok_def)
  from wp_no_faultD [OF wp_service_connects [OF assms(1) this assms(5,8)]] obtain e' w' where
      "asock_service_connect K p (Some addr) n (e, w) = Inr (ASOCK_SUCCESS, (e', w'))" "connected e w p addr e' w'"
    by blast
  moreover have "asock_service_connect K p None n (e, w) = Inr (ASOCK_ERR_INVAL, (e, w))"
    by (simp add: asock_service_connect_def op_defs)
  ultimately show ?thesis
    using connected_session [OF assms(2,3,4) _ assms(7), of addr e' w'] assms(5,6)
    by (auto simp: connected_def cons_of_def)
qed

text \<open>A running service without connections.\<close>

definition idle_service :: asock_service where
  "idle_service = sample_owner\<lparr>e_connections := sample_table\<lparr>v_size := 0\<rparr>\<rparr>"

lemma idle_session: "cons_of idle_service = []" "news_of idle_service = []" "session_ok {} idle_service w"
proof -
  show t: "cons_of idle_service = []" "news_of idle_service = []"
    using sample_tables(2) by (simp_all add: cons_of_def news_of_def idle_service_def sample_owner_def)
  have "con_inv (sample_table\<lparr>v_size := 0\<rparr>)"
    using sample_owner_ok(2) [of 1 False] by (simp add: owner_inv_def sample_owner_def)
  then have "owner_ok idle_service w"
    by (simp add: owner_ok_def owner_inv_def t) (simp add: idle_service_def sample_owner_def)
  moreover have "e_thread idle_service = Looping" "asock_get_directive_type (e_directive idle_service) = DirectNone"
    by (simp_all add: idle_service_def sample_owner_def directive_defs)
  ultimately show "session_ok {} idle_service w" by (simp add: session_ok_def in_tables_def t)
qed

theorem service_connect_registers_witness:
  "\<exists>e' w'. asock_service_connect calm_kernel 4096 (Some (replicate 16 0)) 16 (idle_service, sample_world 1 False)
      = Inr (ASOCK_SUCCESS, (e', w')) \<and> news_of e' = [4096]"
proof -
  have "alloc_grants (k_malloc calm_kernel)" by (simp add: calm_kernel_def)
  moreover have "con_ok (sample_world 1 False) 4096" by (simp add: con_ok_def sample_world_def sample_con_def)
  ultimately show ?thesis
    using service_connect_registers [of calm_kernel "{}" idle_service "sample_world 1 False" 4096 "sample_con 6 0 1 False"
        "replicate 16 0" 16] idle_session
    by (simp add: in_tables_def) blast
qed

end
