(* ===== verification/Asock_Server_Session.thy ===== *)
theory Asock_Server_Session
  imports Asock_Streams Asock_Server_Facts
begin

text \<open>
  A server in use: its rounds obey the laws of the locale \<open>thread_rounds\<close> too, while connections arrive
  and are handed to the application.
\<close>

section \<open>The invariant\<close>

text \<open>\<open>A\<close> are connections the application has accepted and holds on to; there may be others.\<close>

definition server_in_use :: "ptr set \<Rightarrow> asock_server \<Rightarrow> world \<Rightarrow> bool" where
  "server_in_use A e w \<longleftrightarrow>
     owner_ok e w \<and> set (news_of e) \<subseteq> set (cons_of e) \<and> referred e w
     \<and> e_thread e = Looping \<and> asock_get_directive_type (e_directive e) = DirectNone
     \<and> (\<forall>p \<in> A. p \<noteq> 0 \<and> lasts w p w)"

text \<open>A kernel that lets every round come to its end.\<close>

definition server_kernel :: "nat \<Rightarrow> nat \<Rightarrow> kernel \<Rightarrow> bool" where
  "server_kernel limit fuel K \<longleftrightarrow> kernel_ok K \<and> alloc_grants (k_malloc K) \<and> admits K \<and> arrivals_end limit K
     \<and> drains fuel K \<and> limit < fuel"

definition server_ready :: "nat \<Rightarrow> nat \<Rightarrow> kernel \<Rightarrow> ptr set \<Rightarrow> nat \<Rightarrow> asock_server \<Rightarrow> world \<Rightarrow> bool" where
  "server_ready limit fuel K A n e w \<longleftrightarrow> server_kernel limit fuel K \<and> n \<le> 2 ^ 62
     \<and> server_in_use A e w \<and> roomy e w n"

section \<open>The laws of a round\<close>

lemma keeping_lasts:
  assumes k: "keeping K e w e' w'" and l: "lasts w p w"
  shows "lasts w p w'"
proof (cases "p \<in> set (cons_of e)")
  case True
  then show ?thesis using k by (simp add: keeping_def)
next
  case False
  then have "w_asocks w' p = w_asocks w p" using k lasts_live [OF l] by (simp add: keeping_def)
  with l show ?thesis by (simp add: lasts_def)
qed

lemma keeping_followed:
  assumes k: "keeping K e w e' w'" and p: "p \<in> set (cons_of e')" "w_asocks w p \<noteq> None"
  shows "followed K e w [] [] w' p"
proof -
  obtain n where n: "carried K n w p w'" "p \<in> set (cons_of e)"
    using k p unfolding keeping_def by (meson)
  show ?thesis using carried_data [OF n(1)] n(2) by (simp add: followed_def in_tables_def)
qed

lemma server_in_use_touch:
  assumes use: "server_in_use A e w" and p: "w_asocks w p = Some a" and b: "asock_ok b"
    and same: "m_sock_desc b = m_sock_desc a" "m_ref_counter b = m_ref_counter a"
    and w': "w_log w' = w_log w" "w_asocks w' = (w_asocks w)(p \<mapsto> b)"
  shows "server_in_use A e w'"
proof -
  have "owner_ok e w'"
    by (rule owner_ok_same_descs [of e w w' p]) (use use p b same w' in \<open>auto simp: server_in_use_def same_descs_def\<close>)
  moreover have "lasts w' q w'" if "q \<in> A" for q
    using use that b w'(2) by (cases "q = p") (auto simp: server_in_use_def lasts_def)
  ultimately show ?thesis using use p same w'(2) by (auto simp: server_in_use_def referred_def)
qed

lemma wp_server_round:
  assumes r: "server_ready limit fuel K A (round_size fuel + n) e w"
  shows "wp no_fault (asock_server_thread_loop fuel K) (\<lambda>_ (e', w'). server_ready limit fuel K A n e' w'
    \<and> (\<forall>p \<in> A. lasts w p w' \<and> (p \<in> in_tables e' \<longrightarrow> p \<in> set (cons_of e') \<and> followed K e w [] [] w' p))) (e, w)"
proof -
  have K: "kernel_ok K" "alloc_grants (k_malloc K)" "admits K" "arrivals_end limit K" "drains fuel K" "limit < fuel"
    and sk: "server_kernel limit fuel K"
    and n: "MAX_EVENTS * (fuel * BUF_SIZE) + n \<le> 2 ^ 62" and room: "roomy e w (round_size fuel + n)"
    and e: "owner_ok e w" "set (news_of e) \<subseteq> set (cons_of e)" "referred e w"
    and live: "\<forall>p \<in> A. p \<noteq> 0 \<and> lasts w p w"
    and loop: "e_thread e = Looping" "asock_get_directive_type (e_directive e) = DirectNone"
    using r by (simp_all add: server_ready_def server_in_use_def server_kernel_def round_size_def)
  have "wp no_fault (asock_server_update_state fuel K) (\<lambda>_ (e', w'). serving K e w n e' w') (e, w)"
    using wp_server_update_state [OF K n e(1,2)] e(3) room by (simp add: referred_def roomy_def round_size_def)
  then have "wp no_fault (asock_server_update_state fuel K) (\<lambda>_ (e', w'). server_ready limit fuel K A n e' w'
    \<and> (\<forall>p \<in> A. lasts w p w' \<and> (p \<in> in_tables e' \<longrightarrow> p \<in> set (cons_of e') \<and> followed K e w [] [] w' p))) (e, w)"
  proof (rule wp_mono)
    fix x and s :: "asock_server \<times> world"
    assume "case s of (e', w') \<Rightarrow> serving K e w n e' w'"
    then obtain e' w' where s: "s = (e', w')" and sv: "serving K e w n e' w'" by (cases s) auto
    then have e': "owner_ok e' w'" "set (news_of e') \<subseteq> set (cons_of e')" "referred e' w'" "roomy e' w' n"
        "same_but_tables e e'" and k: "keeping K e w e' w'"
      by (simp_all add: serving_def)
    have l: "lasts w p w'" if "p \<in> A" for p using keeping_lasts [OF k] live that by blast
    have f: "p \<in> set (cons_of e') \<and> followed K e w [] [] w' p" if "p \<in> A" "p \<in> in_tables e'" for p
    proof -
      have "p \<in> set (cons_of e')" using that(2) e'(2) by (auto simp: in_tables_def)
      moreover have "w_asocks w p \<noteq> None" using live that(1) by (auto dest: lasts_live)
      ultimately show ?thesis using keeping_followed [OF k] by blast
    qed
    have "lasts w' p w'" if "p \<in> A" for p using l [OF that] by (auto simp: lasts_def)
    moreover have "e_thread e' = Looping" "asock_get_directive_type (e_directive e') = DirectNone"
      using loop e'(5) by (simp_all add: same_but_tables_def)
    ultimately have "server_in_use A e' w'" using e' live by (simp add: server_in_use_def)
    then show "case s of (e', w') \<Rightarrow> server_ready limit fuel K A n e' w'
      \<and> (\<forall>p \<in> A. lasts w p w' \<and> (p \<in> in_tables e' \<longrightarrow> p \<in> set (cons_of e') \<and> followed K e w [] [] w' p))"
      using l f e'(4) sk n by (simp add: s server_ready_def)
  qed
  with loop show ?thesis by (simp add: asock_server_thread_loop_def server_main_round_def wp_simps)
qed

interpretation server_rounds:
  thread_rounds "asock_server_thread_loop fuel K" K "round_size fuel" "server_ready limit fuel K" for limit fuel K
proof
  fix A n and e :: asock_server and w
  assume "server_ready limit fuel K A n e w"
  then show "alloc_grants (k_malloc K)" by (simp add: server_ready_def server_kernel_def)
next
  fix A n p and e :: asock_server and w
  assume "server_ready limit fuel K A n e w" "p \<in> A"
  then show "p \<noteq> 0 \<and> lasts w p w" by (simp add: server_ready_def server_in_use_def)
next
  fix A n p and e :: asock_server and w w' :: world and a b
  assume r: "server_ready limit fuel K A n e w" and p: "w_asocks w p = Some a" and b: "asock_ok b"
    and same: "m_sock_desc b = m_sock_desc a" "m_ref_counter b = m_ref_counter a"
    and shorter: "length (queue_data (m_in_queue b)) \<le> length (queue_data (m_in_queue a))"
    and w': "w_log w' = w_log w" "w_asocks w' = (w_asocks w)(p \<mapsto> b)"
  have "server_in_use A e w'" using server_in_use_touch [OF _ p b same w'] r by (simp add: server_ready_def)
  moreover have "waiting w' q + n \<le> 2 ^ 62" if "q \<in> set (cons_of e)" for q
  proof -
    have "waiting w' q \<le> waiting w q" using shorter p w'(2) by (simp add: waiting_def)
    moreover have "waiting w q + n \<le> 2 ^ 62" using r that by (simp add: server_ready_def roomy_def)
    ultimately show ?thesis by linarith
  qed
  ultimately show "server_ready limit fuel K A n e w'" using r by (simp add: server_ready_def roomy_def)
next
  fix A n m and e :: asock_server and w
  assume "server_ready limit fuel K A n e w" "m \<le> n"
  then show "server_ready limit fuel K A m e w"
    using roomy_less [of e w n m w] by (simp add: server_ready_def)
next
  fix A n and e :: asock_server and w
  assume "server_ready limit fuel K A (round_size fuel + n) e w"
  then show "wp no_fault (asock_server_thread_loop fuel K) (\<lambda>_ (e', w'). server_ready limit fuel K A n e' w'
    \<and> (\<forall>p \<in> A. lasts w p w' \<and> (p \<in> in_tables e' \<longrightarrow> p \<in> set (cons_of e') \<and> followed K e w [] [] w' p))) (e, w)"
    by (rule wp_server_round)
qed

section \<open>A session\<close>

text \<open>C3. A server in use. Whatever rounds of the thread, writes to and reads from accepted connections
  follow each other, every one of them returns without a fault and the server stays fit for use. For
  every connection of the application that is in its table at the end: what the kernel has taken on
  its descriptor, followed by what is still queued, is what was there before followed by all that
  the application wrote, in order; and what the reads delivered, followed by what waits to be read,
  is what was waiting before followed by exactly what the kernel delivered. The kernel must stop
  delivering data and connections within \<open>fuel\<close> calls of a round, memory be granted, and the queues
  keep below 2^62 bytes.\<close>

theorem server_session_keeps_streams:
  assumes "server_kernel limit fuel K" "server_in_use A e w" "addressed A steps"
    and "\<forall>p \<in> A. length (out_data w p) + length (written p steps) \<le> 2 ^ 62"
    and "roomy e w (rounds steps * round_size fuel)" "rounds steps * round_size fuel \<le> 2 ^ 62"
  shows "\<exists>ds e' w'. session (asock_server_thread_loop fuel K) K steps (e, w) = Inr (ds, (e', w')) \<and> server_in_use A e' w'
    \<and> (\<forall>p \<in> A \<inter> set (cons_of e').
          sent (fd_of w p) (w_log w') @ out_data w' p = sent (fd_of w p) (w_log w) @ out_data w p @ written p steps
          \<and> (\<exists>bs. delivered p ds @ in_data w' p = in_data w p @ bs
                \<and> got K (fd_of w p) (w_log w') = got K (fd_of w p) (w_log w) @ bs)
          \<and> fd_of w' p = fd_of w p)"
proof -
  have ready: "server_ready limit fuel K A (rounds steps * round_size fuel) e w"
    using assms by (simp add: server_ready_def)
  obtain ds e' w' where run: "session (asock_server_thread_loop fuel K) K steps (e, w) = Inr (ds, (e', w'))"
      and use: "server_in_use A e' w'" and f: "\<forall>p \<in> A \<inter> set (cons_of e'). followed K e w (written p steps) (delivered p ds) w' p"
    using wp_no_faultD [OF server_rounds.wp_session [OF ready assms(3,4)]] by (auto simp: server_ready_def)
  have "set (news_of e) \<subseteq> set (cons_of e)" using assms(2) by (simp add: server_in_use_def)
  then have "in_tables e = set (cons_of e)" by (auto simp: in_tables_def)
  with f have "\<forall>p \<in> A \<inter> set (cons_of e').
          sent (fd_of w p) (w_log w') @ out_data w' p = sent (fd_of w p) (w_log w) @ out_data w p @ written p steps
          \<and> (\<exists>bs. delivered p ds @ in_data w' p = in_data w p @ bs
                \<and> got K (fd_of w p) (w_log w') = got K (fd_of w p) (w_log w) @ bs)
          \<and> fd_of w' p = fd_of w p"
    unfolding followed_def by (metis IntD2)
  with run use show ?thesis by blast
qed

lemma sample_server_in_use: "server_in_use {4096, 8192} sample_server (sample_world 2 False)"
proof -
  have "e_thread sample_server = Looping" "asock_get_directive_type (e_directive sample_server) = DirectNone"
    by (simp_all add: sample_server_def directive_defs)
  then show ?thesis by (simp add: server_in_use_def referred_def lasts_def)
qed

lemma one_caller_kernel: "server_kernel 1 2 one_caller"
  using one_caller_ok by (simp add: server_kernel_def)

theorem server_session_keeps_streams_witness:
  "\<exists>ds e' w'. session (asock_server_thread_loop 2 one_caller) one_caller [Write 4096 [33], Round, Receive 8192 10]
      (sample_server, sample_world 2 False) = Inr (ds, (e', w'))
    \<and> (4096 \<in> set (cons_of e') \<longrightarrow> sent 6 (w_log w') @ out_data w' 4096 = [11, 22, 33])"
proof -
  let ?steps = "[Write 4096 [33], Round, Receive 8192 10]"
  have d: "out_data (sample_world 2 False) p = [11, 22]" "waiting (sample_world 2 False) p = 2" if "p \<in> {4096, 8192}" for p
    using that by (auto simp: out_data_def waiting_def)
  have "addressed {4096, 8192} ?steps" by (simp add: addressed_def)
  moreover have "roomy sample_server (sample_world 2 False) (rounds ?steps * round_size 2)" "rounds ?steps * round_size 2 \<le> 2 ^ 62"
    using d by (simp_all add: roomy_def round_size_def MAX_EVENTS_def BUF_SIZE_def)
  ultimately show ?thesis
    using server_session_keeps_streams [OF one_caller_kernel sample_server_in_use] d(1) [of 4096] d(1) [of 8192]
    by fastforce
qed

section \<open>Accepting\<close>

text \<open>What \<open>asock_server_accept\<close> hands out is fit for use.\<close>

lemma server_ready_accept:
  assumes r: "server_ready limit fuel K A n e w" and run: "asock_server_accept 1 (e, w) = Inr (p, (e', w'))"
  shows "w' = w" "p = 0 \<and> server_ready limit fuel K A n e' w \<or> p \<in> in_tables e' \<and> server_ready limit fuel K (insert p A) n e' w"
proof -
  have use: "server_in_use A e w" and ok: "owner_ok e w" "owner_inv e w" and sub: "set (news_of e) \<subseteq> set (cons_of e)"
    using r by (simp_all add: server_ready_def server_in_use_def owner_ok_def)
  obtain e1 where e1: "asock_server_accept 1 (e, w) = Inr (p, (e1, w))" "same_but_tables e e1" "e_connections e1 = e_connections e"
      "con_inv (e_new_connections e1)"
      "case news_of e of [] \<Rightarrow> p = 0 \<and> news_of e1 = [] | q # ps \<Rightarrow> p = q \<and> p \<noteq> 0 \<and> news_of e1 = ps"
    using wp_returns [OF wp_accept_next [OF ok(2)] run] run by auto
  show "w' = w" using run e1(1) by simp
  have e': "e' = e1" using run e1(1) by simp
  have cons: "cons_of e1 = cons_of e" using e1(3) by (simp add: cons_of_def)
  have news: "set (news_of e1) \<subseteq> set (news_of e)" "distinct (news_of e1)"
    using e1(5) ok(2) by (auto simp: owner_inv_def split: list.splits)
  have "owner_ok e1 w"
    using ok(1) e1(2,4) cons news sub e1(3)
    by (auto simp: owner_ok_def owner_inv_def same_but_tables_def intro: inj_on_subset)
  then have ready: "server_ready limit fuel K A n e1 w"
    using r e1(2) cons news(1) by (auto simp: server_ready_def server_in_use_def referred_def roomy_def same_but_tables_def)
  have "p \<in> set (cons_of e)" if "p \<noteq> 0" using e1(5) that sub by (auto split: list.splits)
  moreover from this have "lasts w p w" if "p \<noteq> 0" using owner_lasts [OF ok(1)] that by simp
  ultimately show "p = 0 \<and> server_ready limit fuel K A n e' w \<or> p \<in> in_tables e' \<and> server_ready limit fuel K (insert p A) n e' w"
    using ready unfolding e' by (auto simp: server_ready_def server_in_use_def in_tables_def cons)
qed

end
