(* ===== verification/Asock_Apps.thy ===== *)
theory Asock_Apps
  imports Asock_Library Asock_Server
begin

text \<open>
  The programs that come with the library: the transfer programs of \<open>test_apps/\<close> and the two of
  \<open>example/\<close>. A program's result is its exit code. Its output, and what it does with the terminal,
  are left out. While a program runs or sleeps, the threads of the library take rounds; how many is
  an argument \<open>pace\<close>, any function of the world, asked wherever a program sleeps or repeats a loop.
  The programs loop until a peer has done its part: such loops take \<open>patience\<close>, the number of
  times round after which the model gives up.
\<close>

section \<open>Arguments\<close>

text \<open>\<open>std::stoi\<close> and \<open>std::stoll\<close>: white space, a sign, digits; what follows is ignored. An exception
  ends the program.\<close>

definition isspace :: "char \<Rightarrow> bool" where
  "isspace c \<longleftrightarrow> of_char c \<in> {9, 10, 11, 12, 13, 32 :: nat}"

definition isdigit :: "char \<Rightarrow> bool" where
  "isdigit c \<longleftrightarrow> 48 \<le> (of_char c :: nat) \<and> (of_char c :: nat) \<le> 57"

definition digits_value :: "string \<Rightarrow> int" where
  "digits_value ds = foldl (\<lambda>v c. 10 * v + (of_char c - 48)) 0 ds"

definition number_of :: "string \<Rightarrow> int option" where
  "number_of s =
     (let s = dropWhile isspace s;
          negative = (s \<noteq> [] \<and> hd s = CHR ''-'');
          s = (if s \<noteq> [] \<and> hd s \<in> {CHR ''-'', CHR ''+''} then tl s else s);
          ds = takeWhile isdigit s
      in if ds = [] then None else Some (if negative then - digits_value ds else digits_value ds))"

definition number_within :: "int \<Rightarrow> string \<Rightarrow> int res" where
  "number_within limit s =
     (case number_of s of
        None \<Rightarrow> Inl Aborted_Process
      | Some v \<Rightarrow> if - limit \<le> v \<and> v < limit then Inr v else Inl Aborted_Process)"

definition stoi :: "string \<Rightarrow> int res" where "stoi = number_within (2 ^ 31)"
definition stoll :: "string \<Rightarrow> int res" where "stoll = number_within (2 ^ 63)"

text \<open>The variables the arguments set; \<open>inet_addr\<close> is an argument.\<close>

record options =
  o_port :: "16 word"
  o_server_addr :: "32 word"
  o_bytesOut :: "64 word"
  o_bytesIn :: "64 word"
  o_nms :: string

definition initial_options :: options where
  "initial_options = \<lparr>o_port = 0, o_server_addr = 0, o_bytesOut = 0, o_bytesIn = 0, o_nms = []\<rparr>"

text \<open>The loop over the arguments after the program's name. The last one has no value after it.\<close>

fun client_options :: "(string \<Rightarrow> 32 word) \<Rightarrow> string list \<Rightarrow> options \<Rightarrow> options res" where
  "client_options inet_addr [] opts = Inr opts"
| "client_options inet_addr [arg] opts = Inr opts"
| "client_options inet_addr (arg # value # args) opts =
     (if arg = ''--port''
      then bindR (stoi value) (\<lambda>v. client_options inet_addr args (opts\<lparr>o_port := word_of_int v\<rparr>))
      else if arg = ''--server-address''
      then client_options inet_addr args (opts\<lparr>o_server_addr := inet_addr value\<rparr>)
      else if arg = ''--bytes-to-transmit''
      then bindR (stoll value) (\<lambda>v. client_options inet_addr args (opts\<lparr>o_bytesOut := word_of_int v\<rparr>))
      else if arg = ''--bytes-to-recieve''
      then bindR (stoll value) (\<lambda>v. client_options inet_addr args (opts\<lparr>o_bytesIn := word_of_int v\<rparr>))
      else if arg = ''--setns''
      then client_options inet_addr args (opts\<lparr>o_nms := value\<rparr>)
      else client_options inet_addr (value # args) opts)"

fun server_options :: "string list \<Rightarrow> options \<Rightarrow> options res" where
  "server_options [] opts = Inr opts"
| "server_options [arg] opts = Inr opts"
| "server_options (arg # value # args) opts =
     (if arg = ''--port''
      then bindR (stoi value) (\<lambda>v. server_options args (opts\<lparr>o_port := word_of_int v\<rparr>))
      else if arg = ''--bytes-to-transmit''
      then bindR (stoll value) (\<lambda>v. server_options args (opts\<lparr>o_bytesOut := word_of_int v\<rparr>))
      else if arg = ''--bytes-to-recieve''
      then bindR (stoll value) (\<lambda>v. server_options args (opts\<lparr>o_bytesIn := word_of_int v\<rparr>))
      else if arg = ''--setns''
      then server_options args (opts\<lparr>o_nms := value\<rparr>)
      else server_options (value # args) opts)"

text \<open>A \<open>struct sockaddr_in\<close> of 16 bytes on a little-endian machine: family, port in network order,
  address, and the last eight bytes, which the programs leave as they are.\<close>

definition AF_INET :: int where "AF_INET = 2"
definition SOCK_STREAM :: int where "SOCK_STREAM = 1"

definition sockaddr_in :: "byte list \<Rightarrow> 32 word \<Rightarrow> 16 word \<Rightarrow> byte list" where
  "sockaddr_in zero s_addr port =
     [2, 0] @ [ucast (drop_bit 8 port), ucast port]
     @ [ucast s_addr, ucast (drop_bit 8 s_addr), ucast (drop_bit 16 s_addr), ucast (drop_bit 24 s_addr)]
     @ zero"

section \<open>The threads meanwhile\<close>

definition server_turn :: "(world \<Rightarrow> nat) \<Rightarrow> nat \<Rightarrow> kernel \<Rightarrow> (asock_server \<times> world, unit) op" where
  "server_turn pace fuel K =
     bindM (liftW (getsM pace)) (\<lambda>n. repeatM n (asock_server_thread_loop fuel K))"

text \<open>Of the services at these indices of the manager; where there is none, there is no thread.\<close>

definition services_turn :: "(world \<Rightarrow> nat list) \<Rightarrow> nat \<Rightarrow> kernel \<Rightarrow> (asock_service_manager \<times> world, unit) op" where
  "services_turn pace fuel K =
     bindM (liftMW (getsM pace)) (foreachM (\<lambda>i.
       bindM (getsM (\<lambda>(g, w). m_services g ! i)) (\<lambda>c.
       case c of
         Live e \<Rightarrow> on_service i (asock_service_thread_loop fuel K)
       | _ \<Rightarrow> returnM ())))"

text \<open>An operation on a server, and the server after it.\<close>

definition with_server :: "(asock_server \<times> world, 'r) op \<Rightarrow> asock_server \<Rightarrow> (world, 'r \<times> asock_server) op" where
  "with_server m e w = bindR (m (e, w)) (\<lambda>(x, (e', w')). Inr ((x, e'), w'))"

lemma wp_with_server [wp_simps]:
  "wp F (with_server m e) Q w = wp F m (\<lambda>x (e', w'). Q (x, e') w') (e, w)"
  by (auto simp: wp_def with_server_def bindR_def split: sum.splits prod.splits)

section \<open>The transfer\<close>

text \<open>
  The two loops of the transfer programs, over the threads' turn and the call that writes or reads.
  The client's and the server's are the same but for the server's \<open>usleep\<close>. Each buffer of 256 bytes
  is an array of the loop's body; of the one for reading only what \<open>asock_read\<close> stored is looked at.
\<close>

definition BUFFER :: "64 word" where "BUFFER = 256"

function transmit :: "('s, unit) op \<Rightarrow> (byte list \<Rightarrow> ('s, int) op) \<Rightarrow> 64 word \<Rightarrow> ('s, bool) op" where
  "transmit turn write_out bytesOut =
     (if bytesOut = 0 then returnM True
      else
        let count = min bytesOut BUFFER; out = map of_nat [0..<unat count] in
        thenM turn (
        bindM (write_out out) (\<lambda>r.
        if r \<noteq> int (unat count) then returnM False
        else transmit turn write_out (bytesOut - count))))"
  by pat_completeness auto
termination
proof (relation "measure (\<lambda>(turn, write_out, n). unat n)", goal_cases)
  case (2 turn write_out n count out r)
  have "0 < unat n" using 2(1) by (simp add: unat_gt_0)
  moreover have "unat count = min (unat n) 256" using 2(2) by (simp add: min_def word_le_nat_alt BUFFER_def)
  ultimately show ?case by (simp add: unat_sub_if_size word_size min_def split: if_splits)
qed simp

declare transmit.simps [simp del]

text \<open>Lines 113 to 118 of \<open>server.cpp\<close>: both operands of the sum are bytes, the sum is an \<open>int\<close>.\<close>

definition as_expected :: "64 word \<Rightarrow> byte list \<Rightarrow> bool" where
  "as_expected offset bs \<longleftrightarrow>
     list_all (\<lambda>i. uint (bs ! i) = uint (ucast offset :: byte) + uint (of_nat i :: byte)) [0..<length bs]"

text \<open>The reading loop: exit code 8 for wrong data, 0 when it has come to its end.\<close>

fun receive ::
    "nat \<Rightarrow> ('s, unit) op \<Rightarrow> (64 word \<Rightarrow> ('s, int \<times> block) op) \<Rightarrow> 64 word \<Rightarrow> 64 word \<Rightarrow> ('s, int) op" where
  "receive 0 turn read_in bytesIn bytesInLeft = failM Out_Of_Fuel"
| "receive (Suc patience) turn read_in bytesIn bytesInLeft =
     (if bytesInLeft = 0 then returnM 0
      else
        thenM turn (
        bindM (read_in (min bytesInLeft BUFFER)) (\<lambda>(countRead, buf).
        if countRead = - 1 then returnM 8
        else if \<not> as_expected (bytesIn - bytesInLeft) (take (nat countRead) (the buf)) then returnM 8
        else receive patience turn read_in bytesIn (bytesInLeft - word_of_int countRead))))"

definition write_to :: "kernel \<Rightarrow> ptr \<Rightarrow> byte list \<Rightarrow> (world, int) op" where
  "write_to K con out = asock_write K con (Some out) (of_nat (length out))"

definition read_from :: "ptr \<Rightarrow> 64 word \<Rightarrow> (world, int \<times> block) op" where
  "read_from con count = asock_read con (Some (replicate (unat count) 0)) count"

section \<open>test_apps/server.cpp\<close>

text \<open>Lines 77 to 84, and the same in the example: until a connection has been accepted.\<close>

fun accept_one :: "nat \<Rightarrow> (asock_server \<times> world, unit) op \<Rightarrow> (asock_server \<times> world, ptr) op" where
  "accept_one 0 turn = failM Out_Of_Fuel"
| "accept_one (Suc patience) turn =
     bindM (asock_server_accept 1) (\<lambda>incom_con.
     if incom_con = 0 then thenM turn (accept_one patience turn) else returnM incom_con)"

text \<open>Lines 86 to 121, after the connection was accepted: the exit code.\<close>

definition server_transfer ::
    "nat \<Rightarrow> (world \<Rightarrow> nat) \<Rightarrow> nat \<Rightarrow> kernel \<Rightarrow> options \<Rightarrow> ptr \<Rightarrow> (asock_server \<times> world, int) op" where
  "server_transfer patience pace fuel K opts incom_con =
     thenM (server_turn pace fuel K) (
     bindM (transmit (server_turn pace fuel K) (\<lambda>out. liftW (write_to K incom_con out)) (o_bytesOut opts)) (\<lambda>written.
     if \<not> written then returnM 7
     else receive patience (server_turn pace fuel K) (\<lambda>n. liftW (read_from incom_con n))
            (o_bytesIn opts) (o_bytesIn opts)))"

text \<open>Lines 57 to 124: what the program does with its server.\<close>

definition test_server_run ::
    "nat \<Rightarrow> (world \<Rightarrow> nat) \<Rightarrow> nat \<Rightarrow> kernel \<Rightarrow> byte list \<Rightarrow> options \<Rightarrow> (asock_server \<times> world, int) op" where
  "test_server_run patience pace fuel K zero opts =
     bindM (asock_server_bind fuel K 1 (Some (sockaddr_in zero 0 (o_port opts))) 16) (\<lambda>bind_status.
     if bind_status \<noteq> ASOCK_SUCCESS then thenM (asock_server_destroy fuel K 1) (returnM 5)
     else bindM (asock_server_listen fuel K 1) (\<lambda>start_status.
     if start_status \<noteq> ASOCK_SUCCESS then thenM (asock_server_destroy fuel K 1) (returnM 6)
     else bindM (accept_one patience (server_turn pace fuel K)) (\<lambda>incom_con.
     bindM (server_transfer patience pace fuel K opts incom_con) (\<lambda>code.
     if code \<noteq> 0 then returnM code
     else thenM (liftW (asock_destroy_asock K incom_con)) (
          thenM (asock_server_destroy fuel K 1) (returnM 0))))))"

text \<open>The namespace handed over is the second argument, whatever it is. The exits with 7 and 8 skip
  \<open>asock_deinit\<close>.\<close>

definition test_server_main ::
    "nat \<Rightarrow> (world \<Rightarrow> nat) \<Rightarrow> nat \<Rightarrow> kernel \<Rightarrow> byte list \<Rightarrow> string list \<Rightarrow> (asock_service_manager \<times> world, int) op" where
  "test_server_main patience pace fuel K zero argv =
     (if length argv < 5 then returnM 1
      else bindM (liftR (\<lambda>_. server_options (tl argv) initial_options)) (\<lambda>opts.
      bindM asock_init (\<lambda>init_status.
      if init_status \<noteq> ASOCK_SUCCESS then returnM 2
      else bindM (liftMW (if o_nms opts = [] then asock_server_create fuel K AF_INET SOCK_STREAM 0
                          else asock_server_create_ns fuel K AF_INET SOCK_STREAM 0 (Some (argv ! 2)))) (\<lambda>server.
      case server of
        None \<Rightarrow> thenM (asock_deinit fuel K) (returnM 3)
      | Some e \<Rightarrow>
          bindM (liftMW (with_server (test_server_run patience pace fuel K zero opts) e)) (\<lambda>(code, e).
          if code \<in> {7, 8} then returnM code
          else thenM (asock_deinit fuel K) (returnM code))))))"

section \<open>test_apps/client.cpp\<close>

text \<open>Lines 75 and 76, and the same in the examples.\<close>

fun wait_connected :: "nat \<Rightarrow> ('s, unit) op \<Rightarrow> ('s, AsockConState) op \<Rightarrow> ('s, unit) op" where
  "wait_connected 0 turn state = failM Out_Of_Fuel"
| "wait_connected (Suc patience) turn state =
     bindM state (\<lambda>s. if s = InProgress then thenM turn (wait_connected patience turn state) else returnM ())"

definition test_client_main ::
    "nat \<Rightarrow> (world \<Rightarrow> nat list) \<Rightarrow> nat \<Rightarrow> kernel \<Rightarrow> (string \<Rightarrow> 32 word) \<Rightarrow> byte list \<Rightarrow> string list
      \<Rightarrow> (asock_service_manager \<times> world, int) op" where
  "test_client_main patience pace fuel K inet_addr zero argv =
     (if length argv < 5 then returnM 1
      else bindM (liftR (\<lambda>_. client_options inet_addr (tl argv) initial_options)) (\<lambda>opts.
      bindM asock_init (\<lambda>init_status.
      if init_status \<noteq> ASOCK_SUCCESS then returnM 2
      else bindM (if o_nms opts = [] then asock_create fuel K AF_INET SOCK_STREAM 0
                  else asock_create_ns fuel K AF_INET SOCK_STREAM 0 (argv ! 2)) (\<lambda>client.
      if client = 0 then thenM (asock_deinit fuel K) (returnM 3)
      else bindM (asock_connect fuel K client (Some (sockaddr_in zero (o_server_addr opts) (o_port opts))) 16) (\<lambda>bind_status.
      if bind_status \<noteq> ASOCK_SUCCESS
      then thenM (asock_destroy K client) (thenM (asock_deinit fuel K) (returnM 5))
      else thenM (wait_connected patience (services_turn pace fuel K) (liftMW (asock_state client))) (
      bindM (liftMW (asock_state client)) (\<lambda>state.
      if state = Failed
      then thenM (asock_destroy K client) (thenM (asock_deinit fuel K) (returnM 6))
      else thenM (services_turn pace fuel K) (
           thenM (asock_destroy K client) (thenM (asock_deinit fuel K) (returnM 0))))))))))"

text \<open>Lines 91 to 127 stand after the return and are never reached: the exit code they would give.\<close>

definition client_transfer ::
    "nat \<Rightarrow> (world \<Rightarrow> nat list) \<Rightarrow> nat \<Rightarrow> kernel \<Rightarrow> options \<Rightarrow> ptr \<Rightarrow> (asock_service_manager \<times> world, int) op" where
  "client_transfer patience pace fuel K opts client =
     bindM (transmit (services_turn pace fuel K) (\<lambda>out. liftMW (write_to K client out)) (o_bytesOut opts)) (\<lambda>written.
     if \<not> written then returnM 7
     else bindM (receive patience (services_turn pace fuel K) (\<lambda>n. liftMW (read_from client n))
                   (o_bytesIn opts) (o_bytesIn opts)) (\<lambda>code.
     if code \<noteq> 0 then returnM code
     else thenM (services_turn pace fuel K) (
          thenM (asock_destroy K client) (thenM (asock_deinit fuel K) (returnM 0)))))"

section \<open>example/\<close>

text \<open>
  Once connected, the examples print what they read, a byte at a time, and never end: the result is
  what they have printed after \<open>n\<close> reads. Otherwise it is the exit code.
\<close>

datatype example_result = Exit_Code int | Printing "byte list"

primrec print_received :: "nat \<Rightarrow> ('s, unit) op \<Rightarrow> ('s, int \<times> block) op \<Rightarrow> (int \<Rightarrow> bool) \<Rightarrow> ('s, byte list) op" where
  "print_received 0 turn read_c arrived = returnM []"
| "print_received (Suc n) turn read_c arrived =
     thenM turn (
     bindM read_c (\<lambda>(r, c).
     bindM (print_received n turn read_c arrived) (\<lambda>bs.
     returnM (if arrived r then hd (the c) # bs else bs))))"

definition text_bytes :: "string \<Rightarrow> byte list" where
  "text_bytes = map of_char"

definition example_client ::
    "nat \<Rightarrow> nat \<Rightarrow> (world \<Rightarrow> nat list) \<Rightarrow> nat \<Rightarrow> kernel \<Rightarrow> byte list \<Rightarrow> (asock_service_manager \<times> world, example_result) op" where
  "example_client n patience pace fuel K zero =
     bindM asock_init (\<lambda>_.
     bindM (asock_create fuel K AF_INET SOCK_STREAM 0) (\<lambda>client.
     bindM (asock_connect fuel K client (Some (sockaddr_in zero 0 8888)) 16) (\<lambda>_.
     thenM (wait_connected patience (services_turn pace fuel K) (liftMW (asock_state client))) (
     bindM (liftMW (asock_state client)) (\<lambda>state.
     if state = Established
     then bindM (liftMW (write_to K client (text_bytes (''Hello, server!'' @ [CHR 0x0A])))) (\<lambda>_.
          bindM (print_received n (services_turn pace fuel K) (liftMW (read_from client 1)) (\<lambda>r. 0 < r)) (\<lambda>bs.
          returnM (Printing bs)))
     else thenM (asock_destroy K client) (thenM (asock_deinit fuel K) (returnM (Exit_Code 0))))))))"

text \<open>Lines 20 to 49 of the server. The third argument of \<open>asock_read\<close> is \<open>sizeof(c) > 0\<close>, which is 1.\<close>

definition example_server_run ::
    "nat \<Rightarrow> nat \<Rightarrow> (world \<Rightarrow> nat) \<Rightarrow> nat \<Rightarrow> kernel \<Rightarrow> byte list \<Rightarrow> (asock_server \<times> world, example_result) op" where
  "example_server_run n patience pace fuel K zero =
     bindM (asock_server_bind fuel K 1 (Some (sockaddr_in zero 0 8888)) 16) (\<lambda>_.
     bindM (asock_server_listen fuel K 1) (\<lambda>_.
     bindM (accept_one patience (server_turn pace fuel K)) (\<lambda>connection.
     thenM (wait_connected patience (server_turn pace fuel K) (liftW (asock_state connection))) (
     bindM (liftW (asock_state connection)) (\<lambda>state.
     if state = Established
     then bindM (liftW (write_to K connection (text_bytes (''Hello, client!'' @ [CHR 0x0A])))) (\<lambda>_.
          thenM (server_turn pace fuel K) (
          bindM (print_received n (server_turn pace fuel K) (liftW (read_from connection 1)) (\<lambda>r. r \<noteq> 0)) (\<lambda>bs.
          returnM (Printing bs))))
     else thenM (liftW (asock_destroy_asock K connection)) (
          thenM (asock_server_destroy fuel K 1) (returnM (Exit_Code 0))))))))"

text \<open>Without a server the calls of lines 20 and 22 return an error, and the next one is an assertion.\<close>

definition example_server ::
    "nat \<Rightarrow> nat \<Rightarrow> (world \<Rightarrow> nat) \<Rightarrow> nat \<Rightarrow> kernel \<Rightarrow> byte list \<Rightarrow> (asock_service_manager \<times> world, example_result) op" where
  "example_server n patience pace fuel K zero =
     bindM asock_init (\<lambda>_.
     bindM (liftMW (asock_server_create fuel K AF_INET SOCK_STREAM 0)) (\<lambda>server.
     case server of
       None \<Rightarrow> failM Assert_Failed
     | Some e \<Rightarrow>
         bindM (liftMW (with_server (example_server_run n patience pace fuel K zero) e)) (\<lambda>(result, e).
         case result of
           Printing bs \<Rightarrow> returnM result
         | Exit_Code code \<Rightarrow> thenM (asock_deinit fuel K) (returnM result))))"

end
