(* ===== verification/Asock_Apps_Facts.thy ===== *)
theory Asock_Apps_Facts
  imports Asock_Apps Asock_Server_Session
begin

text \<open>
  What the transfer programs of \<open>test_apps/\<close> do with the library: what they write, that a server's
  threads carry it to the peer, which data the reading loop takes for right, and which it does not.
\<close>

section \<open>The pattern\<close>

text \<open>Byte \<open>i\<close> of what the programs send is \<open>i\<close> modulo 256.\<close>

definition pattern :: "nat \<Rightarrow> nat \<Rightarrow> byte list" where
  "pattern i j = map of_nat [i..<j]"

lemma length_pattern [simp]: "length (pattern i j) = j - i"
  by (simp add: pattern_def)

lemma pattern_empty [simp]: "j \<le> i \<Longrightarrow> pattern i j = []"
  by (simp add: pattern_def)

lemma pattern_append: "i \<le> j \<Longrightarrow> j \<le> k \<Longrightarrow> pattern i j @ pattern j k = pattern i k"
  using upt_add_eq_append [of i j "k - j"] by (simp add: pattern_def flip: map_append)

lemma take_pattern: "take n (pattern i j) = pattern i (min j (i + n))"
  by (simp add: pattern_def take_map min_def)

lemma drop_pattern: "drop n (pattern i j) = pattern (i + n) j"
  by (simp add: pattern_def drop_map)

lemma nth_pattern: "k < j - i \<Longrightarrow> pattern i j ! k = of_nat (i + k)"
  by (simp add: pattern_def)

lemma of_nat_byte: "(of_nat (256 * m + i) :: byte) = of_nat i"
proof -
  have z: "(of_nat 256 :: byte) = 0" by simp
  show ?thesis unfolding of_nat_add of_nat_mult z by simp
qed

text \<open>A chunk starts at a multiple of 256, and its bytes count from 0.\<close>

lemma chunk_pattern:
  assumes "256 dvd i"
  shows "map of_nat [0..<n] = pattern i (i + n)"
proof -
  obtain m where "i = 256 * m" using assms by blast
  then show ?thesis
    by (intro nth_equalityI) (simp_all add: nth_pattern of_nat_byte del: of_nat_add of_nat_mult)
qed

lemma unat_chunk: "unat (min n BUFFER) = min (unat n) 256"
  by (simp add: min_def word_le_nat_alt BUFFER_def)

section \<open>The writing loop\<close>

text \<open>\<open>turns_for n\<close> is the number of chunks for \<open>n\<close> bytes. \<open>I\<close> holds before the threads' turn, \<open>J\<close> after it.\<close>

definition turns_for :: "nat \<Rightarrow> nat" where
  "turns_for n = (n + 255) div 256"

lemma turns_for_rec: "0 < n \<Longrightarrow> turns_for n = Suc (turns_for (n - min n 256))"
  unfolding turns_for_def by (cases "n \<le> 256") (simp_all add: min_def div_if)

lemma turns_for_0 [simp]: "turns_for 0 = 0"
  by (simp add: turns_for_def)

lemma wp_transmit:
  assumes turn: "\<And>bs s. I bs s \<Longrightarrow> length bs < N \<Longrightarrow> wp F turn (\<lambda>_. J bs) s"
    and out: "\<And>bs out s. J bs s \<Longrightarrow> length bs < N \<Longrightarrow> length out = min (N - length bs) 256 \<Longrightarrow>
      wp F (write_out out) (\<lambda>r s'. r = int (length out) \<and> I (bs @ out) s') s"
  shows "256 dvd i \<Longrightarrow> i + unat n = N \<Longrightarrow> I (pattern 0 i) s \<Longrightarrow>
    wp F (transmit turn write_out n) (\<lambda>r s'. r \<and> I (pattern 0 N) s') s"
proof (induction "unat n" arbitrary: n i s rule: less_induct)
  case less
  show ?case
  proof (cases "n = 0")
    case True
    then show ?thesis using less.prems by (simp add: transmit.simps [of turn write_out 0] wp_simps)
  next
    case False
    let ?c = "min n BUFFER" and ?out = "map of_nat [0..<unat (min n BUFFER)] :: byte list"
    have c: "unat ?c = min (unat n) 256" by (rule unat_chunk)
    have pos: "0 < unat n" using False by (simp add: unat_gt_0)
    have "?c \<le> n" by simp
    then have rest: "unat (n - ?c) = unat n - min (unat n) 256" using unat_sub [of ?c n] c by simp
    have app: "pattern 0 i @ ?out = pattern 0 (i + unat ?c)"
      using chunk_pattern [OF less.prems(1)] by (simp add: pattern_append)
    have next_chunk: "wp F (transmit turn write_out (n - ?c)) (\<lambda>r s'. r \<and> I (pattern 0 N) s') s2"
      if "I (pattern 0 (i + unat ?c)) s2" for s2
    proof (cases "unat n \<le> 256")
      case True
      then have "n - ?c = 0" using rest by (simp add: unat_eq_zero)
      then show ?thesis
        using that True c less.prems(2) by (simp add: transmit.simps [of turn write_out 0] wp_simps min_def)
    next
      case False
      then have c256: "unat ?c = 256" using c by simp
      show ?thesis
        by (rule less.hyps [of "n - ?c" "i + 256"]) (use that c256 rest pos less.prems False in simp_all)
    qed
    have "length (pattern 0 i) < N" "length ?out = min (N - length (pattern 0 i)) 256"
      using less.prems(2) c pos by auto
    note turn = turn [OF less.prems(3) this(1)] and w = out [OF _ this]
    have "wp F turn (\<lambda>_ s1. wp F (write_out ?out) (\<lambda>r s2. wp F (if r \<noteq> int (unat ?c) then returnM False
        else transmit turn write_out (n - ?c)) (\<lambda>r s'. r \<and> I (pattern 0 N) s') s2) s1) s"
    proof (rule wp_mono [OF turn])
      fix x s1 assume "J (pattern 0 i) s1"
      then show "wp F (write_out ?out) (\<lambda>r s2. wp F (if r \<noteq> int (unat ?c) then returnM False
        else transmit turn write_out (n - ?c)) (\<lambda>r s'. r \<and> I (pattern 0 N) s') s2) s1"
        by (rule wp_mono [OF w]) (use next_chunk in \<open>simp add: app\<close>)
    qed
    then show ?thesis
      using False by (subst transmit.simps) (simp only: Let_def if_False wp_then wp_bind_eq)
  qed
qed

section \<open>The reading loop\<close>

text \<open>The test compares with a sum that is not reduced modulo 256: it takes exactly those bytes for right
  that are, as long as they do not go on beyond the next multiple of 256.\<close>

lemma as_expected_iff:
  assumes "length bs \<le> 256"
  shows "as_expected off bs \<longleftrightarrow>
    bs = pattern (unat off) (unat off + length bs) \<and> (bs = [] \<or> unat off mod 256 + length bs \<le> 256)"
proof -
  have u: "uint x = int (unat x)" for x :: byte by simp
  have off: "unat (ucast off :: byte) = unat off mod 256" by (simp add: unsigned_ucast_eq take_bit_eq_mod)
  have i: "unat (of_nat i :: byte) = i" if "i < length bs" for i
    using that assms by (simp add: unsigned_of_nat take_bit_nat_eq_self)
  have "uint (bs ! i) = uint (ucast off :: byte) + uint (of_nat i :: byte) \<longleftrightarrow> unat (bs ! i) = unat off mod 256 + i"
    if "i < length bs" for i
    unfolding u off i [OF that] by linarith
  then have test: "as_expected off bs \<longleftrightarrow> (\<forall>i < length bs. unat (bs ! i) = unat off mod 256 + i)"
    unfolding as_expected_def list_all_iff by (simp add: Ball_def)
  have right: "unat (of_nat (unat off + i) :: byte) = unat off mod 256 + i" if "unat off mod 256 + i < 256" for i
  proof -
    have "unat (of_nat (unat off + i) :: byte) = (unat off + i) mod 256" by (simp only: unat_of_nat) simp
    also have "\<dots> = (unat off mod 256 + i) mod 256" by (simp add: mod_add_left_eq)
    also have "\<dots> = unat off mod 256 + i" using that by simp
    finally show ?thesis .
  qed
  show ?thesis
  proof
    assume t: "as_expected off bs"
    have less: "unat off mod 256 + i < 256" if "i < length bs" for i
      using t that unsigned_less [of "bs ! i", where 'a = nat] unfolding test by fastforce
    have "bs ! i = of_nat (unat off + i)" if "i < length bs" for i
      using t that right [OF less [OF that]] unfolding test by (metis word_unat_eq_iff)
    then have "bs = pattern (unat off) (unat off + length bs)"
      by (intro nth_equalityI) (simp_all add: nth_pattern)
    moreover have "bs = [] \<or> unat off mod 256 + length bs \<le> 256"
      using less [of "length bs - 1"] by (cases "bs = []") auto
    ultimately show "bs = pattern (unat off) (unat off + length bs) \<and> (bs = [] \<or> unat off mod 256 + length bs \<le> 256)" ..
  next
    assume p: "bs = pattern (unat off) (unat off + length bs) \<and> (bs = [] \<or> unat off mod 256 + length bs \<le> 256)"
    have "unat (bs ! i) = unat off mod 256 + i" if "i < length bs" for i
    proof -
      have "bs ! i = of_nat (unat off + i)" using p that by (metis nth_pattern add_diff_cancel_left')
      moreover have "unat off mod 256 + i < 256" using p that by auto
      ultimately show ?thesis using right by simp
    qed
    then show "as_expected off bs" by (simp add: test)
  qed
qed

text \<open>Whatever arrives: the loop ends with 0 only when what it has read is the pattern. \<open>I rs m\<close> says that
  \<open>rs\<close> has been read and that there is room for \<open>m\<close> more turns of the threads.\<close>

lemma wp_receive:
  assumes turn: "\<And>rs m s. I rs (Suc m) s \<Longrightarrow> wp F turn (\<lambda>_. I rs m) s"
    and read_in: "\<And>rs m n s. I rs m s \<Longrightarrow> unat n \<le> 256 \<Longrightarrow>
      wp F (read_in n) (\<lambda>r s'. \<exists>ds. length ds \<le> unat n \<and> fst r = int (length ds)
        \<and> take (nat (fst r)) (the (snd r)) = ds \<and> I (rs @ ds) m s') s"
    and F: "F Out_Of_Fuel"
  shows "left \<le> whole \<Longrightarrow> I (pattern 0 (unat (whole - left))) patience s \<Longrightarrow>
    wp F (receive patience turn read_in whole left) (\<lambda>r s'. \<exists>rs m. I rs m s' \<and> r \<in> {0, 8}
      \<and> (r = 0 \<longrightarrow> rs = pattern 0 (unat whole))) s"
proof (induction patience arbitrary: left s)
  case 0
  then show ?case using F by (simp add: wp_simps)
next
  case (Suc patience)
  let ?post = "\<lambda>r s'. \<exists>rs m. I rs m s' \<and> r \<in> {0, 8} \<and> (r = (0 :: int) \<longrightarrow> rs = pattern 0 (unat whole))"
  show ?case
  proof (cases "left = 0")
    case True
    then show ?thesis using Suc.prems by (auto simp: wp_simps)
  next
    case False
    let ?c = "min left BUFFER" and ?off = "unat (whole - left)"
    have c: "unat ?c = min (unat left) 256" by (rule unat_chunk)
    have off: "?off = unat whole - unat left" "unat left \<le> unat whole"
      using Suc.prems(1) unat_sub [of left whole] by (simp_all add: word_le_nat_alt)
    let ?rest = "\<lambda>r. case r of (countRead, buf) \<Rightarrow>
        if countRead = - 1 then returnM 8
        else if \<not> as_expected (whole - left) (take (nat countRead) (the buf)) then returnM 8
        else receive patience turn read_in whole (left - word_of_int countRead)"
    have rest: "wp F (?rest r) ?post s2"
      if ds: "length ds \<le> unat ?c" "fst r = int (length ds)" "take (nat (fst r)) (the (snd r)) = ds"
        and I: "I (pattern 0 ?off @ ds) patience s2" for r ds s2
    proof -
      obtain countRead buf where r: "r = (countRead, buf)" by (cases r)
      have eq: "take (nat countRead) (the buf) = ds" "countRead = int (length ds)" using ds by (simp_all add: r)
      show ?thesis
      proof (cases "as_expected (whole - left) ds")
        case False
        then show ?thesis using I eq by (auto simp: r wp_simps)
      next
        case True
        let ?left = "left - word_of_int countRead"
        have len: "length ds \<le> 256" "length ds \<le> unat left" using ds(1) c by auto
        have d: "ds = pattern ?off (?off + length ds)" using True as_expected_iff [OF len(1)] by blast
        have n: "unat (word_of_int countRead :: 64 word) = length ds"
          using len(1) eq(2) by (simp add: unat_of_nat_size)
        have le: "word_of_int countRead \<le> left" using n len(2) by (simp add: word_le_nat_alt)
        then have left: "unat ?left = unat left - length ds" using unat_sub [OF le] n by simp
        then have below: "?left \<le> whole" using off(2) by (simp add: word_le_nat_alt)
        then have "unat (whole - ?left) = ?off + length ds"
          using unat_sub [OF below] left off len(2) by simp
        moreover have "pattern 0 ?off @ ds = pattern 0 (?off + length ds)"
          by (subst d) (simp add: pattern_append)
        ultimately have "wp F (receive patience turn read_in whole ?left) ?post s2"
          using I by (intro Suc.IH below) simp
        with True eq show ?thesis by (simp add: r)
      qed
    qed
    have "wp F turn (\<lambda>_ s1. wp F (read_in ?c) (\<lambda>r s2. wp F (?rest r) ?post s2) s1) s"
    proof (rule wp_mono [OF turn [OF Suc.prems(2)]])
      fix x s1 assume "I (pattern 0 ?off) patience s1"
      then show "wp F (read_in ?c) (\<lambda>r s2. wp F (?rest r) ?post s2) s1"
        by (rule wp_mono [OF read_in]) (use rest c in \<open>auto simp only: split: prod.splits\<close>)
    qed
    with False show ?thesis by (simp only: receive.simps if_False wp_then wp_bind_eq)
  qed
qed

section \<open>A program and the thread behind it\<close>

text \<open>What a program knows of its connection since it held it in state \<open>(e, w)\<close>, when it has written \<open>bs\<close>
  and read \<open>rs\<close>.\<close>

definition along ::
    "kernel \<Rightarrow> ptr set \<Rightarrow> 'a endpoint_scheme \<Rightarrow> world \<Rightarrow> ptr \<Rightarrow> byte list \<Rightarrow> byte list \<Rightarrow> 'a endpoint_scheme \<Rightarrow> world \<Rightarrow> bool" where
  "along K A e w p bs rs e' w' \<longleftrightarrow>
     (\<forall>q \<in> A. q \<in> in_tables e' \<longrightarrow> q \<in> set (cons_of e'))
     \<and> length (out_data w' p) \<le> length (out_data w p) + length bs
     \<and> (p \<in> in_tables e' \<longrightarrow> followed K e w bs rs w' p)"

lemma along_refl: "(\<forall>q \<in> A. q \<in> in_tables e \<longrightarrow> q \<in> set (cons_of e)) \<Longrightarrow> along K A e w p [] [] e w"
  by (simp add: along_def followed_refl)

lemma along_trans:
  assumes "along K A e w p bs rs e1 w1" "along K A e1 w1 p bs' rs' e2 w2" "p \<in> A"
  shows "along K A e w p (bs @ bs') (rs @ rs') e2 w2"
proof -
  have "followed K e w (bs @ bs') (rs @ rs') w2 p" if "p \<in> in_tables e2"
  proof -
    have f: "followed K e1 w1 bs' rs' w2 p" using assms(2) that by (simp add: along_def)
    then have "p \<in> in_tables e1" by (simp add: followed_def)
    then have "p \<in> set (cons_of e1)" "followed K e w bs rs w1 p" using assms(1,3) by (simp_all add: along_def)
    from followed_trans [OF this(2) f this(1)] show ?thesis .
  qed
  then show ?thesis using assms by (simp add: along_def)
qed

lemma along_touched:
  assumes "along K A e w p bs rs e1 w1" "touched w1 p b d w2"
  shows "along K A e w p (bs @ b) (rs @ d) e1 w2"
proof -
  have t: "w_log w2 = w_log w1" "fd_of w2 p = fd_of w1 p" "out_data w2 p = out_data w1 p @ b" "d @ in_data w2 p = in_data w1 p"
    using touchedD(1) [OF assms(2)] touchedD(2-4) [OF assms(2), where p = p] by simp_all
  have "followed K e w (bs @ b) (rs @ d) w2 p" if "p \<in> in_tables e1"
  proof -
    have f: "followed K e w bs rs w1 p" using assms(1) that by (simp add: along_def)
    then have "sent (fd_of w1 p) (w_log w1) @ out_data w1 p @ b = sent (fd_of w1 p) (w_log w) @ out_data w p @ bs @ b"
      unfolding followed_def by (metis append_assoc)
    with f t show ?thesis by (simp add: followed_def)
  qed
  then show ?thesis using assms(1) t(3) by (simp add: along_def)
qed

context thread_rounds
begin

lemma wp_turn:
  assumes r: "ready A (most * chunk + n) e1 w1" and a: "along K A e w p bs rs e1 w1" and p: "p \<in> A"
    and most: "\<forall>w. pace w \<le> most"
  shows "wp no_fault (bindM (liftW (getsM pace)) (\<lambda>m. repeatM m loop))
    (\<lambda>_ (e', w'). ready A n e' w' \<and> along K A e w p bs rs e' w') (e1, w1)"
proof -
  let ?m = "pace w1"
  have "?m * chunk \<le> most * chunk" using most by (intro mult_le_mono1) blast
  then have ready: "ready A (?m * chunk + n) e1 w1" by (intro less_room [OF r]) simp
  have tabs: "\<forall>q \<in> A. q \<in> in_tables e1 \<longrightarrow> q \<in> set (cons_of e1)" using a by (simp add: along_def)
  have "wp no_fault (repeatM ?m loop) (\<lambda>_ (e', w'). ready A n e' w' \<and> along K A e w p bs rs e' w') (e1, w1)"
  proof (rule wp_mono [OF wp_rounds [OF ready tabs]])
    fix x and s :: "'a endpoint_scheme \<times> world"
    assume "case s of (e', w') \<Rightarrow> ready A n e' w'
      \<and> (\<forall>p \<in> A. lasts w1 p w' \<and> (p \<in> in_tables e' \<longrightarrow> p \<in> set (cons_of e') \<and> followed K e1 w1 [] [] w' p))"
    then obtain e' w' where s: "s = (e', w')" and r': "ready A n e' w'"
      and f: "\<forall>p \<in> A. lasts w1 p w' \<and> (p \<in> in_tables e' \<longrightarrow> p \<in> set (cons_of e') \<and> followed K e1 w1 [] [] w' p)"
      by (cases s) auto
    have "length (out_data w' p) \<le> length (out_data w1 p)" using f p by (auto simp: lasts_def out_data_def)
    then have "along K A e1 w1 p [] [] e' w'" using f p by (simp add: along_def)
    from along_trans [OF a this p] r' show "case s of (e', w') \<Rightarrow> ready A n e' w' \<and> along K A e w p bs rs e' w'"
      by (simp add: s)
  qed
  then show ?thesis by (simp add: wp_simps)
qed

lemma wp_transmits:
  assumes r: "ready A (turns_for (unat n) * (most * chunk) + k) e w" and p: "p \<in> A"
    and tabs: "\<forall>q \<in> A. q \<in> in_tables e \<longrightarrow> q \<in> set (cons_of e)" and most: "\<forall>w. pace w \<le> most"
    and room: "length (out_data w p) + unat n \<le> 2 ^ 62"
  shows "wp no_fault (transmit (bindM (liftW (getsM pace)) (\<lambda>m. repeatM m loop)) (\<lambda>out. liftW (write_to K p out)) n)
    (\<lambda>ok (e', w'). ok \<and> ready A k e' w' \<and> along K A e w p (pattern 0 (unat n)) [] e' w') (e, w)"
proof -
  let ?I = "\<lambda>bs (e', w'). ready A (turns_for (unat n - length bs) * (most * chunk) + k) e' w'
      \<and> along K A e w p bs [] e' w'"
  let ?J = "\<lambda>bs (e', w'). ready A ((turns_for (unat n - length bs) - 1) * (most * chunk) + k) e' w'
      \<and> along K A e w p bs [] e' w'"
  have "wp no_fault (transmit (bindM (liftW (getsM pace)) (\<lambda>m. repeatM m loop)) (\<lambda>out. liftW (write_to K p out)) n)
    (\<lambda>ok s. ok \<and> ?I (pattern 0 (unat n)) s) (e, w)"
  proof (rule wp_transmit [where i = 0 and J = ?J])
    fix bs and s :: "'a endpoint_scheme \<times> world"
    assume I: "?I bs s" and less: "length bs < unat n"
    obtain e1 w1 where s: "s = (e1, w1)" by (cases s)
    have "turns_for (unat n - length bs) = Suc (turns_for (unat n - length bs) - 1)"
      using less turns_for_rec [of "unat n - length bs"] by simp
    then have "turns_for (unat n - length bs) * (most * chunk) + k
        = most * chunk + ((turns_for (unat n - length bs) - 1) * (most * chunk) + k)" by (metis add.assoc mult_Suc)
    with I have "ready A (most * chunk + ((turns_for (unat n - length bs) - 1) * (most * chunk) + k)) e1 w1"
      "along K A e w p bs [] e1 w1" by (simp_all add: s)
    from wp_turn [OF this p most]
    show "wp no_fault (bindM (liftW (getsM pace)) (\<lambda>m. repeatM m loop)) (\<lambda>_. ?J bs) s" unfolding s .
  next
    fix bs and out :: "byte list" and s :: "'a endpoint_scheme \<times> world"
    assume J: "?J bs s" and less: "length bs < unat n" and len: "length out = min (unat n - length bs) 256"
    obtain e1 w1 where s: "s = (e1, w1)" by (cases s)
    have a: "along K A e w p bs [] e1 w1"
      and r1: "ready A ((turns_for (unat n - length bs) - 1) * (most * chunk) + k) e1 w1" using J by (simp_all add: s)
    have "length (out_data w1 p) + length out \<le> 2 ^ 62" using a less len room unfolding along_def by linarith
    note w = wp_write_step [OF r1 p this, folded write_to_def]
    have "turns_for (unat n - length (bs @ out)) = turns_for (unat n - length bs) - 1"
      using less len turns_for_rec [of "unat n - length bs"] by simp
    then show "wp no_fault (liftW (write_to K p out)) (\<lambda>r s'. r = int (length out) \<and> ?I (bs @ out) s') s"
      unfolding s using along_touched [OF a] by (intro wp_mono [OF w]) fastforce
  qed (use r tabs in \<open>simp_all add: along_refl\<close>)
  then show ?thesis by simp
qed

lemma wp_receives:
  assumes r: "ready A (patience * (most * chunk)) e w" and p: "p \<in> A"
    and tabs: "\<forall>q \<in> A. q \<in> in_tables e \<longrightarrow> q \<in> set (cons_of e)" and most: "\<forall>w. pace w \<le> most"
  shows "wp (\<lambda>f. f = Out_Of_Fuel) (receive patience (bindM (liftW (getsM pace)) (\<lambda>m. repeatM m loop))
      (\<lambda>n. liftW (read_from p n)) whole whole)
    (\<lambda>c (e', w'). c \<in> {0, 8} \<and> (\<exists>rs. (c = 0 \<longrightarrow> rs = pattern 0 (unat whole))
      \<and> ready A 0 e' w' \<and> along K A e w p [] rs e' w')) (e, w)"
proof -
  let ?I = "\<lambda>rs m (e', w'). ready A (m * (most * chunk)) e' w' \<and> along K A e w p [] rs e' w'"
  have "wp (\<lambda>f. f = Out_Of_Fuel) (receive patience (bindM (liftW (getsM pace)) (\<lambda>m. repeatM m loop))
      (\<lambda>n. liftW (read_from p n)) whole whole)
    (\<lambda>c s'. \<exists>rs m. ?I rs m s' \<and> c \<in> {0, 8} \<and> (c = 0 \<longrightarrow> rs = pattern 0 (unat whole))) (e, w)"
  proof (rule wp_receive)
    fix rs m and s :: "'a endpoint_scheme \<times> world"
    assume "?I rs (Suc m) s"
    then obtain e1 w1 where s: "s = (e1, w1)" and "ready A (most * chunk + m * (most * chunk)) e1 w1" "along K A e w p [] rs e1 w1"
      by (cases s) auto
    from wp_turn [OF this(2,3) p most]
    show "wp (\<lambda>f. f = Out_Of_Fuel) (bindM (liftW (getsM pace)) (\<lambda>m. repeatM m loop)) (\<lambda>_. ?I rs m) s"
      unfolding s by (rule wp_mono_fault) simp_all
  next
    fix rs m and n :: "64 word" and s :: "'a endpoint_scheme \<times> world"
    assume I: "?I rs m s" and n: "unat n \<le> 256"
    obtain e1 w1 where s: "s = (e1, w1)" by (cases s)
    have r1: "ready A (m * (most * chunk)) e1 w1" and a: "along K A e w p [] rs e1 w1" using I by (simp_all add: s)
    have "unat n < 2 ^ 62" using n by simp
    note w = wp_read_step [OF r1 p this, unfolded of_nat_unat_size, folded read_from_def]
    show "wp (\<lambda>f. f = Out_Of_Fuel) (liftW (read_from p n)) (\<lambda>c s'. \<exists>ds. length ds \<le> unat n \<and> fst c = int (length ds)
        \<and> take (nat (fst c)) (the (snd c)) = ds \<and> ?I (rs @ ds) m s') s"
      unfolding s
    proof (rule wp_mono_fault [OF w])
      fix c and s' :: "'a endpoint_scheme \<times> world"
      assume "case s' of (e', w') \<Rightarrow> e' = e1 \<and> fst c = int (min (unat n) (length (in_data w1 p)))
        \<and> take (nat (fst c)) (the (snd c)) = take (unat n) (in_data w1 p)
        \<and> ready A (m * (most * chunk)) e1 w' \<and> touched w1 p [] (take (unat n) (in_data w1 p)) w'"
      then show "\<exists>ds. length ds \<le> unat n \<and> fst c = int (length ds)
        \<and> take (nat (fst c)) (the (snd c)) = ds \<and> ?I (rs @ ds) m s'"
        using along_touched [OF a]
        by (intro exI [of _ "take (unat n) (in_data w1 p)"]) (cases s', auto simp: min.commute)
    qed simp
  qed (use r tabs in \<open>simp_all add: along_refl\<close>)
  then show ?thesis
    by (rule wp_mono) (use less_room in fastforce)
qed

text \<open>Both loops: the exit code 0 is truthful.\<close>

lemma wp_transfer:
  assumes r: "ready A ((1 + turns_for (unat bytesOut) + patience) * (most * chunk)) e w" and p: "p \<in> A"
    and tabs: "\<forall>q \<in> A. q \<in> in_tables e \<longrightarrow> q \<in> set (cons_of e)" and most: "\<forall>w. pace w \<le> most"
    and room: "length (out_data w p) + unat bytesOut \<le> 2 ^ 62"
  defines "turn \<equiv> bindM (liftW (getsM pace)) (\<lambda>m. repeatM m loop)"
  shows "wp (\<lambda>f. f = Out_Of_Fuel) (thenM turn (bindM (transmit turn (\<lambda>out. liftW (write_to K p out)) bytesOut) (\<lambda>written.
      if \<not> written then returnM 7
      else receive patience turn (\<lambda>n. liftW (read_from p n)) bytesIn bytesIn)))
    (\<lambda>c (e', w'). c \<in> {0, 8} \<and> (\<exists>rs. (c = 0 \<longrightarrow> rs = pattern 0 (unat bytesIn))
      \<and> ready A 0 e' w' \<and> along K A e w p (pattern 0 (unat bytesOut)) rs e' w')) (e, w)"
proof -
  let ?q = "most * chunk" and ?F = "\<lambda>f. f = Out_Of_Fuel"
  let ?post = "\<lambda>c (e', w'). c \<in> {0, 8} \<and> (\<exists>rs. (c = (0 :: int) \<longrightarrow> rs = pattern 0 (unat bytesIn))
      \<and> ready A 0 e' w' \<and> along K A e w p (pattern 0 (unat bytesOut)) rs e' w')"
  have reading: "wp ?F (receive patience turn (\<lambda>n. liftW (read_from p n)) bytesIn bytesIn) ?post (e2, w2)"
    if r2: "ready A (patience * ?q) e2 w2" and a: "along K A e w p (pattern 0 (unat bytesOut)) [] e2 w2" for e2 w2
  proof -
    have "\<forall>q \<in> A. q \<in> in_tables e2 \<longrightarrow> q \<in> set (cons_of e2)" using a by (simp add: along_def)
    from wp_receives [OF r2 p this most] show ?thesis
      unfolding turn_def by (rule wp_mono) (use along_trans [OF a _ p] in fastforce)
  qed
  have writing: "wp ?F (transmit turn (\<lambda>out. liftW (write_to K p out)) bytesOut) (\<lambda>written. wp ?F (if \<not> written then returnM 7
      else receive patience turn (\<lambda>n. liftW (read_from p n)) bytesIn bytesIn) ?post) (e1, w1)"
    if r1: "ready A (turns_for (unat bytesOut) * ?q + patience * ?q) e1 w1" and a: "along K A e w p [] [] e1 w1" for e1 w1
  proof -
    have tabs1: "\<forall>q \<in> A. q \<in> in_tables e1 \<longrightarrow> q \<in> set (cons_of e1)" and "length (out_data w1 p) + unat bytesOut \<le> 2 ^ 62"
      using a room by (auto simp: along_def)
    from wp_transmits [OF r1 p tabs1 most this(2)] show ?thesis
      unfolding turn_def [symmetric]
      by (rule wp_mono_fault) (use reading along_trans [OF a _ p] in fastforce)+
  qed
  have "ready A (?q + (turns_for (unat bytesOut) * ?q + patience * ?q)) e w"
    using r by (simp add: distrib_right add.assoc)
  from wp_turn [OF this along_refl [OF tabs] p most]
  show ?thesis
    unfolding wp_then wp_bind_eq turn_def [symmetric]
    by (rule wp_mono_fault) (use writing in auto)
qed

end

section \<open>The programs\<close>



text \<open>The reading loop without anybody else running: data that are all there are found right.\<close>

lemma wp_receive_present:
  assumes q: "q \<noteq> 0"
  shows "unat left + 256 \<le> 256 * patience \<Longrightarrow> left \<le> whole \<Longrightarrow> 256 dvd unat (whole - left) \<Longrightarrow>
    w_asocks w q = Some a \<Longrightarrow> asock_ok a \<Longrightarrow>
    in_data w q = pattern (unat (whole - left)) (unat whole) @ rest \<Longrightarrow>
    wp F (receive patience (returnM ()) (read_from q) whole left) (\<lambda>c w'. c = 0 \<and> in_data w' q = rest) w"
proof (induction patience arbitrary: left w a)
  case (Suc patience)
  show ?case
  proof (cases "left = 0")
    case True
    with Suc.prems show ?thesis by (simp add: wp_simps)
  next
    case False
    let ?c = "min left BUFFER" and ?off = "unat (whole - left)" and ?in = "in_data w q"
    have c: "unat ?c = min (unat left) 256" by (rule unat_chunk)
    have off: "?off = unat whole - unat left" "unat left \<le> unat whole"
      using Suc.prems(2) unat_sub [of left whole] by (simp_all add: word_le_nat_alt)
    have len: "length ?in = unat left + length rest" using Suc.prems(6) off by simp
    have chunk: "take (unat ?c) ?in = pattern ?off (?off + unat ?c)"
      using Suc.prems(6) off c by (simp add: take_pattern)
    have right: "as_expected (whole - left) (pattern ?off (?off + unat ?c))"
      using Suc.prems(3) c by (subst as_expected_iff) (auto simp: dvd_eq_mod_eq_0)
    have m: "min (unat ?c) (length ?in) = unat ?c" using c len by simp
    let ?left = "left - ?c"
    have "?c \<le> left" by simp
    then have left: "unat ?left = unat left - unat ?c" by (rule unat_sub)
    then have below: "?left \<le> whole" using off(2) by (simp add: word_le_nat_alt)
    have off': "unat (whole - ?left) = ?off + unat ?c"
      using unat_sub [OF below] left off c by simp
    have pos: "0 < unat left" using False by (simp add: unat_gt_0)
    have next_chunk: "wp F (receive patience (returnM ()) (read_from q) whole ?left) (\<lambda>c w'. c = 0 \<and> in_data w' q = rest) w1"
      if w1: "w_asocks w1 q = Some b" "asock_ok b" "in_data w1 q = drop (unat ?c) ?in" for w1 b
    proof (cases "unat left \<le> 256")
      case True
      then have "?left = 0" using left c by (simp add: unat_eq_zero)
      moreover obtain m where "patience = Suc m" using Suc.prems(1) pos by (cases patience) auto
      moreover have "in_data w1 q = rest" using w1(3) Suc.prems(6) True c off by (simp add: min_def)
      ultimately show ?thesis by (simp add: wp_simps)
    next
      case False
      show ?thesis
      proof (rule Suc.IH [OF _ below _ w1(1,2)])
        show "unat ?left + 256 \<le> 256 * patience" using Suc.prems(1) left c False by simp
        show "in_data w1 q = pattern (unat (whole - ?left)) (unat whole) @ rest"
          using w1(3) Suc.prems(6) off off' c by (simp add: drop_pattern)
        have "unat ?c = 256" using c False by simp
        then show "256 dvd unat (whole - ?left)" using Suc.prems(3) unfolding off' by simp
      qed
    qed
    let ?rest = "\<lambda>r. case r of (countRead, buf) \<Rightarrow>
        if countRead = - 1 then returnM 8
        else if \<not> as_expected (whole - left) (take (nat countRead) (the buf)) then returnM 8
        else receive patience (returnM ()) (read_from q) whole (left - word_of_int countRead)"
    have buf: "length (replicate (unat ?c) 0 :: byte list) = unat ?c" by simp
    have a: "queue_data (m_in_queue a) = ?in" using Suc.prems(4) by (simp add: in_data_def)
    have "wp F (read_from q ?c) (\<lambda>r w1. wp F (?rest r) (\<lambda>c w'. c = 0 \<and> in_data w' q = rest) w1) w"
    proof (rule wp_mono [OF wp_read_prefix [OF q Suc.prems(4,5) buf a, folded read_from_def]], unfold m, elim conjE exE)
      fix r w1 q'
      assume r: "r = (int (unat ?c), Some (take (unat ?c) ?in @ drop (length ?in) (replicate (unat ?c) 0)))"
        and q': "byte_queue_ok q'" "queue_data q' = drop (unat ?c) ?in"
        and w1: "w1 = w\<lparr>w_asocks := (w_asocks w)(q \<mapsto> a\<lparr>m_in_queue := q'\<rparr>)\<rparr>"
      have "take (nat (int (unat ?c))) (take (unat ?c) ?in @ drop (length ?in) (replicate (unat ?c) 0)) = take (unat ?c) ?in"
        using c len by (simp only: nat_int) (simp add: take_append)
      moreover have "int (unat ?c) \<noteq> - 1" using of_nat_0_le_iff [of "unat ?c", where 'a = int] by linarith
      ultimately have "?rest r = receive patience (returnM ()) (read_from q) whole (left - word_of_int (int (unat ?c)))"
        by (simp only: r prod.case option.sel chunk right if_False not_True_eq_False)
      also have "word_of_int (int (unat ?c)) = ?c" by (simp only: of_int_of_nat_eq of_nat_unat_size)
      finally show "wp F (?rest r) (\<lambda>c w'. c = 0 \<and> in_data w' q = rest) w1"
        using next_chunk [of w1 "a\<lparr>m_in_queue := q'\<rparr>"] Suc.prems(5) q' by (simp add: w1 asock_ok_def in_data_def)
    qed
    with False show ?thesis by (simp only: receive.simps if_False wp_then wp_bind_eq wp_return)
  qed
qed simp

lemma wp_transmit_alone:
  assumes K: "alloc_grants (k_malloc K)" and p: "p \<noteq> 0" "w_asocks w p = Some a" "asock_ok a"
    and room: "length (out_data w p) + unat n \<le> 2 ^ 62"
  shows "wp F (transmit (returnM ()) (write_to K p) n)
    (\<lambda>ok w'. ok \<and> out_data w' p = out_data w p @ pattern 0 (unat n)) w"
proof -
  let ?I = "\<lambda>bs w'. (\<exists>b. w_asocks w' p = Some b \<and> asock_ok b) \<and> out_data w' p = out_data w p @ bs"
  have "wp F (transmit (returnM ()) (write_to K p) n) (\<lambda>ok w'. ok \<and> ?I (pattern 0 (unat n)) w') w"
  proof (rule wp_transmit [where i = 0 and J = ?I])
    fix bs and out :: "byte list" and w1
    assume I: "?I bs w1" and less: "length bs < unat n" and len: "length out = min (unat n - length bs) 256"
    obtain b where b: "w_asocks w1 p = Some b" "asock_ok b" using I by blast
    have data: "queue_data (m_out_queue b) = out_data w p @ bs" using I b(1) by (simp add: out_data_def)
    have bound: "length (queue_data (m_out_queue b)) + length out \<le> 2 ^ 62" using room less len unfolding data by simp
    then have u: "unat (of_nat (length out) :: size_t) = length out" by (intro unat_of_nat_size) simp
    show "wp F (write_to K p out) (\<lambda>r s'. r = int (length out) \<and> ?I (bs @ out) s') w1"
      unfolding write_to_def
    proof (rule wp_mono [OF wp_write_granted [OF p(1) b allocator_at_grants [OF K] u bound]], elim conjE exE, intro conjI)
      fix r w2 q
      assume q: "byte_queue_ok q" "queue_data q = queue_data (m_out_queue b) @ out"
        and eq: "w2 = w1\<lparr>w_allocs := w_allocs w2, w_asocks := (w_asocks w1)(p \<mapsto> b\<lparr>m_out_queue := q\<rparr>)\<rparr>"
      have w2: "w_asocks w2 p = Some (b\<lparr>m_out_queue := q\<rparr>)" by (subst eq) simp
      then show "\<exists>b. w_asocks w2 p = Some b \<and> asock_ok b" using b(2) q(1) by (simp add: asock_ok_def)
      show "out_data w2 p = out_data w p @ bs @ out" using w2 q(2) data by (simp add: out_data_def)
    qed
  qed (use p in \<open>simp_all add: wp_simps\<close>)
  then show ?thesis by (rule wp_mono) simp
qed

text \<open>C26. What one end of the transfer writes the other end accepts: the writing loop appends a number of
  bytes to the output queue of its connection, as many as asked for, and the reading loop of the same
  length, on any connection in whose input queue just these bytes are next, ends with exit code 0 and
  takes exactly them.\<close>

theorem transfer_roundtrip:
  assumes "alloc_grants (k_malloc K)" "p \<noteq> 0" "w_asocks w p = Some a" "asock_ok a"
    and "length (out_data w p) + unat n \<le> 2 ^ 62" "unat n + 256 \<le> 256 * patience" "q \<noteq> 0"
  shows "\<exists>w' bs. transmit (returnM ()) (write_to K p) n w = Inr (True, w')
    \<and> out_data w' p = out_data w p @ bs \<and> length bs = unat n
    \<and> (\<forall>v b rest. w_asocks v q = Some b \<longrightarrow> asock_ok b \<longrightarrow> in_data v q = bs @ rest \<longrightarrow>
         (\<exists>v'. receive patience (returnM ()) (read_from q) n n v = Inr (0, v') \<and> in_data v' q = rest))"
proof -
  obtain w' where w': "transmit (returnM ()) (write_to K p) n w = Inr (True, w')"
      "out_data w' p = out_data w p @ pattern 0 (unat n)"
    using wp_no_faultD [OF wp_transmit_alone [OF assms(1-5)]] by auto
  have "\<exists>v'. receive patience (returnM ()) (read_from q) n n v = Inr (0, v') \<and> in_data v' q = rest"
    if "w_asocks v q = Some b" "asock_ok b" "in_data v q = pattern 0 (unat n) @ rest" for v b rest
    using wp_no_faultD [OF wp_receive_present [OF assms(7,6) order_refl _ that(1,2), of rest]] that(3) by simp
  with w' show ?thesis by (intro exI [of _ w'] exI [of _ "pattern 0 (unat n)"]) simp
qed

theorem transfer_roundtrip_witness:
  "\<exists>w' bs. transmit (returnM ()) (write_to calm_kernel 4096) 300 (sample_world 2 False) = Inr (True, w')
    \<and> out_data w' 4096 = [11, 22] @ bs \<and> length bs = 300"
proof -
  let ?w = "sample_world 2 False"
  have a: "w_asocks ?w 4096 = Some (sample_con 6 0 2 False)" by (simp add: sample_world_def)
  have d: "out_data ?w 4096 = [11, 22]" by (simp add: out_data_def)
  have "lasts ?w 4096 ?w" using sample_server_in_use by (simp add: server_in_use_def)
  then have "asock_ok (sample_con 6 0 2 False)" using a by (simp add: lasts_def)
  moreover have "alloc_grants (k_malloc calm_kernel)" by (simp add: calm_kernel_def)
  ultimately show ?thesis
    using transfer_roundtrip [of calm_kernel 4096 ?w "sample_con 6 0 2 False" 300 3 8192] a d by auto
qed

lemma read_from_returns:
  assumes "q \<noteq> 0" "w_asocks w q = Some a" "asock_ok a"
  shows "\<exists>w' buf. read_from q c w = Inr ((int (min (unat c) (length (in_data w q))), Some buf), w')
    \<and> take (min (unat c) (length (in_data w q))) buf = take (unat c) (in_data w q)
    \<and> in_data w' q = drop (unat c) (in_data w q)"
proof -
  have buf: "length (replicate (unat c) 0 :: byte list) = unat c" by simp
  have a: "queue_data (m_in_queue a) = in_data w q" using assms(2) by (simp add: in_data_def)
  from wp_no_faultD [OF wp_read_prefix [OF assms buf a, folded read_from_def]]
  obtain w' q' where "read_from q c w = Inr ((int (min (unat c) (length (in_data w q))),
        Some (take (unat c) (in_data w q) @ drop (length (in_data w q)) (replicate (unat c) 0))), w')"
      "queue_data q' = drop (unat c) (in_data w q)" "w' = w\<lparr>w_asocks := (w_asocks w)(q \<mapsto> a\<lparr>m_in_queue := q'\<rparr>)\<rparr>"
    by blast
  then show ?thesis by (simp add: in_data_def min_def)
qed

text \<open>C39. The reading loop rejects right data that come in two parts. When the first part is no multiple of
  256 bytes and the second goes on beyond the next one, every byte being what was asked for, the test
  of the second part compares with sums above 255, and the program exits with 8.\<close>

theorem receive_rejects_right_data:
  assumes "q \<noteq> 0" "w_asocks w q = Some a" "asock_ok a" "in_data w q = pattern 0 k" "0 < k" "k < 256"
    and "256 < m" "m \<le> unat n" "turn w = Inr ((), w)"
    and "\<forall>w1. in_data w1 q = [] \<longrightarrow>
      (\<exists>w2 b. turn w1 = Inr ((), w2) \<and> w_asocks w2 q = Some b \<and> asock_ok b \<and> in_data w2 q = pattern k m)"
  shows "\<exists>w'. receive (Suc (Suc patience)) turn (read_from q) n n w = Inr (8, w')"
proof -
  have big: "256 < unat n" using assms(7,8) by linarith
  then have n0: "n \<noteq> 0" by auto
  have c: "unat (min n BUFFER) = 256" using big unat_chunk [of n] by simp
  obtain w1 buf1 where r1: "read_from q (min n BUFFER) w = Inr ((int k, Some buf1), w1)" "take k buf1 = pattern 0 k"
      "in_data w1 q = []"
    using read_from_returns [OF assms(1-3), of "min n BUFFER"] assms(4,6) c by (auto simp: drop_pattern)
  have ok1: "as_expected (n - n) (pattern 0 k)" using assms(6) by (subst as_expected_iff) simp_all
  let ?left = "n - word_of_int (int k)"
  have k: "unat (word_of_int (int k) :: 64 word) = k" using assms(6) by (simp add: unat_of_nat_size)
  have "(word_of_int (int k) :: 64 word) \<le> n" using k big assms(6) by (simp add: word_le_nat_alt)
  then have left: "unat ?left = unat n - k" using unat_sub k by metis
  then have left0: "?left \<noteq> 0" using big assms(6) by auto
  have off: "unat (n - ?left) = k" using k by simp
  obtain w2 b where w2: "turn w1 = Inr ((), w2)" "w_asocks w2 q = Some b" "asock_ok b" "in_data w2 q = pattern k m"
    using assms(10) r1(3) by blast
  let ?l = "min (unat (min ?left BUFFER)) (m - k)"
  have "min m (k + x) = k + min x (m - k)" for x using assms(6,7) by linarith
  then obtain w3 buf2 where r2: "read_from q (min ?left BUFFER) w2 = Inr ((int ?l, Some buf2), w3)" "take ?l buf2 = pattern k (k + ?l)"
    using read_from_returns [OF assms(1) w2(2,3), of "min ?left BUFFER"] w2(4) by (auto simp: take_pattern)
  have l: "?l \<le> 256" "256 < k + ?l" "0 < ?l" using unat_chunk [of ?left] left big assms(5-7) by (auto simp: min_def)
  moreover have "pattern k (k + x) \<noteq> []" if "0 < x" for x using that by (simp add: pattern_def)
  ultimately have wrong: "\<not> as_expected (n - ?left) (pattern k (k + ?l))"
    using as_expected_iff [of "pattern k (k + ?l)" "n - ?left"] assms(6) unfolding off by fastforce
  have "int k \<noteq> - 1" "int ?l \<noteq> - 1" using of_nat_0_le_iff [of k, where 'a = int] of_nat_0_le_iff [of ?l, where 'a = int] by linarith+
  then show ?thesis
    using n0 left0 assms(9) w2(1) r1(1,2) r2 ok1 wrong
    by (simp only: receive.simps if_False thenM_def bindM_def bindR_simps prod.case nat_int option.sel returnM_def
      not_True_eq_False not_False_eq_True if_True) blast
qed

text \<open>An object with given received data.\<close>

lemma ex_received:
  assumes "length bs \<le> 2 ^ 61"
  shows "\<exists>b. asock_ok b \<and> queue_data (m_in_queue b) = bs"
proof -
  have g: "alloc_grants (allocator_at calm_kernel (sample_world 2 False))"
    by (intro allocator_at_grants) (simp add: calm_kernel_def)
  obtain q0 where q0: "byte_queue_ok q0" "queue_data q0 = []"
    using byte_dequeue [OF sample_byte_queue(1), of None 2] by auto
  have "unat (of_nat (length bs) :: size_t) = length bs" using assms by (intro unat_of_nat_size) simp
  from byte_enqueue_granted [OF q0(1) g this] q0(2) assms
  obtain q where "byte_queue_ok q" "queue_data q = bs" by auto
  then show ?thesis
    by (intro exI [of _ "(sample_con 6 0 2 False)\<lparr>m_in_queue := q\<rparr>"]) (simp add: asock_ok_def)
qed

theorem receive_rejects_right_data_witness:
  "\<exists>turn w w'. in_data w 4096 = [0] \<and> receive 2 turn (read_from 4096) 257 257 w = Inr (8, w')"
proof -
  let ?with = "\<lambda>b. (sample_world 2 False)\<lparr>w_asocks := [4096 \<mapsto> b]\<rparr>"
  obtain a where a: "asock_ok a" "queue_data (m_in_queue a) = pattern 0 1" using ex_received [of "pattern 0 1"] by auto
  obtain b where b: "asock_ok b" "queue_data (m_in_queue b) = pattern 1 257" using ex_received [of "pattern 1 257"] by auto
  let ?turn = "\<lambda>w. if in_data w 4096 = [] then Inr ((), ?with b) else Inr ((), w)"
  have one: "pattern 0 1 = [0]" by (simp add: pattern_def)
  have d: "in_data (?with a) 4096 = pattern 0 1" "in_data (?with b) 4096 = pattern 1 257"
    using a(2) b(2) by (simp_all add: in_data_def)
  have "\<exists>w'. receive (Suc (Suc 0)) ?turn (read_from 4096) 257 257 (?with a) = Inr (8, w')"
    by (rule receive_rejects_right_data [where a = a and k = 1 and m = 257])
      (use a(1) b(1) d one in auto)
  then show ?thesis using d(1) unfolding one numeral_2_eq_2 by blast
qed

section \<open>Arguments\<close>

text \<open>A later argument overrides an earlier one, an option without a value is ignored, ports count modulo
  65536 and negative numbers of bytes modulo 2^64; what is no number ends the program.\<close>

lemma server_arguments:
  "server_options [''--port'', ''65537'', ''--port''] initial_options = Inr (initial_options\<lparr>o_port := 1\<rparr>)"
  "server_options [''--port'', ''80'', ''--port'', '' +8080x''] initial_options = Inr (initial_options\<lparr>o_port := 8080\<rparr>)"
  "server_options [''--bytes-to-recieve'', ''-1''] initial_options = Inr (initial_options\<lparr>o_bytesIn := 2 ^ 64 - 1\<rparr>)"
  "server_options [''--port'', ''http''] initial_options = Inl Aborted_Process"
  "server_options [''--port'', ''99999999999''] initial_options = Inl Aborted_Process"
  by (simp_all add: stoi_def stoll_def number_within_def number_of_def digits_value_def isspace_def isdigit_def initial_options_def)

text \<open>The programs read the namespace from \<open>--setns\<close> and then pass on their second argument instead.\<close>

lemma namespace_is_second_argument:
  "server_options (tl [''server'', ''--port'', ''80'', ''--setns'', ''ns1'']) initial_options
    = Inr (initial_options\<lparr>o_port := 80, o_nms := ''ns1''\<rparr>)"
  "[''server'', ''--port'', ''80'', ''--setns'', ''ns1''] ! 2 = ''80''"
  by (simp_all add: stoi_def number_within_def number_of_def digits_value_def isspace_def isdigit_def initial_options_def)

section \<open>The examples\<close>

text \<open>The examples do not look at what the library returns: without memory the client hands a null
  pointer on, and the server comes to an assertion.\<close>

lemma examples_need_memory:
  assumes "\<And>i n. k_malloc K i n = None"
  shows "example_client n patience pace fuel K zero (g, w) = Inl Null_Deref"
    and "example_server n patience pace' fuel K zero (g, w) = Inl Assert_Failed"
  using assms
  by (simp_all add: example_client_def example_server_def asock_init_def asock_create_def asock_create_ns_def
    asock_connect_def asock_server_create_def asock_server_create_ns_def strdup_def malloc_def read_asock_def deref_def
    op_defs updateG_def liftMW_def)

end
