(* ===== verification/Asock_Logger.thy ===== *)
theory Asock_Logger
  imports Asock_Prelude
begin

text \<open>
  \<open>src/asock_logger.c\<close> with the levels of \<open>src/asock_logger.h\<close>. What the C library formats (the
  message, the date, the line number, the text of the error number) is an argument; the result is
  what is written: each line with the stream it goes to. The mutex is taken and released in one
  straight section.
\<close>

section \<open>State\<close>

text \<open>The streams the logger writes to, and its two global variables.\<close>

datatype FILE = Stdout | Log_File nat

record logger =
  s_trace_level :: int
  s_log_file :: "FILE option"

definition TRACE_LEVEL_ERROR :: int where "TRACE_LEVEL_ERROR = 0"
definition TRACE_LEVEL_WARNING :: int where "TRACE_LEVEL_WARNING = 1"
definition TRACE_LEVEL_NORMAL :: int where "TRACE_LEVEL_NORMAL = 2"
definition TRACE_LEVEL_INFO :: int where "TRACE_LEVEL_INFO = 3"
definition TRACE_LEVEL_DEBUG :: int where "TRACE_LEVEL_DEBUG = 6"

definition DEFAULT_APPLICATION_TRACE_LEVEL :: int where
  "DEFAULT_APPLICATION_TRACE_LEVEL = TRACE_LEVEL_DEBUG"

text \<open>The initial values of the variables.\<close>

definition initial_logger :: logger where
  "initial_logger = \<lparr>s_trace_level = DEFAULT_APPLICATION_TRACE_LEVEL, s_log_file = None\<rparr>"

definition get_trace_level :: "logger \<Rightarrow> int" where
  "get_trace_level g = s_trace_level g"

definition set_trace_level :: "int \<Rightarrow> logger \<Rightarrow> logger" where
  "set_trace_level level g = g\<lparr>s_trace_level := level\<rparr>"

section \<open>A message\<close>

definition newline :: char where "newline = CHR 0x0A"
definition slash :: char where "slash = CHR 0x2F"

text \<open>Line 51: the part of a path after its last slash.\<close>

definition file_of :: "string \<Rightarrow> string" where
  "file_of path =
     (if slash \<in> set path then take 1023 (rev (takeWhile (\<lambda>c. c \<noteq> slash) (rev path))) else path)"

text \<open>Line 76: newlines at the end of the message are cut off; for an empty string the byte before
  the buffer is read.\<close>

function trim_newlines :: "string \<Rightarrow> string res" where
  "trim_newlines buf =
     (if buf = [] then Inl Out_Of_Bounds
      else if last buf = newline then trim_newlines (butlast buf)
      else Inr buf)"
  by pat_completeness auto
termination by (relation "measure length") auto

declare trim_newlines.simps [simp del]

text \<open>Lines 65 to 74, into a buffer of 100 bytes.\<close>

definition extra_message :: "int \<Rightarrow> bool \<Rightarrow> string \<Rightarrow> string res" where
  "extra_message level add_strerr_info strerr =
     (if level = TRACE_LEVEL_ERROR
      then if add_strerr_info
           then let msg = ''ERROR: '' @ ''('' @ strerr @ '') ''
                in if length msg < 100 then Inr msg else Inl Out_Of_Bounds
           else Inr ''ERROR: ''
      else if level = TRACE_LEVEL_WARNING then Inr ''WARNING: ''
      else Inr [])"

definition escape :: char where "escape = CHR 0x1B"

text \<open>Lines 78 to 96.\<close>

definition begin_color_tag :: "int \<Rightarrow> string" where
  "begin_color_tag level =
     (if level = TRACE_LEVEL_ERROR then escape # ''[31m''
      else if level = TRACE_LEVEL_WARNING then escape # ''[33m''
      else if level = TRACE_LEVEL_NORMAL then escape # ''[32m''
      else if level = TRACE_LEVEL_INFO then escape # ''[34m''
      else if level = TRACE_LEVEL_DEBUG then escape # ''[0m''
      else [])"

text \<open>\<open>tty\<close> says which streams are terminals.\<close>

definition trace_event ::
    "logger \<Rightarrow> int \<Rightarrow> bool \<Rightarrow> string \<Rightarrow> string \<Rightarrow> string \<Rightarrow> string \<Rightarrow> string \<Rightarrow> (FILE \<Rightarrow> bool)
     \<Rightarrow> ((FILE \<times> string) list \<times> logger) res" where
  "trace_event g event_trace_level add_strerr_info path line text the_date strerr tty =
     (let log_file = (case s_log_file g of None \<Rightarrow> Stdout | Some f \<Rightarrow> f);
          g = g\<lparr>s_log_file := Some log_file\<rparr> in
      if event_trace_level \<le> s_trace_level g \<and> s_trace_level g > 0
      then
        bindR (extra_message event_trace_level add_strerr_info strerr) (\<lambda>extra_msg.
        bindR (trim_newlines (take 65534 text)) (\<lambda>buf.
        let place = '' ['' @ file_of path @ '':'' @ line @ '']'';
            color_out_buf = take 65535 (begin_color_tag event_trace_level @ the_date @ place @ (escape # ''[0m'')
              @ '' '' @ extra_msg @ buf);
            out_buf = take 65535 (the_date @ place @ '' '' @ extra_msg @ buf);
            print = (\<lambda>file. (file, (if tty file then color_out_buf else out_buf) @ [newline])) in
        Inr (if log_file \<noteq> Stdout then [print log_file, print Stdout] else [print Stdout], g)))
      else Inr ([], g))"

section \<open>What the logger does\<close>

text \<open>Cutting off newlines, said without a loop.\<close>

definition trimmed :: "string \<Rightarrow> string" where
  "trimmed buf = rev (dropWhile (\<lambda>c. c = newline) (rev buf))"

lemma trim_newlines_spec: "trim_newlines buf = (if trimmed buf = [] then Inl Out_Of_Bounds else Inr (trimmed buf))"
proof (induction buf rule: rev_induct)
  case Nil
  then show ?case by (simp add: trim_newlines.simps [of "[]"] trimmed_def)
next
  case (snoc c buf)
  then show ?case by (simp add: trim_newlines.simps [of "buf @ [c]"] trimmed_def)
qed

lemma trimmed_blank: "trimmed buf = [] \<longleftrightarrow> set buf \<subseteq> {newline}"
  by (auto simp: trimmed_def dropWhile_eq_Nil_conv)

lemma trimmed_end: "trimmed buf \<noteq> [] \<Longrightarrow> last (trimmed buf) \<noteq> newline"
  using hd_dropWhile [of "\<lambda>c. c = newline" "rev buf"] by (simp add: trimmed_def last_rev)

text \<open>Which messages are written, which text follows the place in the code, and which messages the
  buffers of the logger do not hold.\<close>

definition logged :: "logger \<Rightarrow> int \<Rightarrow> bool" where
  "logged g level \<longleftrightarrow> level \<le> get_trace_level g \<and> 0 < get_trace_level g"

definition level_prefix :: "int \<Rightarrow> bool \<Rightarrow> string \<Rightarrow> string" where
  "level_prefix level add_strerr_info strerr =
     (if level = TRACE_LEVEL_ERROR then ''ERROR: '' @ (if add_strerr_info then ''('' @ strerr @ '') '' else [])
      else if level = TRACE_LEVEL_WARNING then ''WARNING: '' else [])"

definition overruns :: "int \<Rightarrow> bool \<Rightarrow> string \<Rightarrow> string \<Rightarrow> bool" where
  "overruns level add_strerr_info text strerr \<longleftrightarrow>
     set (take 65534 text) \<subseteq> {newline} \<or> 100 \<le> length (level_prefix level add_strerr_info strerr)"

lemma extra_message_spec:
  "extra_message level add_strerr_info strerr =
    (if 100 \<le> length (level_prefix level add_strerr_info strerr) then Inl Out_Of_Bounds
     else Inr (level_prefix level add_strerr_info strerr))"
  by (simp add: extra_message_def level_prefix_def Let_def)

text \<open>What stands in a line that is not cut off at the size of its buffer.\<close>

definition plain_line :: "int \<Rightarrow> bool \<Rightarrow> string \<Rightarrow> string \<Rightarrow> string \<Rightarrow> string \<Rightarrow> string \<Rightarrow> string" where
  "plain_line level add_strerr_info path line text the_date strerr =
     the_date @ '' ['' @ file_of path @ '':'' @ line @ '']'' @ '' ''
       @ level_prefix level add_strerr_info strerr @ trimmed (take 65534 text)"



end
