(* ===== verification/Spec2Isabelle.thy ===== *)
theory Spec2Isabelle
  imports Asock_Containers Asock_Server_Facts Asock_Server_Lifecycle Asock_Rounds Asock_Manager_Facts Asock_Machines Asock_Session Asock_Server_Session Asock_Apps_Facts
    Asock_Logger
begin

text \<open>
  libasock is a C library for asynchronous TCP sockets. An application creates connections, writes
  into and reads from their queues, and never makes a blocking call; threads of the library move
  the bytes between the queues and the kernel. This development models the library's code
  (\<open>src/\<close> and \<open>include/\<close>) and proves what its parts promise and how they work together.

  \<^bold>\<open>The program.\<close> A \<^emph>\<open>connection\<close> (\<open>struct asock\<close>, \<open>asock_impl.c\<close>) is an object on the heap with a
  reference count, a descriptor, a state and two \<^emph>\<open>queues\<close> (\<open>asock_tsqueue.c\<close>), ring buffers guarded by a mutex.
  A \<^emph>\<open>service\<close> (\<open>asock_service.c\<close>) owns outgoing connections and a \<^emph>\<open>server\<close> (\<open>asock_server.c\<close>) the accepted ones: each
  has a table of connections, a table of new ones, both \<^emph>\<open>vectors\<close> of pointers (\<open>asock_vector.c\<close>,
  \<open>asock_connections.c\<close>), an epoll descriptor and a thread. The application talks to the thread through
  a mailbox for one \<^emph>\<open>directive\<close> (\<open>asock_directive.c\<close>) and through the shared objects. The
  \<^emph>\<open>service manager\<close> (\<open>asock_service_manager.c\<close>) keeps one service for each network namespace, and
  the entry points of \<open>asock_impl.c\<close> pick the service there. The \<^emph>\<open>logger\<close> formats messages.

  \<^bold>\<open>The model.\<close> An operation is a function from a state to an outcome, \<open>Inl fault\<close> or
  \<open>Inr (result, state)\<close>. Faults are what the C code must not do: access through null or freed
  pointers, out-of-bounds copies, failed assertions, \<open>abort\<close>, locking a mutex already held, waiting for
  ever; \<open>Out_Of_Fuel\<close> marks the loops with a bound. \<open>wp F m Q s\<close> says that \<open>m\<close> returns from \<open>s\<close> with
  \<open>Q\<close>, or faults with \<open>F\<close>; with \<open>F = no_fault\<close> it is total correctness. \<open>size_t\<close> is \<open>64 word\<close>,
  blocks of memory are lists of bytes, and \<open>malloc\<close> is an argument that may refuse.

  \<^item> \<open>Asock_Prelude\<close>: outcomes, the operations of the monad, counted loops and the \<open>wp\<close> rules;
    \<open>Asock_Memory\<close>: blocks, \<open>memcpy\<close>, \<open>memmove\<close>, \<open>realloc\<close>; \<open>Asock_Interfaces\<close>: the contracts of a
    FIFO queue and of an indexed store of items as locales.
  \<^item> \<open>Asock_Vector\<close>, \<open>Asock_Tsqueue\<close>, \<open>Asock_Connections\<close>: the containers at the level of their bytes,
    with their invariants and abstractions to lists. \<open>Asock_Containers\<close> interprets the contracts on
    them and holds their properties: FIFO order across wrap-around and growth, list behaviour of
    the vector, bounds, termination, what a refused allocation leaves behind.
  \<^item> \<open>Asock_World\<close>: the system calls with their log, the heap of connections and the counters;
    \<open>Asock_Utils\<close> and \<open>Asock_Impl\<close>: \<open>asock_utils.c\<close> and the connection operations of \<open>asock_impl.c\<close>.
    \<open>Asock_Impl_Facts\<close>: creation, reading, writing and the life of the reference count.
  \<^item> \<open>Asock_Directive\<close>: the mailbox, and a step relation for senders and worker in every interleaving.
  \<^item> \<open>Asock_Owner\<close>: the record \<open>endpoint\<close> that the structs of services and servers share, and the code
    for the tables, which the two files carry twice: searching, closing, sending, receiving.
    \<open>Asock_Owner_Facts\<close>: each of these keeps the invariant \<open>owner_ok\<close> and what it does to streams,
    references and descriptors.
  \<^item> \<open>Asock_Service\<close>, \<open>Asock_Server\<close>: the thread functions as rounds of a state machine (the field
    \<open>e_thread\<close> is the place in the thread function) and the interface functions.
    \<open>Asock_Service_Facts\<close>, \<open>Asock_Server_Facts\<close>: connecting, accepting, publishing;
    \<open>Asock_Lifecycle\<close> and \<open>Asock_Server_Lifecycle\<close>: creation, start, listening and stop;
    \<open>Asock_Rounds\<close> and \<open>Asock_Server_Facts\<close>: a whole round of either thread keeps its owner
    well-formed, and no byte is lost, repeated or reordered on its way between queue and kernel.
  \<^item> \<open>Asock_Phases\<close>: a calculus of the operations that leave status, place of the thread and mailbox
    alone. \<open>Asock_Machines\<close>: services and servers as step relations over all calls, in any order;
    in every reachable state status and place agree and stopping comes to an end (the locale
    \<open>phase_machine\<close>, interpreted on both).
  \<^item> \<open>Asock_Streams\<close>: sessions of rounds, writes and reads in any order, with the bytes of every
    connection followed from end to end: \<open>sent\<close> and \<open>got\<close> (\<open>Asock_World\<close>) read off the log what the
    kernel took and delivered on a descriptor. What a round must guarantee for that is the locale
    \<open>thread_rounds\<close>; \<open>Asock_Session\<close> interprets it on services, and has connecting,
    \<open>Asock_Server_Session\<close> on servers, and has accepting.
  \<^item> \<open>Asock_Apps\<close>: the programs under \<open>test_apps/\<close> and \<open>example/\<close>, from their arguments to the exit
    code, with the threads of the library at work meanwhile. \<open>Asock_Apps_Facts\<close>: their transfer loops
    on top of \<open>thread_rounds\<close>: what they write reaches the kernel, exit code 0 is truthful, and the
    reading loop rejects some right data.
  \<^item> \<open>Asock_Service_Manager\<close>, \<open>Asock_Library\<close>: the global table of services and the entry points;
    \<open>Asock_Manager_Facts\<close>: the table as a finite map from namespaces to running services.
    \<open>Asock_Logger\<close>: which messages are written, their text and their destination.

  \<^bold>\<open>The kernel\<close> is the record \<open>kernel\<close>: arbitrary functions from the log of calls made so far to the
  answers. \<open>kernel_ok\<close> states documented behaviour (a new descriptor is not in use, \<open>send\<close> and \<open>read\<close>
  report no more bytes than they were given, \<open>malloc\<close> returns a block of the wanted size, a new object has an
  unused address). Hypotheses beyond it are named: \<open>alloc_grants\<close> (no allocation is refused), \<open>admits\<close>
  (\<open>epoll_ctl\<close> takes every descriptor and peer addresses fit into a \<open>sockaddr\<close>), \<open>drains\<close> and \<open>arrivals_end\<close> (below). \<open>calm_kernel\<close> satisfies them
  and runs in the witnesses.

  \<^bold>\<open>Loops and fuel.\<close> Counted loops are structural recursion. The search for a capacity is
  \<open>partial_function\<close>, and its termination a theorem. The loops that read until the
  kernel has nothing left (\<open>read_all_data\<close>, \<open>server_accept_all\<close>) end only if the peers stop: they take
  fuel, and \<open>drains fuel\<close> and \<open>arrivals_end limit\<close> with \<open>limit < fuel\<close> say that the kernel stops
  within it; the theorems then show that the loop returns. A peer that never stops keeps the thread in
  the loop, in the code as in the model. The programs' own loops wait for the peer and take
  \<open>patience\<close>; the theorems about them say what holds when it runs out (\<open>Out_Of_Fuel\<close>) and that
  \<open>n / 256 + 1\<close>, rounded up, is enough for \<open>n\<close> bytes that are there.

  \<^bold>\<open>Threads.\<close> The mailbox is modelled with every interleaving. In services and servers a round of
  the thread is one step and the calls of the application come between rounds; \<open>asock_send_directive\<close> posts, lets
  the thread run a round and takes the result. The mutexes of the queues and of the table of new
  connections are part of the state, so that a double lock is a fault; the mutexes around a single
  section of straight-line code (reference counter, counters of identifiers) are its atomicity.

  \<^bold>\<open>Not modelled.\<close> The interleaving of the application with the inside of a round; signals,
  timeouts and errors of pthread calls other than initialisation; the formatting done by the C
  library; what the programs print; \<open>asock_vector_destroy\<close>, \<open>asock_tsqueue_destroy\<close> and the like,
  which only free memory that is a value here; the code of \<open>asock_server.c\<close>,
  \<open>asock_service.c\<close> and \<open>asock_utils.c\<close> that is commented out; the unit tests under \<open>test/\<close>, which
  run the library on a real network.
\<close>

end
